(* ===== verification/Go_Prelude.thy ===== *)
theory Go_Prelude
  imports Main "HOL-Library.Word" "HOL-Library.Monad_Syntax"
begin

unbundle bit_operations_syntax

text \<open>
  Shared ground of the development: bytes, errors, byte slices and the few library calls of the
  Go packages that the broker makes on them.

  A Go function that can panic is modelled by a function into \<^typ>\<open>'a option\<close>: \<open>None\<close> is a
  run-time panic (an index or a slice bound out of range), \<open>Some\<close> is a normal return, and the
  \<open>error\<close> result of Go is a separate component \<^typ>\<open>'e option\<close> of the returned tuple with \<open>None\<close>
  for \<open>nil\<close>.  Go's \<open>int\<close> (64 bits, and only ever a length or a sum of a few lengths here) is
  \<^typ>\<open>int\<close>; the widths that matter (\<open>byte\<close>, \<open>uint16\<close>, \<open>int32\<close>, \<open>uint64\<close>) are kept.
\<close>

section \<open>Bytes and errors\<close>

type_synonym byte = "8 word"
type_synonym bytes = "8 word list"
type_synonym uint16 = "16 word"
type_synonym uint64 = "64 word"

text \<open>
  An error value: a \<open>ConnackCode\<close> used as an error, the result of \<open>fmt.Errorf\<close> with its format
  string and arguments, or one of the package-level \<open>errors.New\<close> values.
\<close>

datatype fmtarg = FInt int | FBytes bytes | FStr string | FBool bool

datatype error =
    ConnackErr uint64
  | Errorf string "fmtarg list"
  | ErrNew string

abbreviation io_EOF :: error where "io_EOF \<equiv> ErrNew ''EOF''"

named_theorems slice_simps \<open>evaluation of slice operations whose bounds are known\<close>
named_theorems go_defs \<open>definitions of the operations of a component\<close>

section \<open>Slices\<close>

text \<open>
  A byte slice is a window on a backing array: its length and the bytes of the array from the
  slice's first element up to its capacity.  Re-slicing with an upper bound is checked against the
  capacity and not against the length, so a slice expression can show bytes beyond the length of
  the slice it was taken from.
\<close>

record gslice =
  sl_len :: nat
  sl_arr :: bytes

definition wf_slice :: "gslice \<Rightarrow> bool" where
  "wf_slice s \<longleftrightarrow> sl_len s \<le> length (sl_arr s)"

definition slice_of :: "bytes \<Rightarrow> gslice" where
  "slice_of bs = \<lparr>sl_len = length bs, sl_arr = bs\<rparr>"

definition slice_bytes :: "gslice \<Rightarrow> bytes" where
  "slice_bytes s = take (sl_len s) (sl_arr s)"

definition make_bytes :: "int \<Rightarrow> gslice" where
  "make_bytes n = slice_of (replicate (nat n) 0)"

definition go_len :: "gslice \<Rightarrow> int" where
  "go_len s = int (sl_len s)"

definition go_cap :: "gslice \<Rightarrow> int" where
  "go_cap s = int (length (sl_arr s))"

text \<open>\<open>s[a:]\<close>, \<open>s[a:b]\<close>, \<open>s[i]\<close>, \<open>s[i] = b\<close> and \<open>copy(s, bs)\<close>.\<close>

definition slice_from :: "gslice \<Rightarrow> int \<Rightarrow> gslice option" where
  "slice_from s a =
     (if 0 \<le> a \<and> a \<le> go_len s
      then Some \<lparr>sl_len = sl_len s - nat a, sl_arr = drop (nat a) (sl_arr s)\<rparr> else None)"

definition slice_range :: "gslice \<Rightarrow> int \<Rightarrow> int \<Rightarrow> gslice option" where
  "slice_range s a b =
     (if 0 \<le> a \<and> a \<le> b \<and> b \<le> go_cap s
      then Some \<lparr>sl_len = nat (b - a), sl_arr = drop (nat a) (sl_arr s)\<rparr> else None)"

definition slice_get :: "gslice \<Rightarrow> int \<Rightarrow> byte option" where
  "slice_get s i = (if 0 \<le> i \<and> i < go_len s then Some (sl_arr s ! nat i) else None)"

definition slice_set :: "gslice \<Rightarrow> int \<Rightarrow> byte \<Rightarrow> gslice option" where
  "slice_set s i b =
     (if 0 \<le> i \<and> i < go_len s then Some (s\<lparr>sl_arr := (sl_arr s)[nat i := b]\<rparr>) else None)"

definition slice_copy :: "gslice \<Rightarrow> bytes \<Rightarrow> gslice \<times> int" where
  "slice_copy s bs =
     (let n = min (sl_len s) (length bs)
      in (s\<lparr>sl_arr := take n bs @ drop n (sl_arr s)\<rparr>, int n))"

text \<open>
  A callee that gets \<open>s[a:]\<close> and writes to it writes to the array of \<open>s\<close>: \<open>slice_join s a t\<close> is
  \<open>s\<close> after the sub-slice at \<open>a\<close> has become \<open>t\<close>.
\<close>

definition slice_join :: "gslice \<Rightarrow> int \<Rightarrow> gslice \<Rightarrow> gslice" where
  "slice_join s a t = s\<lparr>sl_arr := take (nat a) (sl_arr s) @ sl_arr t\<rparr>"

lemma slice_of_simps [simp]:
  "sl_len (slice_of bs) = length bs" "sl_arr (slice_of bs) = bs"
  by (simp_all add: slice_of_def)

lemma wf_slice_of [simp, intro]: "wf_slice (slice_of bs)"
  by (simp add: wf_slice_def)

lemma slice_bytes_of [simp]: "slice_bytes (slice_of bs) = bs"
  by (simp add: slice_bytes_def)

lemma go_len_of [simp]: "go_len (slice_of bs) = int (length bs)"
  by (simp add: go_len_def)

lemma go_len_nonneg [simp]: "0 \<le> go_len s"
  by (simp add: go_len_def)

lemma length_slice_bytes: "wf_slice s \<Longrightarrow> length (slice_bytes s) = sl_len s"
  by (simp add: wf_slice_def slice_bytes_def)

lemma make_bytes_len [simp]: "0 \<le> n \<Longrightarrow> go_len (make_bytes n) = n"
  by (simp add: make_bytes_def go_len_def)

lemma wf_make_bytes [simp]: "wf_slice (make_bytes n)"
  by (simp add: make_bytes_def)

lemma slice_from_0 [simp]: "slice_from s 0 = Some s"
  by (simp add: slice_from_def)

lemma slice_join_0 [simp]: "sl_len t = sl_len s \<Longrightarrow> slice_join s 0 t = t"
  by (simp add: slice_join_def)

lemma slice_copy_len [simp]: "sl_len (fst (slice_copy s bs)) = sl_len s"
  by (simp add: slice_copy_def Let_def)

lemma nat_int_plus [simp]:
  "nat (int n + 1) = Suc n" "nat (1 + int n) = Suc n"
  "nat (int n + numeral k) = n + numeral k" "nat (numeral k + int n) = numeral k + n"
  "nat (int n + int m) = n + m"
  by (simp_all add: nat_add_distrib)

lemma drop_two:
  assumes "k + 2 \<le> length xs"
  obtains x y where "drop k xs = x # y # drop (k + 2) xs"
proof -
  have "drop k xs = xs ! k # xs ! Suc k # drop (Suc (Suc k)) xs"
    using assms by (simp add: Cons_nth_drop_Suc)
  with that show ?thesis by simp
qed

text \<open>\<open>fill s bs\<close> is \<open>s\<close> after \<open>bs\<close> has been written at its start.\<close>

abbreviation fill :: "gslice \<Rightarrow> bytes \<Rightarrow> gslice" where
  "fill s bs \<equiv> s\<lparr>sl_arr := bs @ drop (length bs) (sl_arr s)\<rparr>"

section \<open>Cutting a known prefix\<close>

text \<open>
  The decoders walk over \<open>pre @ rest\<close> with \<open>total = length pre\<close>; the encoders fill a buffer from the
  left.  These lemmas compute one step of such a walk.
\<close>

lemma slice_from_app [slice_simps]:
  "a = int (length pre) \<Longrightarrow>
   slice_from \<lparr>sl_len = length pre + n, sl_arr = pre @ rest\<rparr> a = Some \<lparr>sl_len = n, sl_arr = rest\<rparr>"
  by (simp add: slice_from_def go_len_def)

lemma slice_from_pre [slice_simps]:
  "length pre \<le> n \<Longrightarrow> a = int (length pre) \<Longrightarrow>
   slice_from \<lparr>sl_len = n, sl_arr = pre @ rest\<rparr> a = Some \<lparr>sl_len = n - length pre, sl_arr = rest\<rparr>"
  by (simp add: slice_from_def go_len_def)

lemma slice_join_pre [slice_simps]:
  "a = int (length pre) \<Longrightarrow>
   slice_join \<lparr>sl_len = n, sl_arr = pre @ rest\<rparr> a \<lparr>sl_len = m, sl_arr = rest'\<rparr>
     = \<lparr>sl_len = n, sl_arr = pre @ rest'\<rparr>"
  by (simp add: slice_join_def)

lemma slice_get_pre [slice_simps]:
  "length pre < n \<Longrightarrow> a = int (length pre) \<Longrightarrow>
   slice_get \<lparr>sl_len = n, sl_arr = pre @ b # rest\<rparr> a = Some b"
  by (simp add: slice_get_def go_len_def)

lemma slice_set_pre [slice_simps]:
  "length pre < n \<Longrightarrow> a = int (length pre) \<Longrightarrow>
   slice_set \<lparr>sl_len = n, sl_arr = pre @ b # rest\<rparr> a c
     = Some \<lparr>sl_len = n, sl_arr = pre @ c # rest\<rparr>"
  by (simp add: slice_set_def go_len_def)

lemma slice_get_app [slice_simps]:
  "a = int (length pre) \<Longrightarrow> 0 < n \<Longrightarrow>
   slice_get \<lparr>sl_len = length pre + n, sl_arr = pre @ b # rest\<rparr> a = Some b"
  by (simp add: slice_get_def go_len_def)

lemma slice_range_app [slice_simps]:
  "a = int (length pre) \<Longrightarrow> b = a + int (length mid) \<Longrightarrow>
   slice_range \<lparr>sl_len = n, sl_arr = pre @ mid @ rest\<rparr> a b = Some \<lparr>sl_len = length mid, sl_arr = mid @ rest\<rparr>"
  by (simp add: slice_range_def go_cap_def)

lemma slice_copy_fit [slice_simps]:
  "length bs \<le> sl_len s \<Longrightarrow>
   slice_copy s bs = (s\<lparr>sl_arr := bs @ drop (length bs) (sl_arr s)\<rparr>, int (length bs))"
  by (simp add: slice_copy_def min_def Let_def)

section \<open>Big-endian and conversions\<close>

text \<open>\<open>binary.BigEndian.Uint16\<close> and \<open>PutUint16\<close>, which panic on fewer than two bytes.\<close>

definition be_bytes :: "uint16 \<Rightarrow> bytes" where
  "be_bytes v = [ucast (drop_bit 8 v), ucast v]"

definition be_word :: "byte \<Rightarrow> byte \<Rightarrow> uint16" where
  "be_word b0 b1 = ucast b1 OR push_bit 8 (ucast b0)"

definition BigEndian_Uint16 :: "gslice \<Rightarrow> uint16 option" where
  "BigEndian_Uint16 b =
     do { b1 \<leftarrow> slice_get b 1; b0 \<leftarrow> slice_get b 0; Some (be_word b0 b1) }"

definition BigEndian_PutUint16 :: "gslice \<Rightarrow> uint16 \<Rightarrow> gslice option" where
  "BigEndian_PutUint16 b v =
     do { _ \<leftarrow> slice_get b 1;
          b \<leftarrow> slice_set b 0 (ucast (drop_bit 8 v));
          slice_set b 1 (ucast v) }"

text \<open>The conversion \<open>int32(x)\<close> of a Go integer keeps the low 32 bits as a signed number.\<close>

definition int32 :: "int \<Rightarrow> int" where
  "int32 x = signed_take_bit 31 x"

lemma length_be_bytes [simp]: "length (be_bytes v) = 2"
  by (simp add: be_bytes_def)

lemma be_word_bytes [simp]: "be_word (ucast (drop_bit 8 v)) (ucast v) = v"
  unfolding be_word_def
  by (rule bit_word_eqI) (auto simp: bit_simps)

lemma bit_byte_beyond [simp]: "\<not> bit (b :: byte) (8 + n)"
  using bit_imp_le_length [of b "8 + n"] by auto

lemma be_bytes_word [simp]: "be_bytes (be_word b0 b1) = [b0, b1]"
  unfolding be_bytes_def be_word_def
  by (auto intro!: bit_word_eqI simp: bit_simps)

lemma be_word_eq_0_iff: "be_word b0 b1 = 0 \<longleftrightarrow> b0 = 0 \<and> b1 = 0"
proof
  assume "be_word b0 b1 = 0"
  then have "be_bytes (be_word b0 b1) = be_bytes 0" by (rule arg_cong)
  then show "b0 = 0 \<and> b1 = 0" unfolding be_bytes_word by (simp add: be_bytes_def)
qed (simp add: be_word_def)

lemma BigEndian_Uint16_app [simp]:
  "2 \<le> n \<Longrightarrow> BigEndian_Uint16 \<lparr>sl_len = n, sl_arr = be_bytes v @ rest\<rparr> = Some v"
  by (simp add: BigEndian_Uint16_def slice_get_def go_len_def be_bytes_def)

lemma BigEndian_PutUint16_fit:
  assumes "2 \<le> sl_len b" and "wf_slice b"
  shows "BigEndian_PutUint16 b v = Some (b\<lparr>sl_arr := be_bytes v @ drop 2 (sl_arr b)\<rparr>)"
proof -
  from assms obtain x y r where "sl_arr b = x # y # r"
    by (cases "sl_arr b"; cases "tl (sl_arr b)") (auto simp: wf_slice_def)
  with assms(1) show ?thesis
    by (simp add: BigEndian_PutUint16_def slice_get_def slice_set_def go_len_def be_bytes_def)
qed

lemma int32_id [simp]: "0 \<le> x \<Longrightarrow> x < 2 ^ 31 \<Longrightarrow> int32 x = x"
  by (simp add: int32_def signed_take_bit_int_eq_self)

end
