(* ===== verification/Go_Varint.thy ===== *)
theory Go_Varint
  imports Go_Prelude
begin

text \<open>
  The variable-length integers of \<open>encoding/binary\<close> (\<open>PutUvarint\<close>, \<open>Uvarint\<close>), which carry the
  remaining length of every MQTT packet, with their round trip and their length.
\<close>

section \<open>Encoding\<close>

lemma unat_drop_bit_7: "unat (drop_bit 7 (x :: uint64)) = unat x div 128"
  unfolding unat_drop_bit_eq by (simp add: drop_bit_eq_div)

lemma unat_drop_bit_7_less: "128 \<le> (x :: uint64) \<Longrightarrow> unat (drop_bit 7 x) < unat x"
  by (simp only: unat_drop_bit_7) (simp add: word_le_nat_alt)

function put_uvarint_loop :: "gslice \<Rightarrow> int \<Rightarrow> uint64 \<Rightarrow> (gslice \<times> int) option" where
  "put_uvarint_loop buf i x =
     (if 128 \<le> x then
        do { buf \<leftarrow> slice_set buf i (ucast x OR 128);
             put_uvarint_loop buf (i + 1) (drop_bit 7 x) }
      else
        do { buf \<leftarrow> slice_set buf i (ucast x); Some (buf, i + 1) })"
  by pat_completeness auto
termination
  by (relation "measure (\<lambda>(_, _, x). unat x)") (auto simp: unat_drop_bit_7_less)

declare put_uvarint_loop.simps [simp del]

definition PutUvarint :: "gslice \<Rightarrow> uint64 \<Rightarrow> (gslice \<times> int) option" where
  "PutUvarint buf x = put_uvarint_loop buf 0 x"

section \<open>Decoding\<close>

text \<open>
  The loop of \<open>Uvarint\<close> over the bytes of the slice: \<open>i\<close> counts them, \<open>x\<close> is the value read so far,
  \<open>s\<close> the next shift.  A run of ten continuation bytes, or a tenth byte above 1, overflows 64 bits
  and gives a negative count; a slice that ends too early gives the count 0.
\<close>

fun uvarint_loop :: "bytes \<Rightarrow> int \<Rightarrow> uint64 \<Rightarrow> nat \<Rightarrow> uint64 \<times> int" where
  "uvarint_loop [] i x s = (0, 0)"
| "uvarint_loop (b # bs) i x s =
     (if i = 10 then (0, - (i + 1))
      else if b < 128 then
        (if i = 9 \<and> 1 < b then (0, - (i + 1)) else (x OR push_bit s (ucast b), i + 1))
      else uvarint_loop bs (i + 1) (x OR push_bit s (ucast (b AND 127))) (s + 7))"

definition Uvarint :: "gslice \<Rightarrow> uint64 \<times> int" where
  "Uvarint buf = uvarint_loop (slice_bytes buf) 0 0 0"

section \<open>The bytes of a varint\<close>

function uvarint_bytes :: "uint64 \<Rightarrow> bytes" where
  "uvarint_bytes x =
     (if 128 \<le> x then (ucast x OR 128) # uvarint_bytes (drop_bit 7 x) else [ucast x])"
  by pat_completeness auto
termination
  by (relation "measure unat") (auto simp: unat_drop_bit_7_less)

declare uvarint_bytes.simps [simp del]

lemma uvarint_bytes_nonempty [simp]: "uvarint_bytes x \<noteq> []"
  by (subst uvarint_bytes.simps) simp

lemma put_uvarint_loop_fits:
  "length (uvarint_bytes x) + i \<le> sl_len buf \<Longrightarrow> wf_slice buf \<Longrightarrow>
   put_uvarint_loop buf (int i) x =
     Some (buf\<lparr>sl_arr := take i (sl_arr buf) @ uvarint_bytes x
                           @ drop (i + length (uvarint_bytes x)) (sl_arr buf)\<rparr>,
           int i + int (length (uvarint_bytes x)))"
proof (induction x arbitrary: buf i rule: uvarint_bytes.induct)
  case (1 x)
  have len: "i < length (sl_arr buf)"
    using "1.prems" by (cases "uvarint_bytes x") (auto simp: wf_slice_def)
  then have i: "i < sl_len buf"
    using "1.prems" by (cases "uvarint_bytes x") auto
  show ?case
  proof (cases "128 \<le> x")
    case True
    let ?buf = "buf\<lparr>sl_arr := (sl_arr buf)[i := ucast x OR 128]\<rparr>"
    have "put_uvarint_loop ?buf (int (Suc i)) (drop_bit 7 x) =
      Some (?buf\<lparr>sl_arr := take (Suc i) (sl_arr ?buf) @ uvarint_bytes (drop_bit 7 x)
              @ drop (Suc i + length (uvarint_bytes (drop_bit 7 x))) (sl_arr ?buf)\<rparr>,
            int (Suc i) + int (length (uvarint_bytes (drop_bit 7 x))))"
      using "1.prems" True uvarint_bytes.simps [of x]
      by (intro "1.IH") (auto simp: wf_slice_def)
    with True i len show ?thesis
      by (simp add: put_uvarint_loop.simps [of buf] uvarint_bytes.simps [of x] slice_set_def
          go_len_def upd_conv_take_nth_drop take_Suc_conv_app_nth add.commute)
  next
    case False
    with i len show ?thesis
      by (simp add: put_uvarint_loop.simps [of buf] uvarint_bytes.simps [of x] slice_set_def
          go_len_def upd_conv_take_nth_drop)
  qed
qed

lemma PutUvarint_fits:
  "length (uvarint_bytes x) \<le> sl_len buf \<Longrightarrow> wf_slice buf \<Longrightarrow>
   PutUvarint buf x =
     Some (buf\<lparr>sl_arr := uvarint_bytes x @ drop (length (uvarint_bytes x)) (sl_arr buf)\<rparr>,
           int (length (uvarint_bytes x)))"
  using put_uvarint_loop_fits [of x 0 buf] by (simp add: PutUvarint_def)

text \<open>One byte per started group of seven bits.\<close>

lemma length_uvarint_bytes_step:
  "length (uvarint_bytes x) =
     (if unat x < 128 then 1 else Suc (length (uvarint_bytes (drop_bit 7 x))))"
  by (subst uvarint_bytes.simps) (simp add: word_le_nat_alt)

lemma unat_drop_bit_div: "unat (drop_bit n (x :: uint64)) = unat x div 2 ^ n"
  unfolding unat_drop_bit_eq by (simp add: drop_bit_eq_div)

lemma length_uvarint_bytes:
  "unat x \<le> 268435455 \<Longrightarrow>
   length (uvarint_bytes x) =
     (if unat x \<le> 127 then 1 else if unat x \<le> 16383 then 2 else if unat x \<le> 2097151 then 3 else 4)"
  by (simp add: length_uvarint_bytes_step [of x] length_uvarint_bytes_step [of "drop_bit 7 x"]
      length_uvarint_bytes_step [of "drop_bit 14 x"] length_uvarint_bytes_step [of "drop_bit 21 x"]
      unat_drop_bit_div div_less_iff_less_mult)

section \<open>Round trip\<close>

lemma bit_127 [simp]: "bit (127 :: int) n \<longleftrightarrow> n < 7"
proof -
  have "(127 :: int) = mask 7" by (simp add: mask_eq_exp_minus_1)
  then show ?thesis by (simp only: bit_mask_iff) auto
qed

lemma bit_128 [simp]: "bit (128 :: int) n \<longleftrightarrow> n = 7"
  using bit_exp_iff [of 7 n, where ?'a = int] by auto

lemma low_seven_bits: "(ucast (x :: uint64) OR 128 :: byte) AND 127 = ucast x AND 127"
  by (rule bit_word_eqI) (auto simp: bit_simps)

lemma shift_group:
  "push_bit s (ucast (ucast x AND (127 :: byte))) OR push_bit (s + 7) (drop_bit 7 x)
     = push_bit s (x :: uint64)"
proof (rule bit_word_eqI)
  fix n
  have "7 + (n - (s + 7)) = n - s" if "s + 7 \<le> n"
    using that by simp
  then show "bit (push_bit s (ucast (ucast x AND (127 :: byte))) OR push_bit (s + 7) (drop_bit 7 x)) n
        = bit (push_bit s x) n" if "n < LENGTH(64)"
    using that by (cases "s + 7 \<le> n") (auto simp: bit_simps)
qed

lemma continuation_byte: "\<not> (ucast (x :: uint64) OR 128 :: byte) < 128"
  using le_word_or2 [of 128 "ucast x :: byte"] by (simp add: or.commute)

lemma unat_ucast_byte: "unat (ucast (b :: byte) :: uint64) = unat b"
proof -
  have "unat b < 2 ^ 8" using unsigned_less [of b, where ?'a = nat] by simp
  then show ?thesis by (simp add: unsigned_ucast_eq take_bit_nat_eq_self)
qed

lemma final_byte: "unat (x :: uint64) < 128 \<Longrightarrow> unat (ucast x :: byte) = unat x"
  by (simp add: unsigned_ucast_eq take_bit_nat_eq_self)

lemma uvarint_loop_bytes:
  "unat v * 2 ^ (7 * i) < 2 ^ 64 \<Longrightarrow> i \<le> 9 \<Longrightarrow>
   uvarint_loop (uvarint_bytes v @ rest) (int i) x (7 * i) =
     (x OR push_bit (7 * i) v, int i + int (length (uvarint_bytes v)))"
proof (induction v arbitrary: i x rule: uvarint_bytes.induct)
  case (1 v)
  show ?case
  proof (cases "128 \<le> v")
    case True
    then have v: "128 \<le> unat v" by (simp add: word_le_nat_alt)
    then have "2 ^ (7 + 7 * i) \<le> unat v * 2 ^ (7 * i)"
      by (simp add: power_add)
    with "1.prems"(1) have "(2::nat) ^ (7 + 7 * i) < 2 ^ 64" by linarith
    then have "7 + 7 * i < 64" by (rule power_less_imp_less_exp [rotated]) simp
    then have i: "Suc i \<le> 9" by simp
    have "unat (drop_bit 7 v) * 2 ^ (7 * Suc i) = (unat v div 128 * 128) * 2 ^ (7 * i)"
      by (simp add: unat_drop_bit_7 power_add)
    also have "\<dots> \<le> unat v * 2 ^ (7 * i)"
      by (intro mult_right_mono) simp_all
    finally have b: "unat (drop_bit 7 v) * 2 ^ (7 * Suc i) < 2 ^ 64"
      using "1.prems"(1) by linarith
    have "uvarint_loop (uvarint_bytes v @ rest) (int i) x (7 * i) =
          uvarint_loop (uvarint_bytes (drop_bit 7 v) @ rest) (int (Suc i))
            (x OR push_bit (7 * i) (ucast (ucast v AND (127 :: byte)))) (7 * Suc i)"
      using True i
      by (simp add: uvarint_bytes.simps [of v] continuation_byte low_seven_bits algebra_simps)
    also have "\<dots> = ((x OR push_bit (7 * i) (ucast (ucast v AND (127 :: byte))))
                      OR push_bit (7 * Suc i) (drop_bit 7 v),
                    int (Suc i) + int (length (uvarint_bytes (drop_bit 7 v))))"
      by (rule "1.IH" [OF True b i])
    also have "\<dots> = (x OR push_bit (7 * i) v, int i + int (length (uvarint_bytes v)))"
      using shift_group [of "7 * i" v] True
      by (simp add: or.assoc uvarint_bytes.simps [of v] add.commute [of 7])
    finally show ?thesis .
  next
    case False
    then have v: "unat v < 128" by (simp add: word_le_nat_alt)
    have b: "(ucast v :: byte) < 128"
      using v by (simp add: word_less_nat_alt final_byte)
    have "\<not> 1 < (ucast v :: byte)" if "i = 9"
      using "1.prems"(1) that v by (simp add: word_less_nat_alt final_byte)
    moreover have "unat (ucast (ucast v :: byte) :: uint64) = unat v"
      using v by (simp only: unat_ucast_byte final_byte)
    then have "ucast (ucast v :: byte) = v" by (rule unsigned_word_eqI)
    ultimately show ?thesis
      using False b "1.prems"(2) by (simp add: uvarint_bytes.simps [of v])
  qed
qed

theorem Uvarint_PutUvarint:
  assumes "slice_bytes buf = uvarint_bytes v @ rest"
  shows "Uvarint buf = (v, int (length (uvarint_bytes v)))"
  using uvarint_loop_bytes [of v 0 rest 0] unsigned_less [of v, where ?'a = nat] assms
  by (simp add: Uvarint_def)

end
