(* ===== verification/Message_Basics.thy ===== *)
theory Message_Basics
  imports Go_Varint
begin

text \<open>
  \<open>src/utils/surgemq/message/message.go\<close> and \<open>connackcode.go\<close>: the packet types with their names,
  descriptions and default flags, the validity checks, the CONNACK return codes, and the
  length-prefixed byte strings every payload is made of.
\<close>

section \<open>Constants\<close>

abbreviation (input) maxLPString :: int where "maxLPString \<equiv> 65535"
abbreviation (input) maxRemainingLength :: int where "maxRemainingLength \<equiv> 268435455"

abbreviation (input) QosAtMostOnce :: byte where "QosAtMostOnce \<equiv> 0"
abbreviation (input) QosAtLeastOnce :: byte where "QosAtLeastOnce \<equiv> 1"
abbreviation (input) QosExactlyOnce :: byte where "QosExactlyOnce \<equiv> 2"
abbreviation (input) QosFailure :: byte where "QosFailure \<equiv> 0x80"

text \<open>\<open>SupportedVersions\<close>: "MQIsdp" for level 3 and "MQTT" for level 4, as bytes.\<close>

definition SupportedVersions :: "byte \<Rightarrow> bytes option" where
  "SupportedVersions v =
     (if v = 3 then Some [0x4D, 0x51, 0x49, 0x73, 0x64, 0x70]
      else if v = 4 then Some [0x4D, 0x51, 0x54, 0x54] else None)"

text \<open>\<open>type MessageType byte\<close>, with the constants of the source.\<close>

type_synonym MessageType = byte

abbreviation (input) RESERVED :: MessageType where "RESERVED \<equiv> 0"
abbreviation (input) CONNECT :: MessageType where "CONNECT \<equiv> 1"
abbreviation (input) CONNACK :: MessageType where "CONNACK \<equiv> 2"
abbreviation (input) PUBLISH :: MessageType where "PUBLISH \<equiv> 3"
abbreviation (input) PUBACK :: MessageType where "PUBACK \<equiv> 4"
abbreviation (input) PUBREC :: MessageType where "PUBREC \<equiv> 5"
abbreviation (input) PUBREL :: MessageType where "PUBREL \<equiv> 6"
abbreviation (input) PUBCOMP :: MessageType where "PUBCOMP \<equiv> 7"
abbreviation (input) SUBSCRIBE :: MessageType where "SUBSCRIBE \<equiv> 8"
abbreviation (input) SUBACK :: MessageType where "SUBACK \<equiv> 9"
abbreviation (input) UNSUBSCRIBE :: MessageType where "UNSUBSCRIBE \<equiv> 10"
abbreviation (input) UNSUBACK :: MessageType where "UNSUBACK \<equiv> 11"
abbreviation (input) PINGREQ :: MessageType where "PINGREQ \<equiv> 12"
abbreviation (input) PINGRESP :: MessageType where "PINGRESP \<equiv> 13"
abbreviation (input) DISCONNECT :: MessageType where "DISCONNECT \<equiv> 14"
abbreviation (input) RESERVED2 :: MessageType where "RESERVED2 \<equiv> 15"

definition MessageType_Name :: "MessageType \<Rightarrow> string" where
  "MessageType_Name this =
     (if this = RESERVED then ''RESERVED''
      else if this = CONNECT then ''CONNECT''
      else if this = CONNACK then ''CONNACK''
      else if this = PUBLISH then ''PUBLISH''
      else if this = PUBACK then ''PUBACK''
      else if this = PUBREC then ''PUBREC''
      else if this = PUBREL then ''PUBREL''
      else if this = PUBCOMP then ''PUBCOMP''
      else if this = SUBSCRIBE then ''SUBSCRIBE''
      else if this = SUBACK then ''SUBACK''
      else if this = UNSUBSCRIBE then ''UNSUBSCRIBE''
      else if this = UNSUBACK then ''UNSUBACK''
      else if this = PINGREQ then ''PINGREQ''
      else if this = PINGRESP then ''PINGRESP''
      else if this = DISCONNECT then ''DISCONNECT''
      else if this = RESERVED2 then ''RESERVED2''
      else ''UNKNOWN'')"

definition MessageType_Desc :: "MessageType \<Rightarrow> string" where
  "MessageType_Desc this =
     (if this = RESERVED then ''Reserved''
      else if this = CONNECT then ''Client request to connect to Server''
      else if this = CONNACK then ''Connect acknowledgement''
      else if this = PUBLISH then ''Publish message''
      else if this = PUBACK then ''Publish acknowledgement''
      else if this = PUBREC then ''Publish received (assured delivery part 1)''
      else if this = PUBREL then ''Publish release (assured delivery part 2)''
      else if this = PUBCOMP then ''Publish complete (assured delivery part 3)''
      else if this = SUBSCRIBE then ''Client subscribe request''
      else if this = SUBACK then ''Subscribe acknowledgement''
      else if this = UNSUBSCRIBE then ''Unsubscribe request''
      else if this = UNSUBACK then ''Unsubscribe acknowledgement''
      else if this = PINGREQ then ''PING request''
      else if this = PINGRESP then ''PING response''
      else if this = DISCONNECT then ''Client is disconnecting''
      else if this = RESERVED2 then ''Reserved''
      else ''UNKNOWN'')"

definition DefaultFlags :: "MessageType \<Rightarrow> byte" where
  "DefaultFlags this =
     (if this = PUBREL then 2 else if this = SUBSCRIBE then 2
      else if this = UNSUBSCRIBE then 2 else 0)"

definition MessageType_Valid :: "MessageType \<Rightarrow> bool" where
  "MessageType_Valid this \<longleftrightarrow> RESERVED < this \<and> this < RESERVED2"

section \<open>Checks\<close>

text \<open>Topic characters: \<open>#\<close> is 0x23, \<open>+\<close> is 0x2B.\<close>

definition ValidTopic :: "bytes \<Rightarrow> bool" where
  "ValidTopic topic \<longleftrightarrow> 0 < length topic \<and> 0x23 \<notin> set topic \<and> 0x2B \<notin> set topic"

definition ValidQos :: "byte \<Rightarrow> bool" where
  "ValidQos qos \<longleftrightarrow> qos = QosAtMostOnce \<or> qos = QosAtLeastOnce \<or> qos = QosExactlyOnce"

definition ValidVersion :: "byte \<Rightarrow> bool" where
  "ValidVersion v \<longleftrightarrow> SupportedVersions v \<noteq> None"

section \<open>CONNACK return codes\<close>

type_synonym ConnackCode = uint64

abbreviation (input) ConnectionAccepted :: ConnackCode where "ConnectionAccepted \<equiv> 0"
abbreviation (input) ErrInvalidProtocolVersion :: ConnackCode where "ErrInvalidProtocolVersion \<equiv> 1"
abbreviation (input) ErrIdentifierRejected :: ConnackCode where "ErrIdentifierRejected \<equiv> 2"
abbreviation (input) ErrServerUnavailable :: ConnackCode where "ErrServerUnavailable \<equiv> 3"
abbreviation (input) ErrBadClientIdOrUsernameOrPassword :: ConnackCode where
  "ErrBadClientIdOrUsernameOrPassword \<equiv> 4"
abbreviation (input) ErrAuthServerLoginFailed :: ConnackCode where "ErrAuthServerLoginFailed \<equiv> 5"
abbreviation (input) ErrAuthServerLogoutFailed :: ConnackCode where "ErrAuthServerLogoutFailed \<equiv> 6"
abbreviation (input) ParamExistTobeEmpty :: ConnackCode where "ParamExistTobeEmpty \<equiv> 7"
abbreviation (input) ParamTimestampErr :: ConnackCode where "ParamTimestampErr \<equiv> 8"
abbreviation (input) ProductDeviceNotActive :: ConnackCode where "ProductDeviceNotActive \<equiv> 9"
abbreviation (input) ProductOrDeviceNotExist :: ConnackCode where "ProductOrDeviceNotExist \<equiv> 10"
abbreviation (input) SignatureMismatch :: ConnackCode where "SignatureMismatch \<equiv> 11"

definition ConnackCode_Value :: "ConnackCode \<Rightarrow> byte" where
  "ConnackCode_Value this = ucast this"

definition ConnackCode_Desc :: "ConnackCode \<Rightarrow> string" where
  "ConnackCode_Desc this =
     (if this = 0 then ''Connection accepted''
      else if this = 1 then
        ''The Server does not support the level of the MQTT protocol requested by the Client''
      else if this = 2 then ''The Client identifier is correct UTF-8 but not allowed by the server''
      else if this = 3 then
        ''The Network Connection has been made but the MQTT service is unavailable''
      else if this = 4 then ''The data in the user name or password is malformed''
      else if this = 5 then ''The Client auth failed''
      else if this = 6 then ''The Client login failed''
      else if this = 7 then ''The Client logout failed''
      else '''')"

definition ConnackCode_Valid :: "ConnackCode \<Rightarrow> bool" where
  "ConnackCode_Valid this \<longleftrightarrow> this \<le> 7"

definition ConnackCode_Error :: "ConnackCode \<Rightarrow> string" where
  "ConnackCode_Error this =
     (if this = 0 then ''Connection accepted''
      else if this = 1 then ''Connection Refused, unacceptable protocol version''
      else if this = 2 then ''Connection Refused, identifier rejected''
      else if this = 3 then ''Connection Refused, Server unavailable''
      else if this = 4 then ''Connection Refused, bad user name or password''
      else if this = 5 then ''Connection Refused, not authorized''
      else if this = 6 then ''Connection login failed''
      else if this = 7 then ''Connection logout failed''
      else ''Unknown error'')"

text \<open>\<open>ValidConnackError\<close> compares an error with the codes that may be sent in a CONNACK.\<close>

definition ValidConnackError :: "error \<Rightarrow> bool" where
  "ValidConnackError err \<longleftrightarrow>
     err = ConnackErr ErrInvalidProtocolVersion \<or> err = ConnackErr ErrIdentifierRejected \<or>
     err = ConnackErr ErrServerUnavailable \<or> err = ConnackErr ErrBadClientIdOrUsernameOrPassword \<or>
     err = ConnackErr ErrAuthServerLoginFailed \<or> err = ConnackErr ErrAuthServerLogoutFailed"

section \<open>Length-prefixed bytes\<close>

text \<open>
  \<open>readLPBytes\<close> compares the announced length with the buffer's length without the two length bytes,
  then re-slices up to \<open>2 + n\<close>: on a buffer that is up to two bytes short the result reaches beyond
  the buffer's length, or panics when the capacity is exhausted too.
\<close>

definition readLPBytes :: "gslice \<Rightarrow> (bytes \<times> int \<times> error option) option" where
  "readLPBytes buf =
     (if go_len buf < 2 then
        Some ([], 0, Some (Errorf ''utils/readLPBytes: Insufficient buffer size. Expecting %d, got %d.''
                             [FInt 2, FInt (go_len buf)]))
      else do {
        w \<leftarrow> BigEndian_Uint16 buf;
        let n = uint w;
        let total = 2;
        if go_len buf < n then
          Some ([], total, Some (Errorf ''utils/readLPBytes: Insufficient buffer size. Expecting %d, got %d.''
                             [FInt n, FInt (go_len buf)]))
        else do {
          let total = total + n;
          r \<leftarrow> slice_range buf 2 total;
          Some (slice_bytes r, total, None)
        }
      })"

definition writeLPBytes :: "gslice \<Rightarrow> bytes \<Rightarrow> (gslice \<times> int \<times> error option) option" where
  "writeLPBytes buf b =
     (let n = int (length b) in
      if maxLPString < n then
        Some (buf, 0, Some (Errorf ''utils/writeLPBytes: Length (%d) greater than %d bytes.''
                              [FInt n, FInt maxLPString]))
      else if go_len buf < 2 + n then
        Some (buf, 0, Some (Errorf ''utils/writeLPBytes: Insufficient buffer size. Expecting %d, got %d.''
                              [FInt (2 + n), FInt (go_len buf)]))
      else do {
        buf \<leftarrow> BigEndian_PutUint16 buf (word_of_int n);
        t \<leftarrow> slice_from buf 2;
        let (t, _) = slice_copy t b;
        Some (slice_join buf 2 t, 2 + n, None)
      })"

section \<open>Facts\<close>

lemma MessageType_Valid_iff: "MessageType_Valid t \<longleftrightarrow> 1 \<le> unat t \<and> unat t \<le> 14"
  unfolding MessageType_Valid_def by unat_arith

lemma ValidQos_iff: "ValidQos q \<longleftrightarrow> unat q \<le> 2"
  unfolding ValidQos_def by unat_arith

text \<open>The encoding of a byte string that \<open>writeLPBytes\<close> produces and \<open>readLPBytes\<close> reads.\<close>

definition lp_bytes :: "bytes \<Rightarrow> bytes" where
  "lp_bytes b = be_bytes (of_nat (length b)) @ b"

lemma length_lp_bytes [simp]: "length (lp_bytes b) = 2 + length b"
  by (simp add: lp_bytes_def)

lemma uint_of_nat_16 [simp]: "n < 65536 \<Longrightarrow> uint (of_nat n :: uint16) = int n"
  by (simp add: uint_nat unat_of_nat)

lemma readLPBytes_lp:
  assumes "length b \<le> 65535" and "2 + length b \<le> n"
  shows "readLPBytes \<lparr>sl_len = n, sl_arr = lp_bytes b @ rest\<rparr> = Some (b, 2 + int (length b), None)"
proof -
  have "BigEndian_Uint16 \<lparr>sl_len = n, sl_arr = lp_bytes b @ rest\<rparr> = Some (of_nat (length b))"
    using assms(2) by (simp add: lp_bytes_def)
  moreover have "slice_range \<lparr>sl_len = n, sl_arr = lp_bytes b @ rest\<rparr> 2 (2 + int (length b))
                 = Some \<lparr>sl_len = length b, sl_arr = b @ rest\<rparr>"
    using slice_range_app [of 2 "be_bytes (of_nat (length b))" "2 + int (length b)" b n rest]
    by (simp add: lp_bytes_def)
  ultimately show ?thesis
    using assms by (simp add: readLPBytes_def go_len_def slice_bytes_def)
qed

lemma writeLPBytes_lp:
  assumes "length b \<le> 65535" and "2 + length b \<le> sl_len s" and "wf_slice s"
  shows "writeLPBytes s b =
           Some (s\<lparr>sl_arr := lp_bytes b @ drop (2 + length b) (sl_arr s)\<rparr>, 2 + int (length b), None)"
  using assms
  by (simp add: writeLPBytes_def Let_def go_len_def BigEndian_PutUint16_fit slice_from_def
      slice_copy_fit slice_join_def lp_bytes_def)

lemma writeLPBytes_len:
  "writeLPBytes s b = Some (s', n, e) \<Longrightarrow> sl_len s' = sl_len s"
  by (auto simp: writeLPBytes_def Let_def slice_join_def BigEndian_PutUint16_def slice_set_def
      split: if_splits prod.splits option.splits Option.bind_splits)

end
