(* ===== verification/Topic_Levels.thy ===== *)
theory Topic_Levels
  imports Message_Basics
begin

text \<open>
  \<open>nextTopicLevel\<close> and \<open>getGroupName\<close> of \<open>src/topics/memtopics.go\<close>, with the constants of
  \<open>src/topics/topics.go\<close>: how topic names and filters are cut into levels, and a reference definition
  by splitting at the separator.
\<close>

section \<open>Operations\<close>

type_synonym level = bytes

abbreviation (input) MWC :: level where "MWC \<equiv> [0x23]"
abbreviation (input) SWC :: level where "SWC \<equiv> [0x2B]"
abbreviation (input) SEP :: byte where "SEP \<equiv> 0x2F"
abbreviation (input) SYS :: byte where "SYS \<equiv> 0x24"

datatype tstate = StateCHR | StateMWC | StateSWC | StateSYS

text \<open>The errors of \<open>nextTopicLevel\<close>.\<close>

definition ErrMwcNotLast :: error where
  "ErrMwcNotLast = Errorf ''memtopics/nextTopicLevel: Multi-level wildcard found in topic and it's not at the last level'' []"

definition ErrMwcPart :: error where
  "ErrMwcPart = Errorf ''memtopics/nextTopicLevel: Wildcard character '#' must occupy entire topic level'' []"

definition ErrSwcPart :: error where
  "ErrSwcPart = Errorf ''memtopics/nextTopicLevel: Wildcard character '+' must occupy entire topic level'' []"

definition ErrSysTopic :: error where
  "ErrSysTopic = Errorf ''memtopics/nextTopicLevel: Cannot publish to $ topics'' []"

definition ErrWildPart :: error where
  "ErrWildPart = Errorf ''memtopics/nextTopicLevel: Wildcard characters '#' and '+' must occupy entire topic level'' []"

text \<open>The loop at index \<open>i\<close>, with the bytes from \<open>i\<close> on as third argument.\<close>

fun ntl_loop :: "bytes \<Rightarrow> nat \<Rightarrow> bytes \<Rightarrow> tstate \<Rightarrow> level \<times> bytes \<times> error option" where
  "ntl_loop topic i [] s = (topic, [], None)"
| "ntl_loop topic i (c # cs) s =
     (if c = SEP then
        (if s = StateMWC then
           ([], [], Some ErrMwcNotLast)
         else if i = 0 then (SWC, drop (i + 1) topic, None)
         else (take i topic, drop (i + 1) topic, None))
      else if c = 0x23 then
        (if i \<noteq> 0 then
           ([], [], Some ErrMwcPart)
         else ntl_loop topic (i + 1) cs StateMWC)
      else if c = 0x2B then
        (if i \<noteq> 0 then
           ([], [], Some ErrSwcPart)
         else ntl_loop topic (i + 1) cs StateSWC)
      else if c = SYS then
        (if i = 0 then
           ([], [], Some ErrSysTopic)
         else ntl_loop topic (i + 1) cs StateSYS)
      else
        (if s = StateMWC \<or> s = StateSWC then
           ([], [], Some ErrWildPart)
         else ntl_loop topic (i + 1) cs StateCHR))"

definition nextTopicLevel :: "bytes \<Rightarrow> level \<times> bytes \<times> error option" where
  "nextTopicLevel topic = ntl_loop topic 0 topic StateCHR"

text \<open>"$group/" as bytes.\<close>

definition GroupPrefix :: bytes where
  "GroupPrefix = [0x24, 0x67, 0x72, 0x6F, 0x75, 0x70, 0x2F]"

text \<open>\<open>strings.Index(s, "/")\<close>\<close>

fun index_sep :: "bytes \<Rightarrow> nat option" where
  "index_sep [] = None"
| "index_sep (c # cs) = (if c = SEP then Some 0 else map_option Suc (index_sep cs))"

definition getGroupName :: "bytes \<Rightarrow> bytes \<times> bytes" where
  "getGroupName topic =
     (if take (length GroupPrefix) topic \<noteq> GroupPrefix then ([], topic)
      else
        (let subTopic = drop (length GroupPrefix) topic
         in case index_sep subTopic of
              None \<Rightarrow> ([], topic)
            | Some idx \<Rightarrow> (take idx subTopic, drop idx subTopic)))"

section \<open>Levels\<close>

text \<open>The remaining topic gets shorter with every level.\<close>

lemma ntl_loop_shorter:
  "ntl_loop topic i cs s = (l, r, None) \<Longrightarrow> topic \<noteq> [] \<Longrightarrow> length r < length topic"
  by (induction topic i cs s rule: ntl_loop.induct) (auto split: if_splits)

lemma nextTopicLevel_shorter [dest]:
  "nextTopicLevel topic = (l, r, None) \<Longrightarrow> topic \<noteq> [] \<Longrightarrow> length r < length topic"
  unfolding nextTopicLevel_def by (rule ntl_loop_shorter)

text \<open>All levels of a topic, \<open>None\<close> when some level is refused.\<close>

function levels :: "bytes \<Rightarrow> level list option" where
  "levels topic =
     (if topic = [] then Some []
      else
        (case nextTopicLevel topic of
           (l, r, None) \<Rightarrow> map_option ((#) l) (levels r)
         | (l, r, Some e) \<Rightarrow> None))"
  by pat_completeness auto
termination
  by (relation "measure length") (auto dest: nextTopicLevel_shorter [OF sym])

declare levels.simps [simp del]

lemma levels_Nil [simp]: "levels [] = Some []"
  by (simp add: levels.simps)

lemma levels_step:
  assumes "topic \<noteq> []"
  shows "levels topic = Some (l # ls) \<longleftrightarrow> (\<exists>r. nextTopicLevel topic = (l, r, None) \<and> levels r = Some ls)"
    and "levels topic \<noteq> Some []"
  using assms by (auto simp: levels.simps [of topic] split: prod.splits option.splits)

section \<open>Splitting at the separator\<close>

lemma rest_shorter:
  assumes "t \<noteq> []"
  shows "length (tl (dropWhile P t)) < length t"
proof -
  have "0 < length t" using assms by simp
  with length_dropWhile_le [of P t] show ?thesis unfolding length_tl by linarith
qed

text \<open>The segments of a topic; a separator at the very end does not start another segment.\<close>

function segs :: "bytes \<Rightarrow> bytes list" where
  "segs t =
     (if t = [] then []
      else takeWhile (\<lambda>c. c \<noteq> SEP) t # segs (tl (dropWhile (\<lambda>c. c \<noteq> SEP) t)))"
  by pat_completeness auto
termination
  by (relation "measure length") (simp_all add: rest_shorter del: length_tl)

declare segs.simps [simp del]

definition no_wild :: "bytes \<Rightarrow> bool" where
  "no_wild s \<longleftrightarrow> 0x23 \<notin> set s \<and> 0x2B \<notin> set s"

text \<open>
  The segments that are accepted: empty ones; the wildcards on their own, \<open>#\<close> only at the end; ordinary
  ones, without wildcards and not starting with \<open>$\<close>; and, as the code has it, a wildcard that is
  followed by \<open>$\<close>.  \<open>sep\<close> says whether a separator follows.
\<close>

definition seg_ok :: "bool \<Rightarrow> bytes \<Rightarrow> bool" where
  "seg_ok sep s \<longleftrightarrow>
     (case s of
        [] \<Rightarrow> True
      | c # r \<Rightarrow>
          (if c = 0x23 \<or> c = 0x2B then
             (case r of [] \<Rightarrow> c = 0x23 \<longrightarrow> \<not> sep | d # r' \<Rightarrow> d = SYS \<and> no_wild r')
           else c \<noteq> SYS \<and> no_wild r))"

definition seg_level :: "bytes \<Rightarrow> level" where
  "seg_level s = (if s = [] then SWC else s)"

function segs_ok :: "bytes \<Rightarrow> bool" where
  "segs_ok t \<longleftrightarrow>
     (if t = [] then True
      else seg_ok (SEP \<in> set t) (takeWhile (\<lambda>c. c \<noteq> SEP) t) \<and> segs_ok (tl (dropWhile (\<lambda>c. c \<noteq> SEP) t)))"
  by pat_completeness auto
termination
  by (relation "measure length") (simp_all add: rest_shorter del: length_tl)

declare segs_ok.simps [simp del]

text \<open>Inside a level that has begun with an ordinary character.\<close>

lemma ntl_loop_inside:
  assumes "pre \<noteq> []" and "s = StateCHR \<or> s = StateSYS"
  shows "(case ntl_loop (pre @ cs) (length pre) cs s of
            (l, r, e) \<Rightarrow>
              if no_wild (takeWhile (\<lambda>c. c \<noteq> SEP) cs)
              then l = pre @ takeWhile (\<lambda>c. c \<noteq> SEP) cs \<and> r = tl (dropWhile (\<lambda>c. c \<noteq> SEP) cs) \<and> e = None
              else e \<noteq> None)"
  using assms
proof (induction cs arbitrary: pre s)
  case (Cons c cs)
  show ?case
  proof (cases "c = SEP \<or> c = 0x23 \<or> c = 0x2B")
    case True
    with Cons.prems show ?thesis by (auto simp: no_wild_def)
  next
    case False
    with Cons.prems Cons.IH [of "pre @ [c]" "if c = SYS then StateSYS else StateCHR"] show ?thesis
      by (auto simp: no_wild_def split: if_splits prod.splits)
  qed
qed (simp add: no_wild_def)

lemma nextTopicLevel_seg:
  assumes "t \<noteq> []"
  shows "(case nextTopicLevel t of
            (l, r, e) \<Rightarrow>
              if seg_ok (SEP \<in> set t) (takeWhile (\<lambda>c. c \<noteq> SEP) t)
              then l = seg_level (takeWhile (\<lambda>c. c \<noteq> SEP) t) \<and> r = tl (dropWhile (\<lambda>c. c \<noteq> SEP) t) \<and> e = None
              else e \<noteq> None)"
proof -
  obtain c cs where t: "t = c # cs" using assms by (cases t) auto
  show ?thesis
  proof (cases "c = 0x23 \<or> c = 0x2B")
    case True
    show ?thesis
    proof (cases cs)
      case (Cons d ds)
      with True t ntl_loop_inside [of "[c, d]" StateSYS ds] show ?thesis
        by (auto simp: nextTopicLevel_def seg_ok_def seg_level_def split: if_splits prod.splits)
    qed (use True t in \<open>auto simp: nextTopicLevel_def seg_ok_def seg_level_def\<close>)
  next
    case False
    with t ntl_loop_inside [of "[c]" StateCHR cs] show ?thesis
      by (auto simp: nextTopicLevel_def seg_ok_def seg_level_def no_wild_def split: prod.splits)
  qed
qed

text \<open>Cutting level by level is splitting at the separators.\<close>

lemma levels_segs: "levels t = (if segs_ok t then Some (map seg_level (segs t)) else None)"
proof (induction t rule: segs.induct)
  case (1 t)
  show ?case
  proof (cases "t = []")
    case False
    obtain l r e where n: "nextTopicLevel t = (l, r, e)" by (cases "nextTopicLevel t") auto
    show ?thesis
      using 1 [OF False] False nextTopicLevel_seg [OF False]
      by (subst levels.simps, subst segs.simps, subst segs_ok.simps)
         (auto simp: n split: if_splits option.splits)
  qed (simp add: segs.simps segs_ok.simps)
qed

section \<open>Properties\<close>

text \<open>
  C29: cutting a topic level by level with \<open>nextTopicLevel\<close>, the character state machine, is splitting it at the
  separators: the levels are the segments between separators, an empty one read as \<open>+\<close>, and a topic is
  refused exactly when one of its segments is not acceptable.
\<close>

theorem levels_are_segments: "levels t = (if segs_ok t then Some (map seg_level (segs t)) else None)"
  by (rule levels_segs)

end
