(* ===== verification/Go_Maps.thy ===== *)
theory Go_Maps
  imports Go_Prelude "HOL-Library.AList"
begin

text \<open>
  Go maps as association lists with distinct keys, in the order in which a loop visits them; an update is
  \<^const>\<open>AList.update\<close>, a deletion \<^const>\<open>AList.delete\<close>.  This theory holds the lemmas the components share.
\<close>

lemma set_update_snd: "x \<in> set (AList.update k v al) \<Longrightarrow> x = (k, v) \<or> x \<in> set al"
  by (induction al) (auto split: if_splits)

lemma alist_update_twice: "AList.update k v (AList.update k w al) = AList.update k v al"
  by (induction al) auto

lemma alist_update_same: "map_of al k = Some v \<Longrightarrow> distinct (map fst al) \<Longrightarrow> AList.update k v al = al"
  by (induction al) (auto split: if_splits)

lemma alist_delete_new: "map_of al k = None \<Longrightarrow> AList.delete k (AList.update k v al) = al"
  by (induction al) (auto simp: AList.delete_eq filter_id_conv split: if_splits)

lemma in_set_delete: "x \<in> set (AList.delete k al) \<Longrightarrow> x \<in> set al"
  by (simp add: AList.delete_eq)

end
