(* ===== verification/Level_Maps.thy ===== *)
theory Level_Maps
  imports Topic_Levels Go_Maps
begin

text \<open>
  The children of a tree node, a Go map from levels to nodes, as an association list with distinct keys:
  the lemmas that the two topic trees of \<open>src/topics/memtopics.go\<close> share.
\<close>

lemma size_child [termination_simp]: "kn \<in> set ns \<Longrightarrow> size (snd kn) < Suc (size_list (size_prod (\<lambda>x. 0) size) ns + k)"
  by (induction ns) auto

lemma filter_child_paths:
  "filter (\<lambda>e. P (fst e)) (concat (map (\<lambda>kn. map (apfst ((#) (fst kn))) (f (snd kn))) ns)) =
   concat (map (\<lambda>kn. map (apfst ((#) (fst kn))) (filter (\<lambda>e. P (fst kn # fst e)) (f (snd kn)))) ns)"
  by (induction ns) (auto simp: filter_map comp_def)

lemma child_paths_mem:
  "(k # p, e) \<in> set (concat (map (\<lambda>kn. map (apfst ((#) (fst kn))) (f (snd kn))) ns)) \<longleftrightarrow>
     (\<exists>n. (k, n) \<in> set ns \<and> (p, e) \<in> set (f n))"
proof (induction ns)
  case (Cons kn ns)
  have "(k # p, e) \<in> set (map (apfst ((#) (fst kn))) (f (snd kn))) \<longleftrightarrow> fst kn = k \<and> (p, e) \<in> set (f (snd kn))"
    by (cases kn) (force simp: image_iff)
  with Cons show ?case by (cases kn) auto
qed simp

lemma here_path_mem:
  "(k # p, e) \<notin> set (map (Pair []) xs)" "(k # p, e') \<notin> set (map (\<lambda>x. ([], f x)) ys)"
  by auto

lemma child_unique:
  assumes "distinct (map fst ns)" and "map_of ns k = Some m"
  shows "(k, n) \<in> set ns \<longleftrightarrow> n = m"
  using assms map_of_eq_Some_iff [of ns k n] map_of_eq_Some_iff [of ns k m] by auto

end
