(* ===== verification/Sub_Tree.thy ===== *)
theory Sub_Tree
  imports Level_Maps "HOL-Library.Multiset"
begin

text \<open>
  The subscription tree of \<open>src/topics/memtopics.go\<close>: \<open>snode\<close> with \<open>sinsert\<close>, \<open>sremove\<close>, \<open>smatch\<close> and
  \<open>matchQos\<close>.  Go's maps are association lists with distinct keys; a loop over a map runs in the order of
  the list, so that statements about its result are made up to order.  \<open>None\<close> as a result is a panic.
\<close>

section \<open>Data\<close>

text \<open>
  A subscriber is a value of Go's empty interface: a pointer, a function, a string, or a number of the
  type that the first component names.
\<close>

datatype subscriber = PtrSub nat | FuncSub nat | StringSub bytes | NumSub string int

text \<open>
  \<open>equal\<close> compares values of the same type; for functions it compares the addresses of its own two
  parameters, which always differ.
\<close>

fun equal_sub :: "subscriber \<Rightarrow> subscriber \<Rightarrow> bool" where
  "equal_sub (PtrSub a) (PtrSub b) \<longleftrightarrow> a = b"
| "equal_sub (FuncSub a) (FuncSub b) \<longleftrightarrow> False"
| "equal_sub (StringSub a) (StringSub b) \<longleftrightarrow> a = b"
| "equal_sub (NumSub t a) (NumSub u b) \<longleftrightarrow> t = u \<and> a = b"
| "equal_sub _ _ \<longleftrightarrow> False"

datatype snode =
  SNode (subs: "subscriber list") (groupSubs: "(bytes \<times> subscriber list) list") (sqos: "byte list")
        (snodes: "(level \<times> snode) list")

definition newSNode :: snode where
  "newSNode = SNode [] [] [] []"

section \<open>Operations\<close>

text \<open>The index of the first element that \<open>equal\<close> accepts.\<close>

fun sub_index :: "subscriber list \<Rightarrow> subscriber \<Rightarrow> nat option" where
  "sub_index [] sub = None"
| "sub_index (s # ss) sub = (if equal_sub s sub then Some 0 else map_option Suc (sub_index ss sub))"

definition remove_at :: "nat \<Rightarrow> 'a list \<Rightarrow> 'a list" where
  "remove_at i xs = take i xs @ drop (Suc i) xs"

text \<open>\<open>sinsert\<close> at the node of the topic.\<close>

definition sinsert_here :: "snode \<Rightarrow> bytes \<Rightarrow> byte \<Rightarrow> subscriber \<Rightarrow> snode option" where
  "sinsert_here this grp qos sub =
     (case this of SNode ss gs qs ns \<Rightarrow>
        if grp = [] then
          (case sub_index ss sub of
             Some i \<Rightarrow> (if i < length qs then Some (SNode ss gs (qs[i := qos]) ns) else None)
           | None \<Rightarrow> Some (SNode (ss @ [sub]) gs (qs @ [qos]) ns))
        else
          Some (SNode ss
                 (AList.update grp ((case map_of gs grp of Some l \<Rightarrow> l | None \<Rightarrow> []) @ [sub]) gs) qs ns))"

text \<open>The node for the next level is stored in the map before the recursive call, so it stays on an error.\<close>

function sinsert :: "snode \<Rightarrow> bytes \<Rightarrow> bytes \<Rightarrow> byte \<Rightarrow> subscriber \<Rightarrow> (snode \<times> error option) option" where
  "sinsert this grp topic qos sub =
     (if topic = [] then map_option (\<lambda>n. (n, None)) (sinsert_here this grp qos sub)
      else
        (case nextTopicLevel topic of
           (ntl, rem, Some err) \<Rightarrow> Some (this, Some err)
         | (ntl, rem, None) \<Rightarrow>
             (case this of SNode ss gs qs ns \<Rightarrow>
                do { (n, err) \<leftarrow> sinsert (case map_of ns ntl of Some n \<Rightarrow> n | None \<Rightarrow> newSNode) grp rem qos sub;
                     Some (SNode ss gs qs (AList.update ntl n ns), err) })))"
  by pat_completeness auto
termination
  by (relation "measure (\<lambda>(this, grp, topic, qos, sub). length topic)")
     (auto dest: nextTopicLevel_shorter [OF sym])

declare sinsert.simps [simp del]

text \<open>\<open>sremove\<close> at the node of the topic; no subscriber (nil) removes all of them.\<close>

definition sremove_here :: "snode \<Rightarrow> bytes \<Rightarrow> subscriber option \<Rightarrow> (snode \<times> error option) option" where
  "sremove_here this grp sub =
     (case this of SNode ss gs qs ns \<Rightarrow>
        (case sub of
           None \<Rightarrow> Some (SNode [] [] [] ns, None)
         | Some sub \<Rightarrow>
             (let missing = Some (this, Some (Errorf ''memtopics/remove: No topic found for subscriber'' []))
              in if grp = [] then
                   (case sub_index ss sub of
                      Some i \<Rightarrow>
                        (if i < length qs then Some (SNode (remove_at i ss) gs (remove_at i qs) ns, None) else None)
                    | None \<Rightarrow> missing)
                 else
                   (case map_of gs grp of
                      None \<Rightarrow> missing
                    | Some gsubs \<Rightarrow>
                        (case sub_index gsubs sub of
                           None \<Rightarrow> missing
                         | Some i \<Rightarrow>
                             (let temp = remove_at i gsubs
                              in Some (SNode ss (if 0 < length temp then AList.update grp temp gs
                                                 else AList.delete grp gs) qs ns, None)))))))"

definition empty_node :: "snode \<Rightarrow> bool" where
  "empty_node n \<longleftrightarrow> length (groupSubs n) = 0 \<and> length (subs n) = 0 \<and> length (snodes n) = 0"

function sremove :: "snode \<Rightarrow> bytes \<Rightarrow> bytes \<Rightarrow> subscriber option \<Rightarrow> (snode \<times> error option) option" where
  "sremove this grp topic sub =
     (if topic = [] then sremove_here this grp sub
      else
        (case nextTopicLevel topic of
           (ntl, rem, Some err) \<Rightarrow> Some (this, Some err)
         | (ntl, rem, None) \<Rightarrow>
             (case this of SNode ss gs qs ns \<Rightarrow>
                (case map_of ns ntl of
                   None \<Rightarrow> Some (this, Some (Errorf ''memtopics/remove: No topic found'' []))
                 | Some n \<Rightarrow>
                     do { (n, err) \<leftarrow> sremove n grp rem sub;
                          if err \<noteq> None then Some (SNode ss gs qs (AList.update ntl n ns), err)
                          else Some (SNode ss gs qs (if empty_node n then AList.delete ntl ns
                                                     else AList.update ntl n ns), None) }))))"
  by pat_completeness auto
termination
  by (relation "measure (\<lambda>(this, grp, topic, sub). length topic)")
     (auto dest: nextTopicLevel_shorter [OF sym])

declare sremove.simps [simp del]

text \<open>
  The result lists \<open>*subs\<close> and \<open>*qoss\<close> together with the numbers that \<open>rand\<close> will draw;
  \<open>rand.Intn(n)\<close> is the next of them modulo \<open>n\<close>, and panics for \<open>n = 0\<close>.
\<close>

type_synonym matches = "subscriber list \<times> byte list \<times> nat list"

definition Intn :: "nat list \<Rightarrow> nat \<Rightarrow> (nat \<times> nat list) option" where
  "Intn draws n = (if n = 0 then None else Some ((case draws of [] \<Rightarrow> 0 | d # _ \<Rightarrow> d mod n), tl draws))"

text \<open>The loop over the subscribers; \<open>this.qos[i]\<close> panics when there are fewer QoS values.\<close>

fun match_subs :: "byte \<Rightarrow> subscriber list \<Rightarrow> byte list \<Rightarrow> matches \<Rightarrow> matches option" where
  "match_subs qos [] qs acc = Some acc"
| "match_subs qos (s # ss) [] acc = None"
| "match_subs qos (s # ss) (q # qs) (sl, ql, ds) =
     (if qos \<le> q then match_subs qos ss qs (sl @ [s], ql @ [qos], ds)
      else match_subs qos ss qs (sl @ [s], ql @ [q], ds))"

fun match_groups :: "(bytes \<times> subscriber list) list \<Rightarrow> matches \<Rightarrow> matches option" where
  "match_groups [] acc = Some acc"
| "match_groups ((k, gsubs) # gs) (sl, ql, ds) =
     (let ql = ql @ [1] in
      if length gsubs = 1 then match_groups gs (sl @ [hd gsubs], ql, ds)
      else do { (idx, ds) \<leftarrow> Intn ds (length gsubs); match_groups gs (sl @ [gsubs ! idx], ql, ds) })"

definition matchQos :: "snode \<Rightarrow> byte \<Rightarrow> matches \<Rightarrow> matches option" where
  "matchQos this qos acc = do { acc \<leftarrow> match_subs qos (subs this) (sqos this) acc; match_groups (groupSubs this) acc }"

function smatch :: "snode \<Rightarrow> bytes \<Rightarrow> byte \<Rightarrow> matches \<Rightarrow> (matches \<times> error option) option"
  and smatch_nodes :: "(level \<times> snode) list \<Rightarrow> level \<Rightarrow> bytes \<Rightarrow> byte \<Rightarrow> matches \<Rightarrow> (matches \<times> error option) option" where
  "smatch this topic qos acc =
     (if topic = [] then map_option (\<lambda>acc. (acc, None)) (matchQos this qos acc)
      else
        (case nextTopicLevel topic of
           (ntl, rem, Some err) \<Rightarrow> Some (acc, Some err)
         | (ntl, rem, None) \<Rightarrow> smatch_nodes (snodes this) ntl rem qos acc))"
| "smatch_nodes [] level rem qos acc = Some (acc, None)"
| "smatch_nodes ((k, n) # ns) level rem qos acc =
     (if k = MWC then do { acc \<leftarrow> matchQos n qos acc; smatch_nodes ns level rem qos acc }
      else if k = SWC \<or> k = level then
        do { (acc, err) \<leftarrow> smatch n rem qos acc;
             if err \<noteq> None then Some (acc, err) else smatch_nodes ns level rem qos acc }
      else smatch_nodes ns level rem qos acc)"
  by pat_completeness auto
termination
  by (relation "measures [\<lambda>x. case x of Inl (this, topic, qos, acc) \<Rightarrow> length topic
                                     | Inr (ns, level, rem, qos, acc) \<Rightarrow> length rem,
                          \<lambda>x. case x of Inl _ \<Rightarrow> 0 | Inr (ns, level, rem, qos, acc) \<Rightarrow> Suc (length ns)]")
     (auto dest: nextTopicLevel_shorter [OF sym])

declare smatch.simps [simp del]

section \<open>What a tree stores\<close>

text \<open>The subscribers, their QoS and the groups at one node.\<close>

type_synonym sub_content = "subscriber list \<times> byte list \<times> (bytes \<times> subscriber list) list"

abbreviation no_content :: sub_content where
  "no_content \<equiv> ([], [], [])"

abbreviation here :: "snode \<Rightarrow> sub_content" where
  "here n \<equiv> (subs n, sqos n, groupSubs n)"

text \<open>What is stored under a list of levels.\<close>

fun content_at :: "snode \<Rightarrow> level list \<Rightarrow> sub_content" where
  "content_at n [] = here n"
| "content_at n (l # ls) = (case map_of (snodes n) l of None \<Rightarrow> no_content | Some m \<Rightarrow> content_at m ls)"

text \<open>Every subscriber has its QoS, no group is empty, and the keys of a map are distinct.\<close>

definition wf_content :: "sub_content \<Rightarrow> bool" where
  "wf_content c \<longleftrightarrow>
     (case c of (ss, qs, gs) \<Rightarrow>
        length qs = length ss \<and> distinct (map fst gs) \<and> (\<forall>g \<in> set gs. snd g \<noteq> []))"

fun wf_snode :: "snode \<Rightarrow> bool" where
  "wf_snode (SNode ss gs qs ns) \<longleftrightarrow>
     wf_content (ss, qs, gs) \<and> distinct (map fst ns) \<and> (\<forall>kn \<in> set ns. wf_snode (snd kn))"

lemma wf_new [simp]: "wf_snode newSNode"
  by (simp add: newSNode_def wf_content_def)

lemma content_new [simp]: "content_at newSNode ls = no_content"
  by (cases ls) (simp_all add: newSNode_def)

lemma wf_snode_child: "wf_snode (SNode ss gs qs ns) \<Longrightarrow> map_of ns l = Some n \<Longrightarrow> wf_snode n"
  by (auto dest: map_of_SomeD)

section \<open>Inserting and removing\<close>

text \<open>The effect on the content of the node: an update in a list of subscribers or in a group.\<close>

definition ins_content :: "bytes \<Rightarrow> byte \<Rightarrow> subscriber \<Rightarrow> sub_content \<Rightarrow> sub_content" where
  "ins_content grp qos sub c =
     (case c of (ss, qs, gs) \<Rightarrow>
        if grp = [] then
          (case sub_index ss sub of
             Some i \<Rightarrow> (ss, qs[i := qos], gs)
           | None \<Rightarrow> (ss @ [sub], qs @ [qos], gs))
        else (ss, qs, AList.update grp ((case map_of gs grp of Some l \<Rightarrow> l | None \<Rightarrow> []) @ [sub]) gs))"

definition rem_content :: "bytes \<Rightarrow> subscriber \<Rightarrow> sub_content \<Rightarrow> sub_content option" where
  "rem_content grp sub c =
     (case c of (ss, qs, gs) \<Rightarrow>
        if grp = [] then
          map_option (\<lambda>i. (remove_at i ss, remove_at i qs, gs)) (sub_index ss sub)
        else
          do { gsubs \<leftarrow> map_of gs grp;
               i \<leftarrow> sub_index gsubs sub;
               Some (ss, qs, if length gsubs = 1 then AList.delete grp gs
                             else AList.update grp (remove_at i gsubs) gs) })"

lemma sub_index_less: "sub_index ss sub = Some i \<Longrightarrow> i < length ss"
  by (induction ss arbitrary: i) (auto split: if_splits)

lemma length_remove_at [simp]: "i < length xs \<Longrightarrow> length (remove_at i xs) = length xs - 1"
  by (simp add: remove_at_def)

lemma wf_ins_content: "wf_content c \<Longrightarrow> wf_content (ins_content grp qos sub c)"
  by (cases c)
     (auto simp: ins_content_def wf_content_def distinct_update dest!: set_update_snd split: option.split)

lemma wf_rem_content: "wf_content c \<Longrightarrow> rem_content grp sub c = Some c' \<Longrightarrow> wf_content c'"
  by (cases c)
     (auto simp: rem_content_def wf_content_def distinct_update distinct_delete AList.delete_eq remove_at_def
        intro: distinct_map_filter dest!: set_update_snd sub_index_less split: if_splits bind_splits)

lemma sinsert_here_content:
  assumes "wf_content (here n)"
  shows "\<exists>n'. sinsert_here n grp qos sub = Some n' \<and> here n' = ins_content grp qos sub (here n)
           \<and> snodes n' = snodes n"
  using assms
  by (cases n) (auto simp: sinsert_here_def ins_content_def wf_content_def dest: sub_index_less split: option.split)

lemma wf_snode_iff: "wf_snode n \<longleftrightarrow> wf_content (here n) \<and> distinct (map fst (snodes n)) \<and> (\<forall>kn \<in> set (snodes n). wf_snode (snd kn))"
  by (cases n) simp

text \<open>Changing one child changes what is stored below that level only.\<close>

lemma content_update_child:
  "content_at (SNode ss gs qs (AList.update l n ns)) =
     (\<lambda>p. case p of [] \<Rightarrow> (ss, qs, gs)
        | k # p' \<Rightarrow> if k = l then content_at n p' else content_at (SNode ss gs qs ns) p)"
  by (rule ext) (auto simp: update_conv' split: list.split option.split)

lemma wf_update_child:
  "wf_snode (SNode ss gs qs ns) \<Longrightarrow> wf_snode n \<Longrightarrow> wf_snode (SNode ss gs qs (AList.update l n ns))"
  by (auto simp: distinct_update dest!: set_update_snd)

lemma sinsert_ok:
  assumes "wf_snode n" and "levels topic = Some ls"
  shows "\<exists>n'. sinsert n grp topic qos sub = Some (n', None) \<and> wf_snode n'
           \<and> content_at n' = (content_at n)(ls := ins_content grp qos sub (content_at n ls))"
  using assms
proof (induction n grp topic qos sub arbitrary: ls rule: sinsert.induct)
  case (1 this grp topic qos sub)
  obtain ss gs qs ns where t: "this = SNode ss gs qs ns" by (cases this) auto
  show ?case
  proof (cases "topic = []")
    case True
    then have ls: "ls = []" using "1.prems" by simp
    have wfc: "wf_content (here this)" using "1.prems" by (simp add: wf_snode_iff [of this])
    then obtain n' where n': "sinsert_here this grp qos sub = Some n'"
        "here n' = ins_content grp qos sub (here this)" "snodes n' = snodes this"
      using sinsert_here_content by blast
    moreover have "wf_snode n'"
      using n' "1.prems"(1) wf_ins_content [OF wfc, of grp qos sub] unfolding wf_snode_iff [of n'] wf_snode_iff [of this]
      by simp
    moreover have "content_at n' p = ((content_at this)([] := ins_content grp qos sub (content_at this []))) p" for p
      using n' by (cases p) auto
    ultimately show ?thesis using True ls by (auto simp: sinsert.simps [of this] fun_eq_iff)
  next
    case False
    obtain l r ls' where n: "nextTopicLevel topic = (l, r, None)" "levels r = Some ls'" "ls = l # ls'"
      using "1.prems"(2) levels_step [OF False] by (cases ls) auto
    define m where "m = (case map_of ns l of Some n \<Rightarrow> n | None \<Rightarrow> newSNode)"
    have "wf_snode m" using "1.prems"(1) t by (auto simp: m_def dest: map_of_SomeD split: option.split)
    then have "\<exists>m'. sinsert m grp r qos sub = Some (m', None) \<and> wf_snode m'
        \<and> content_at m' = (content_at m)(ls' := ins_content grp qos sub (content_at m ls'))"
      using "1.IH" [OF False _ _ _ t, of l "(r, None)" r None] n by (simp add: m_def del: fun_upd_apply)
    then obtain m' where m': "sinsert m grp r qos sub = Some (m', None)" "wf_snode m'"
        "content_at m' = (content_at m)(ls' := ins_content grp qos sub (content_at m ls'))" by blast
    have cm: "content_at this (l # p) = content_at m p" for p
      by (simp add: t m_def split: option.split)
    let ?n = "SNode ss gs qs (AList.update l m' ns)"
    have "sinsert this grp topic qos sub = Some (?n, None)"
      using False n m'(1) by (subst sinsert.simps) (simp add: t m_def)
    moreover have "wf_snode ?n" using "1.prems"(1) m'(2) unfolding t by (rule wf_update_child)
    moreover have "content_at ?n p = ((content_at this)(ls := ins_content grp qos sub (content_at this ls))) p" for p
      unfolding n(3) content_update_child cm by (auto simp: m'(3) t cm [unfolded t, simplified] split: list.split)
    ultimately show ?thesis by blast
  qed
qed

text \<open>A refused topic changes nothing that is stored, although nodes may have been created on the way.\<close>

lemma sinsert_refused:
  assumes "wf_snode n" and "levels topic = None"
  shows "\<exists>n' e. sinsert n grp topic qos sub = Some (n', Some e) \<and> wf_snode n' \<and> content_at n' = content_at n"
  using assms
proof (induction n grp topic qos sub rule: sinsert.induct)
  case (1 this grp topic qos sub)
  obtain ss gs qs ns where t: "this = SNode ss gs qs ns" by (cases this) auto
  have False: "topic \<noteq> []" using "1.prems"(2) by auto
  obtain l r e where n: "nextTopicLevel topic = (l, r, e)" by (cases "nextTopicLevel topic") auto
  show ?case
  proof (cases e)
    case (Some e')
    with False n "1.prems"(1) show ?thesis by (auto simp: sinsert.simps [of this])
  next
    case None
    then have r: "levels r = None" using "1.prems"(2) False n by (simp add: levels.simps [of topic])
    define m where "m = (case map_of ns l of Some n \<Rightarrow> n | None \<Rightarrow> newSNode)"
    have "wf_snode m" using "1.prems"(1) t by (auto simp: m_def dest: map_of_SomeD split: option.split)
    then have "\<exists>m' e. sinsert m grp r qos sub = Some (m', Some e) \<and> wf_snode m' \<and> content_at m' = content_at m"
      using "1.IH" [OF False _ _ _ t, of l "(r, None)" r None] n None r by (simp add: m_def)
    then obtain m' e' where m': "sinsert m grp r qos sub = Some (m', Some e')" "wf_snode m'"
        "content_at m' = content_at m" by blast
    have cm: "content_at this (l # p) = content_at m p" for p
      by (simp add: t m_def split: option.split)
    let ?n = "SNode ss gs qs (AList.update l m' ns)"
    have "sinsert this grp topic qos sub = Some (?n, Some e')"
      using False n None m'(1) by (subst sinsert.simps) (simp add: t m_def)
    moreover have "wf_snode ?n" using "1.prems"(1) m'(2) unfolding t by (rule wf_update_child)
    moreover have "content_at ?n p = content_at this p" for p
      unfolding content_update_child by (auto simp: m'(3) t cm [unfolded t, simplified] split: list.split)
    ultimately show ?thesis by blast
  qed
qed

lemma content_delete_child:
  "content_at (SNode ss gs qs (AList.delete l ns)) =
     (\<lambda>p. case p of [] \<Rightarrow> (ss, qs, gs)
        | k # p' \<Rightarrow> if k = l then no_content else content_at (SNode ss gs qs ns) p)"
  by (rule ext) (auto simp: delete_conv' split: list.split option.split)

lemma wf_delete_child: "wf_snode (SNode ss gs qs ns) \<Longrightarrow> wf_snode (SNode ss gs qs (AList.delete l ns))"
  by (auto simp: AList.delete_eq intro: distinct_map_filter)

lemma content_empty_node: "wf_snode n \<Longrightarrow> empty_node n \<Longrightarrow> content_at n p = no_content"
  by (cases n; cases p) (auto simp: empty_node_def wf_content_def)

lemma remove_at_empty: "sub_index xs sub = Some i \<Longrightarrow> remove_at i xs = [] \<longleftrightarrow> length xs = Suc 0"
  using sub_index_less [of xs sub i] by (cases xs) (auto simp: remove_at_def)

lemma sremove_here_content:
  assumes "wf_content (here n)"
  shows "case rem_content grp sub (here n) of
           Some c \<Rightarrow> \<exists>n'. sremove_here n grp (Some sub) = Some (n', None) \<and> here n' = c \<and> snodes n' = snodes n
         | None \<Rightarrow> \<exists>e. sremove_here n grp (Some sub) = Some (n, Some e)"
  using assms
  by (cases n)
     (auto simp: sremove_here_def rem_content_def wf_content_def Let_def remove_at_empty dest: sub_index_less
        split: option.split bind_split)

text \<open>
  Removing a subscriber: either it is stored under the levels of the topic, and then exactly that entry
  goes, or an error is reported and nothing changes.
\<close>

lemma sremove_ok:
  assumes "wf_snode n" and "levels topic = Some ls"
  shows "case rem_content grp sub (content_at n ls) of
           Some c \<Rightarrow> \<exists>n'. sremove n grp topic (Some sub) = Some (n', None) \<and> wf_snode n' \<and> content_at n' = (content_at n)(ls := c)
         | None \<Rightarrow> \<exists>n' e. sremove n grp topic (Some sub) = Some (n', Some e) \<and> wf_snode n' \<and> content_at n' = content_at n"
  using assms
proof (induction n grp topic "Some sub" arbitrary: ls rule: sremove.induct)
  case (1 this grp topic)
  obtain ss gs qs ns where t: "this = SNode ss gs qs ns" by (cases this) auto
  show ?case
  proof (cases "topic = []")
    case True
    then have ls: "ls = []" using "1.prems" by simp
    have wfc: "wf_content (here this)" using "1.prems" by (simp add: wf_snode_iff [of this])
    show ?thesis
    proof (cases "rem_content grp sub (here this)")
      case None
      with sremove_here_content [OF wfc, of grp sub] True ls "1.prems" show ?thesis
        by (auto simp: sremove.simps [of this])
    next
      case (Some c)
      then obtain n' where n': "sremove_here this grp (Some sub) = Some (n', None)" "here n' = c" "snodes n' = snodes this"
        using sremove_here_content [OF wfc, of grp sub] by auto
      moreover have "wf_snode n'"
        using n' "1.prems"(1) wf_rem_content [OF wfc Some] unfolding wf_snode_iff [of n'] wf_snode_iff [of this]
        by simp
      moreover have "content_at n' = (content_at this)([] := c)"
      proof
        show "content_at n' p = ((content_at this)([] := c)) p" for p
          using n' by (cases p) auto
      qed
      ultimately show ?thesis using True ls Some by (simp add: sremove.simps [of this] del: fun_upd_apply)
    qed
  next
    case False
    obtain l r ls' where n: "nextTopicLevel topic = (l, r, None)" "levels r = Some ls'" "ls = l # ls'"
      using "1.prems"(2) levels_step [OF False] by (cases ls) auto
    show ?thesis
    proof (cases "map_of ns l")
      case None
      then have "rem_content grp sub (content_at this ls) = None" by (simp add: n(3) t rem_content_def)
      moreover have "\<exists>e. sremove this grp topic (Some sub) = Some (this, Some e)"
        using None False n by (subst sremove.simps) (simp add: t)
      ultimately show ?thesis using "1.prems"(1) by auto
    next
      case (Some m)
      then have wfm: "wf_snode m" using "1.prems"(1) t wf_snode_child by blast
      have c: "content_at this ls = content_at m ls'" by (simp add: n(3) t Some)
      note IH = "1.hyps" [OF False n(1) [symmetric] refl refl t Some wfm n(2)]
      show ?thesis
      proof (cases "rem_content grp sub (content_at m ls')")
        case None
        with IH obtain m' e where m': "sremove m grp r (Some sub) = Some (m', Some e)" "wf_snode m'"
            "content_at m' = content_at m" by auto
        let ?n = "SNode ss gs qs (AList.update l m' ns)"
        have "sremove this grp topic (Some sub) = Some (?n, Some e)"
          using False n Some m'(1) by (subst sremove.simps) (simp add: t)
        moreover have "wf_snode ?n" using "1.prems"(1) m'(2) unfolding t by (rule wf_update_child)
        moreover have "content_at ?n = content_at this"
          unfolding content_update_child by (rule ext) (auto simp: m'(3) t Some split: list.split)
        ultimately show ?thesis using None c by simp
      next
        case cSome: (Some cnt)
        with IH obtain m' where m': "sremove m grp r (Some sub) = Some (m', None)" "wf_snode m'"
            "content_at m' = (content_at m)(ls' := cnt)" by auto
        let ?n = "SNode ss gs qs (if empty_node m' then AList.delete l ns else AList.update l m' ns)"
        have "sremove this grp topic (Some sub) = Some (?n, None)"
          using False n Some m'(1) by (subst sremove.simps) (simp add: t)
        moreover have "wf_snode ?n"
          using wf_update_child [OF "1.prems"(1) [unfolded t] m'(2), of l]
            wf_delete_child [OF "1.prems"(1) [unfolded t], of l] by (simp del: wf_snode.simps)
        moreover have "content_at ?n = (content_at this)(ls := cnt)"
        proof (rule ext, cases "empty_node m'")
          fix p
          case True
          then have e: "((content_at m)(ls' := cnt)) q = no_content" for q
            using content_empty_node [OF m'(2)] m'(3) by metis
          show "content_at ?n p = ((content_at this)(ls := cnt)) p"
          proof (cases p)
            case (Cons k p')
            with True e [of p'] show ?thesis unfolding n(3) content_delete_child t
              by (auto simp: Some content_delete_child split: if_splits)
          qed (use True n(3) t in \<open>simp add: content_delete_child\<close>)
        next
          fix p
          case False
          then show "content_at ?n p = ((content_at this)(ls := cnt)) p" unfolding n(3)
            by (auto simp: content_update_child m'(3) t Some split: list.split)
        qed
        ultimately show ?thesis using cSome c by (simp del: fun_upd_apply)
      qed
    qed
  qed
qed

text \<open>Whatever the topic and the subscriber, removing does not panic and keeps the tree well formed.\<close>

lemma wf_snode_here: "wf_snode n \<Longrightarrow> wf_content (here n') \<Longrightarrow> snodes n' = snodes n \<Longrightarrow> wf_snode n'"
  by (simp add: wf_snode_iff [of n] wf_snode_iff [of n'])

lemma wf_sremove_here:
  assumes "wf_snode n"
  shows "\<exists>n' e. sremove_here n grp sub = Some (n', e) \<and> wf_snode n' \<and> snodes n' = snodes n"
proof (cases sub)
  case None
  with assms show ?thesis by (cases n) (simp add: sremove_here_def wf_content_def)
next
  case (Some s)
  have wf: "wf_content (here n)" using assms by (simp add: wf_snode_iff [of n])
  from sremove_here_content [OF this, of grp s] show ?thesis
    using assms wf_rem_content [OF wf, of grp s] wf_snode_here [OF assms] Some
    by (cases "rem_content grp s (here n)") auto
qed

lemma sremove_total:
  assumes "wf_snode n"
  shows "\<exists>n' e. sremove n grp topic sub = Some (n', e) \<and> wf_snode n'
           \<and> (levels topic = None \<longrightarrow> e \<noteq> None \<and> content_at n' = content_at n)"
  using assms
proof (induction "length topic" arbitrary: n topic rule: less_induct)
  case less
  obtain ss gs qs ns where n: "n = SNode ss gs qs ns" by (cases n)
  obtain l r e where r: "nextTopicLevel topic = (l, r, e)" by (cases "nextTopicLevel topic") auto
  consider "topic = []" | e' where "topic \<noteq> []" "e = Some e'" | "topic \<noteq> []" "e = None" "map_of ns l = None"
    | c where "topic \<noteq> []" "e = None" "map_of ns l = Some c" by (cases e; cases "map_of ns l") auto
  then show ?case
  proof cases
    case 1
    with wf_sremove_here [OF less.prems, of grp sub] show ?thesis by (auto simp: sremove.simps [of n])
  next
    case 4
    have lr: "levels r = levels topic" if "levels topic = None"
      using that 4 r by (simp add: levels.simps [of topic])
    have "length r < length topic" using nextTopicLevel_shorter [of topic l r] r 4 by simp
    then obtain c' e' where c': "sremove c grp r sub = Some (c', e')" "wf_snode c'"
        "levels r = None \<longrightarrow> e' \<noteq> None \<and> content_at c' = content_at c"
      using less.hyps [OF _ wf_snode_child [OF less.prems [unfolded n] 4(3)], of r] by auto
    let ?u = "SNode ss gs qs (AList.update l c' ns)" and ?d = "SNode ss gs qs (AList.delete l ns)"
    have s: "sremove n grp topic sub = Some (if e' = None \<and> empty_node c' then ?d else ?u, e')"
      using 4 r c'(1) unfolding n by (subst sremove.simps) auto
    have wf: "wf_snode ?u" "wf_snode ?d"
      using less.prems c'(2) wf_update_child wf_delete_child unfolding n by blast+
    have "content_at ?u p = content_at n p" if "levels topic = None" for p
      using c'(3) lr that 4(3) unfolding content_update_child n by (auto split: list.split)
    then show ?thesis using s wf c'(3) lr by (cases "levels topic = None") auto
  qed (use less.prems r in \<open>auto simp: sremove.simps [of n] n [symmetric]\<close>, simp_all add: n sremove.simps [of n, unfolded n])
qed

section \<open>Matching\<close>

text \<open>
  A filter, given by its levels, matches a topic name: \<open>+\<close> stands for one level, \<open>#\<close> for one or more
  levels at the end.
\<close>

fun matches :: "level list \<Rightarrow> level list \<Rightarrow> bool" where
  "matches [] [] \<longleftrightarrow> True"
| "matches (f # fs) (t # ts) \<longleftrightarrow> (if f = MWC then fs = [] else (f = SWC \<or> f = t) \<and> matches fs ts)"
| "matches _ _ \<longleftrightarrow> False"

text \<open>All subscriptions and all groups of a tree, with the levels under which they are stored.\<close>

fun entries :: "snode \<Rightarrow> (level list \<times> subscriber \<times> byte) list" where
  "entries (SNode ss gs qs ns) =
     map (Pair []) (zip ss qs) @ concat (map (\<lambda>kn. map (apfst ((#) (fst kn))) (entries (snd kn))) ns)"

fun gentries :: "snode \<Rightarrow> (level list \<times> subscriber list) list" where
  "gentries (SNode ss gs qs ns) =
     map (\<lambda>g. ([], snd g)) gs @ concat (map (\<lambda>kn. map (apfst ((#) (fst kn))) (gentries (snd kn))) ns)"

text \<open>
  What a publication with QoS \<open>qos\<close> hands out for given subscriptions \<open>es\<close> and groups \<open>gs\<close>: every
  subscriber, with the smaller of the two QoS, and for every group one of its members, with QoS 1; in
  any order.
\<close>

definition delivers ::
    "byte \<Rightarrow> (level list \<times> subscriber \<times> byte) list \<Rightarrow> (level list \<times> subscriber list) list
     \<Rightarrow> subscriber list \<Rightarrow> byte list \<Rightarrow> bool" where
  "delivers qos es gs sl ql \<longleftrightarrow>
     length sl = length ql
     \<and> (\<exists>ps. mset (zip sl ql) = mset (map (\<lambda>(p, s, q). (s, min qos q)) es) + mset (map (\<lambda>s. (s, 1)) ps)
          \<and> list_all2 (\<lambda>s g. s \<in> set (snd g)) ps gs)"

lemma delivers_Nil [simp]: "delivers qos [] [] [] []"
  by (auto simp: delivers_def)

lemma delivers_append:
  assumes "delivers qos es gs sl ql" and "delivers qos es' gs' sl' ql'"
  shows "delivers qos (es @ es') (gs @ gs') (sl @ sl') (ql @ ql')"
proof -
  from assms obtain ps ps' where
    "length sl = length ql" "length sl' = length ql'"
    "mset (zip sl ql) = mset (map (\<lambda>(p, s, q). (s, min qos q)) es) + mset (map (\<lambda>s. (s, 1)) ps)"
    "mset (zip sl' ql') = mset (map (\<lambda>(p, s, q). (s, min qos q)) es') + mset (map (\<lambda>s. (s, 1)) ps')"
    "list_all2 (\<lambda>s g. s \<in> set (snd g)) ps gs" "list_all2 (\<lambda>s g. s \<in> set (snd g)) ps' gs'"
    by (auto simp: delivers_def)
  then show ?thesis
    unfolding delivers_def by (intro conjI exI [of _ "ps @ ps'"]) (auto intro: list_all2_appendI)
qed

lemma match_subs_ok:
  "length qs = length ss \<Longrightarrow>
   match_subs qos ss qs (sl, ql, ds) = Some (sl @ ss, ql @ map (min qos) qs, ds)"
  by (induction ss qs arbitrary: sl ql rule: list_induct2') (auto simp: min_def)

lemma match_groups_ok:
  assumes "\<forall>g \<in> set gs. snd g \<noteq> []"
  shows "\<exists>ps ds'. match_groups gs (sl, ql, ds) = Some (sl @ ps, ql @ map (\<lambda>_. 1) ps, ds')
           \<and> list_all2 (\<lambda>s g. s \<in> set (snd g)) ps gs"
  using assms
proof (induction gs arbitrary: sl ql ds)
  case (Cons g gs)
  obtain k l where g: "g = (k, l)" by (cases g)
  have l: "l \<noteq> []" using Cons.prems g by simp
  obtain s ds1 where s: "s \<in> set l"
      "match_groups (g # gs) (sl, ql, ds) = match_groups gs (sl @ [s], ql @ [1], ds1)"
  proof (cases "length l = 1")
    case True
    with l g show thesis by (intro that [of "hd l" ds]) (auto simp: Let_def)
  next
    case False
    let ?i = "case ds of [] \<Rightarrow> 0 | d # _ \<Rightarrow> d mod length l"
    have "?i < length l" using l by (auto split: list.split)
    with False l g show thesis by (intro that [of "l ! ?i" "tl ds"]) (auto simp: Let_def Intn_def)
  qed
  obtain ps ds' where "match_groups gs (sl @ [s], ql @ [1], ds1) = Some ((sl @ [s]) @ ps, (ql @ [1]) @ map (\<lambda>_. 1) ps, ds')"
      "list_all2 (\<lambda>s g. s \<in> set (snd g)) ps gs"
    using Cons.IH [of "sl @ [s]" "ql @ [1]" ds1] Cons.prems by auto
  with s g show ?case by (intro exI [of _ "s # ps"] exI [of _ ds']) simp
qed simp

lemma matchQos_ok:
  assumes "wf_content (here n)"
  shows "\<exists>sl' ql' ds'. matchQos n qos (sl, ql, ds) = Some (sl @ sl', ql @ ql', ds')
           \<and> delivers qos (map (Pair p) (zip (subs n) (sqos n))) (map (\<lambda>g. (p, snd g)) (groupSubs n)) sl' ql'"
proof -
  have l: "length (sqos n) = length (subs n)" using assms by (simp add: wf_content_def)
  obtain ps ds' where ps: "match_groups (groupSubs n) (sl @ subs n, ql @ map (min qos) (sqos n), ds)
        = Some ((sl @ subs n) @ ps, (ql @ map (min qos) (sqos n)) @ map (\<lambda>_. 1) ps, ds')"
      "list_all2 (\<lambda>s g. s \<in> set (snd g)) ps (groupSubs n)"
    using match_groups_ok [of "groupSubs n" "sl @ subs n" "ql @ map (min qos) (sqos n)" ds] assms
    by (auto simp: wf_content_def)
  have z: "zip ps (map (\<lambda>_. 1) ps) = map (\<lambda>s. (s, 1)) ps" by (induction ps) auto
  have "zip (subs n) (map (min qos) (sqos n)) = map (\<lambda>(s, q). (s, min qos q)) (zip (subs n) (sqos n))"
    by (simp add: zip_map2)
  then have "delivers qos (map (Pair p) (zip (subs n) (sqos n))) (map (\<lambda>g. (p, snd g)) (groupSubs n))
      (subs n @ ps) (map (min qos) (sqos n) @ map (\<lambda>_. 1) ps)"
    using l ps(2) unfolding delivers_def
    by (intro conjI exI [of _ ps]) (auto simp: z comp_def case_prod_unfold list_all2_map2)
  with ps(1) show ?thesis by (auto simp: matchQos_def match_subs_ok [OF l])
qed

text \<open>The subscriptions at the root of a tree are those under the empty list of levels.\<close>

lemma entries_here: "filter (\<lambda>e. fst e = []) (entries n) = map (Pair []) (zip (subs n) (sqos n))"
  by (cases n) (simp add: filter_child_paths [where P = "\<lambda>p. p = []"] filter_map comp_def)

lemma gentries_here: "filter (\<lambda>e. fst e = []) (gentries n) = map (\<lambda>g. ([], snd g)) (groupSubs n)"
  by (cases n) (simp add: filter_child_paths [where P = "\<lambda>p. p = []"] filter_map comp_def)

text \<open>Prefixing the levels does not change what is handed out.\<close>

lemma delivers_prefix:
  "delivers qos (map (apfst f) es) (map (apfst f) gs) sl ql = delivers qos es gs sl ql"
  by (auto simp: delivers_def comp_def case_prod_unfold list_all2_map2 apfst_def map_prod_def)

text \<open>What matches a topic: the entries whose levels match those of the topic.\<close>

abbreviation matching :: "level list \<Rightarrow> (level list \<times> 'a) list \<Rightarrow> (level list \<times> 'a) list" where
  "matching ls es \<equiv> filter (\<lambda>e. matches (fst e) ls) es"

lemma matches_Nil_iff: "matches p [] \<longleftrightarrow> p = []"
  by (cases p) simp_all

text \<open>\<open>acc\<close> with more results appended.\<close>

abbreviation more :: "matches \<Rightarrow> subscriber list \<Rightarrow> byte list \<Rightarrow> nat list \<Rightarrow> matches" where
  "more acc sl ql ds \<equiv> (fst acc @ sl, fst (snd acc) @ ql, ds)"

abbreviation child_entries :: "(level \<times> snode) list \<Rightarrow> (level list \<times> subscriber \<times> byte) list" where
  "child_entries ns \<equiv> concat (map (\<lambda>kn. map (apfst ((#) (fst kn))) (entries (snd kn))) ns)"

abbreviation child_gentries :: "(level \<times> snode) list \<Rightarrow> (level list \<times> subscriber list) list" where
  "child_gentries ns \<equiv> concat (map (\<lambda>kn. map (apfst ((#) (fst kn))) (gentries (snd kn))) ns)"

text \<open>One child of a node: what it contributes to the matches of \<open>l # ls\<close>.\<close>

lemma smatch_child:
  assumes wf: "wf_snode n"
    and IH: "\<And>acc. \<exists>sl ql ds. smatch n rem qos acc = Some (more acc sl ql ds, None)
               \<and> delivers qos (matching ls (entries n)) (matching ls (gentries n)) sl ql"
  shows "\<exists>sl ql ds. smatch_nodes ((k, n) # ns) l rem qos acc = smatch_nodes ns l rem qos (more acc sl ql ds)
           \<and> delivers qos (matching (l # ls) (map (apfst ((#) k)) (entries n)))
                (matching (l # ls) (map (apfst ((#) k)) (gentries n))) sl ql"
proof -
  obtain a b d where acc: "acc = (a, b, d)" by (cases acc)
  have cut: "matching (l # ls) (map (apfst ((#) k)) es) =
      (if k = MWC then map (apfst ((#) k)) (filter (\<lambda>e. fst e = []) es)
       else if k = SWC \<or> k = l then map (apfst ((#) k)) (matching ls es) else [])" for es :: "(level list \<times> 'x) list"
    by (auto simp: filter_map comp_def)
  consider "k = MWC" | "k \<noteq> MWC" "k = SWC \<or> k = l" | "k \<noteq> MWC" "\<not> (k = SWC \<or> k = l)" by blast
  then show ?thesis
  proof cases
    case 1
    have "wf_content (here n)" using wf by (simp add: wf_snode_iff [of n])
    from matchQos_ok [OF this, of qos a b d "[]"] obtain sl ql ds where
      "matchQos n qos acc = Some (more acc sl ql ds)"
      "delivers qos (filter (\<lambda>e. fst e = []) (entries n)) (filter (\<lambda>e. fst e = []) (gentries n)) sl ql"
      unfolding acc entries_here gentries_here by auto
    with 1 show ?thesis unfolding cut by (intro exI [of _ sl] exI [of _ ql] exI [of _ ds]) (simp add: delivers_prefix)
  next
    case 2
    from IH [of acc] obtain sl ql ds where "smatch n rem qos acc = Some (more acc sl ql ds, None)"
      "delivers qos (matching ls (entries n)) (matching ls (gentries n)) sl ql" by blast
    with 2 show ?thesis unfolding cut
      by (intro exI [of _ sl] exI [of _ ql] exI [of _ ds]) (simp add: delivers_prefix)
  next
    case 3
    then show ?thesis unfolding cut
      by (intro exI [of _ "[]"] exI [of _ "[]"] exI [of _ d]) (simp add: acc)
  qed
qed

lemma smatch_nodes_delivers:
  assumes "\<And>kn acc. kn \<in> set ns \<Longrightarrow>
             \<exists>sl ql ds. smatch (snd kn) rem qos acc = Some (more acc sl ql ds, None)
               \<and> delivers qos (matching ls (entries (snd kn))) (matching ls (gentries (snd kn))) sl ql"
    and "\<forall>kn \<in> set ns. wf_snode (snd kn)"
  shows "\<exists>sl ql ds. smatch_nodes ns l rem qos acc = Some (more acc sl ql ds, None)
           \<and> delivers qos (matching (l # ls) (child_entries ns)) (matching (l # ls) (child_gentries ns)) sl ql"
  using assms
proof (induction ns arbitrary: acc)
  case Nil
  then show ?case by (intro exI [of _ "[]"] exI [of _ "[]"] exI [of _ "snd (snd acc)"]) simp
next
  case (Cons kn ns)
  obtain k n where kn: "kn = (k, n)" by (cases kn)
  have wfn: "wf_snode n" using Cons.prems(2) kn by simp
  have IHn: "\<exists>sl ql ds. smatch n rem qos acc = Some (more acc sl ql ds, None)
      \<and> delivers qos (matching ls (entries n)) (matching ls (gentries n)) sl ql" for acc
    using Cons.prems(1) [of kn acc] kn by simp
  obtain s1 q1 d1 where 1: "smatch_nodes (kn # ns) l rem qos acc = smatch_nodes ns l rem qos (more acc s1 q1 d1)"
      "delivers qos (matching (l # ls) (map (apfst ((#) k)) (entries n)))
         (matching (l # ls) (map (apfst ((#) k)) (gentries n))) s1 q1"
    using smatch_child [OF wfn IHn, of k ns l acc] unfolding kn by blast
  have "\<exists>sl ql ds. smatch_nodes ns l rem qos (more acc s1 q1 d1) = Some (more (more acc s1 q1 d1) sl ql ds, None)
      \<and> delivers qos (matching (l # ls) (child_entries ns)) (matching (l # ls) (child_gentries ns)) sl ql"
  proof (rule Cons.IH)
    show "\<exists>sl ql ds. smatch (snd kn) rem qos acc = Some (more acc sl ql ds, None)
        \<and> delivers qos (matching ls (entries (snd kn))) (matching ls (gentries (snd kn))) sl ql"
      if "kn \<in> set ns" for kn acc
      by (rule Cons.prems(1)) (simp add: that)
  qed (use Cons.prems(2) in simp)
  then obtain s2 q2 d2 where 2: "smatch_nodes ns l rem qos (more acc s1 q1 d1) = Some (more (more acc s1 q1 d1) s2 q2 d2, None)"
      "delivers qos (matching (l # ls) (child_entries ns)) (matching (l # ls) (child_gentries ns)) s2 q2"
    by blast
  from 1(1) 2(1) delivers_append [OF 1(2) 2(2)] kn show ?case
    by (intro exI [of _ "s1 @ s2"] exI [of _ "q1 @ q2"] exI [of _ d2]) simp
qed

lemma smatch_delivers:
  assumes "wf_snode n" and "levels topic = Some ls"
  shows "\<exists>sl ql ds. smatch n topic qos acc = Some (more acc sl ql ds, None)
           \<and> delivers qos (matching ls (entries n)) (matching ls (gentries n)) sl ql"
  using assms
proof (induction ls arbitrary: n topic acc)
  case Nil
  then have t: "topic = []" using levels_step(2) by blast
  obtain a b d where acc: "acc = (a, b, d)" by (cases acc)
  have "wf_content (here n)" using Nil by (simp add: wf_snode_iff [of n])
  from matchQos_ok [OF this, of qos a b d "[]"] show ?case
    by (auto simp: smatch.simps [of n] t acc matches_Nil_iff entries_here gentries_here)
next
  case (Cons l ls)
  then have t: "topic \<noteq> []" by auto
  obtain r where n: "nextTopicLevel topic = (l, r, None)" "levels r = Some ls"
    using Cons.prems(2) levels_step(1) [OF t] by blast
  have wf: "\<forall>kn \<in> set (snodes n). wf_snode (snd kn)" using Cons.prems(1) by (simp add: wf_snode_iff [of n])
  have "matching (l # ls) (entries n) = matching (l # ls) (child_entries (snodes n))"
    "matching (l # ls) (gentries n) = matching (l # ls) (child_gentries (snodes n))"
    by (cases n; simp add: filter_map comp_def)+
  moreover have "smatch n topic qos acc = smatch_nodes (snodes n) l r qos acc"
    using t n by (simp add: smatch.simps [of n])
  moreover have "\<exists>sl ql ds. smatch_nodes (snodes n) l r qos acc = Some (more acc sl ql ds, None)
      \<and> delivers qos (matching (l # ls) (child_entries (snodes n))) (matching (l # ls) (child_gentries (snodes n))) sl ql"
    by (rule smatch_nodes_delivers [OF Cons.IH [OF _ n(2)] wf]) (use wf in blast)
  ultimately show ?case by (simp only:)
qed

text \<open>Matching does not panic, whatever the topic.\<close>

lemma smatch_nodes_total:
  "(\<And>kn acc. kn \<in> set ns \<Longrightarrow> smatch (snd kn) rem qos acc \<noteq> None) \<Longrightarrow> \<forall>kn \<in> set ns. wf_snode (snd kn) \<Longrightarrow>
   smatch_nodes ns l rem qos acc \<noteq> None"
proof (induction ns arbitrary: acc)
  case (Cons kn ns)
  obtain k n where kn: "kn = (k, n)" by (cases kn)
  obtain a b d where acc: "acc = (a, b, d)" by (cases acc)
  have IH: "smatch_nodes ns l rem qos acc \<noteq> None" for acc
    by (rule Cons.IH) (use Cons.prems in simp_all)
  have "wf_content (here n)" using Cons.prems(2) kn by (simp add: wf_snode_iff [of n])
  from matchQos_ok [OF this, of qos a b d "[]"] obtain r1 where "matchQos n qos acc = Some r1" using acc by blast
  moreover obtain r2 e2 where "smatch n rem qos acc = Some (r2, e2)" using Cons.prems(1) [of kn acc] kn by auto
  ultimately show ?case using IH kn by (cases r2) simp
qed simp

lemma smatch_total: "wf_snode n \<Longrightarrow> smatch n topic qos acc \<noteq> None"
proof (induction "length topic" arbitrary: n topic acc rule: less_induct)
  case less
  obtain a b d where acc: "acc = (a, b, d)" by (cases acc)
  obtain l r e where r: "nextTopicLevel topic = (l, r, e)" by (cases "nextTopicLevel topic") auto
  show ?case
  proof (cases "topic = []")
    case True
    have "wf_content (here n)" using less.prems by (simp add: wf_snode_iff [of n])
    from matchQos_ok [OF this, of qos a b d "[]"] True acc show ?thesis by (auto simp: smatch.simps [of n])
  next
    case False
    have "smatch_nodes (snodes n) l r qos acc \<noteq> None" if "e = None"
    proof (rule smatch_nodes_total)
      have "length r < length topic" using nextTopicLevel_shorter [of topic l r] r False that by simp
      then show "smatch (snd kn) r qos acc \<noteq> None" if "kn \<in> set (snodes n)" for kn acc
        using less.hyps less.prems that by (simp add: wf_snode_iff [of n])
    qed (use less.prems in \<open>simp add: wf_snode_iff [of n]\<close>)
    with False r acc show ?thesis by (auto simp: smatch.simps [of n] split: option.split)
  qed
qed

section \<open>Entries and contents\<close>

text \<open>The subscriptions of a tree are those stored under the levels, read level by level.\<close>

lemma entries_content:
  "wf_snode n \<Longrightarrow> (p, s, q) \<in> set (entries n) \<longleftrightarrow>
     (s, q) \<in> set (zip (fst (content_at n p)) (fst (snd (content_at n p))))"
proof (induction p arbitrary: n)
  case Nil
  then show ?case by (cases n) auto
next
  case (Cons k p)
  obtain ss gs qs ns where n: "n = SNode ss gs qs ns" by (cases n) auto
  have d: "distinct (map fst ns)" using Cons.prems n by simp
  show ?case
  proof (cases "map_of ns k")
    case None
    then have "\<And>m. (k, m) \<notin> set ns" by (force simp: map_of_eq_None_iff)
    with None n show ?thesis by (auto simp: child_paths_mem here_path_mem simp del: set_concat set_map)
  next
    case (Some m)
    then have m: "(k, m) \<in> set ns" by (rule map_of_SomeD)
    then have wf: "wf_snode m" using Cons.prems n by auto
    have "(k # p, s, q) \<in> set (entries n) \<longleftrightarrow> (p, s, q) \<in> set (entries m)"
      unfolding n using child_unique [OF d Some] by (auto simp: child_paths_mem here_path_mem simp del: set_concat set_map)
    with Cons.IH [OF wf] Some n show ?thesis by simp
  qed
qed

lemma gentries_content:
  "wf_snode n \<Longrightarrow> (p, l) \<in> set (gentries n) \<longleftrightarrow> l \<in> snd ` set (snd (snd (content_at n p)))"
proof (induction p arbitrary: n)
  case Nil
  then show ?case by (cases n) (auto simp: image_iff)
next
  case (Cons k p)
  obtain ss gs qs ns where n: "n = SNode ss gs qs ns" by (cases n) auto
  have d: "distinct (map fst ns)" using Cons.prems n by simp
  show ?case
  proof (cases "map_of ns k")
    case None
    then have "\<And>m. (k, m) \<notin> set ns" by (force simp: map_of_eq_None_iff)
    with None n show ?thesis by (auto simp: child_paths_mem here_path_mem simp del: set_concat set_map)
  next
    case (Some m)
    then have m: "(k, m) \<in> set ns" by (rule map_of_SomeD)
    then have wf: "wf_snode m" using Cons.prems n by auto
    have "(k # p, l) \<in> set (gentries n) \<longleftrightarrow> (p, l) \<in> set (gentries m)"
      unfolding n using child_unique [OF d Some] by (auto simp: child_paths_mem here_path_mem simp del: set_concat set_map)
    with Cons.IH [OF wf] Some n show ?thesis by simp
  qed
qed

text \<open>
  Who is handed a publication: subscribers stored under a matching filter, with the smaller QoS, and
  members of a group stored under a matching filter.
\<close>

lemma delivers_sound:
  assumes "delivers qos es gs sl ql" and "(s, q) \<in> set (zip sl ql)"
  shows "(\<exists>p q'. (p, s, q') \<in> set es \<and> q = min qos q') \<or> (\<exists>g \<in> set gs. s \<in> set (snd g) \<and> q = 1)"
proof -
  from assms(1) obtain ps where ps: "mset (zip sl ql) = mset (map (\<lambda>(p, s, q). (s, min qos q)) es) + mset (map (\<lambda>s. (s, 1)) ps)"
    "list_all2 (\<lambda>s g. s \<in> set (snd g)) ps gs" by (auto simp: delivers_def)
  from assms(2) have "(s, q) \<in># mset (zip sl ql)" by simp
  then have "(s, q) \<in> set (map (\<lambda>(p, s, q). (s, min qos q)) es) \<or> (s, q) \<in> set (map (\<lambda>s. (s, 1)) ps)"
    unfolding ps(1) by auto
  then show ?thesis
  proof
    assume "(s, q) \<in> set (map (\<lambda>s. (s, 1)) ps)"
    then obtain i where "i < length ps" "ps ! i = s" "q = 1" by (auto simp: in_set_conv_nth)
    with ps(2) show ?thesis by (auto simp: list_all2_conv_all_nth)
  qed auto
qed

lemma delivers_complete:
  assumes "delivers qos es gs sl ql" and "(p, s, q) \<in> set es"
  shows "(s, min qos q) \<in> set (zip sl ql)"
proof -
  from assms(1) obtain ps where
    "mset (zip sl ql) = mset (map (\<lambda>(p, s, q). (s, min qos q)) es) + mset (map (\<lambda>s. (s, 1)) ps)"
    by (auto simp: delivers_def)
  then have z: "set (zip sl ql) = set (map (\<lambda>(p, s, q). (s, min qos q)) es) \<union> set (map (\<lambda>s. (s, 1)) ps)"
    by (simp only: set_mset_mset [symmetric] set_mset_union)
  have "(s, min qos q) \<in> (\<lambda>(p, s, q). (s, min qos q)) ` set es" by (rule image_eqI [OF _ assms(2)]) simp
  with z show ?thesis by simp
qed

lemma delivers_group:
  assumes "delivers qos es gs sl ql" and "g \<in> set gs"
  shows "\<exists>s \<in> set (snd g). (s, 1) \<in> set (zip sl ql)"
proof -
  from assms(1) obtain ps where ps: "list_all2 (\<lambda>s g. s \<in> set (snd g)) ps gs"
    "mset (zip sl ql) = mset (map (\<lambda>(p, s, q). (s, min qos q)) es) + mset (map (\<lambda>s. (s, 1)) ps)"
    by (auto simp: delivers_def)
  then have z: "set (zip sl ql) = set (map (\<lambda>(p, s, q). (s, min qos q)) es) \<union> set (map (\<lambda>s. (s, 1)) ps)"
    by (simp only: set_mset_mset [symmetric] set_mset_union)
  from assms(2) obtain i where "i < length gs" "gs ! i = g" by (auto simp: in_set_conv_nth)
  with ps(1) have "ps ! i \<in> set ps" "ps ! i \<in> set (snd g)" by (auto simp: list_all2_conv_all_nth)
  with z show ?thesis by auto
qed

end
