(* ===== verification/Header.thy ===== *)
theory Header
  imports Message_Basics
begin

text \<open>
  \<open>src/utils/surgemq/message/header.go\<close>: the fixed header that every packet embeds.  The Go struct
  \<open>header\<close> is a \<^theory_text>\<open>record\<close>, and a packet that embeds it is a record that extends it.

  After \<open>decode\<close> the fields \<open>mtypeflags\<close> and \<open>packetId\<close> are sub-slices of the decoding buffer
  \<open>dbuf\<close>, and setters write through them into that buffer.  \<open>bview\<close> keeps this: a view is either
  memory of its own or a window on \<open>dbuf\<close>.
\<close>

section \<open>State\<close>

datatype bview = Own bytes | InDbuf nat nat

fun view_bytes :: "gslice \<Rightarrow> bview \<Rightarrow> bytes" where
  "view_bytes d (Own bs) = bs"
| "view_bytes d (InDbuf a n) = take n (drop a (sl_arr d))"

fun view_write :: "gslice \<Rightarrow> bview \<Rightarrow> bytes \<Rightarrow> gslice \<times> bview" where
  "view_write d (Own _) bs = (d, Own bs)"
| "view_write d (InDbuf a n) bs =
     (d\<lparr>sl_arr := take a (sl_arr d) @ bs @ drop (a + length bs) (sl_arr d)\<rparr>, InDbuf a n)"

record header =
  remlen :: int
  mtypeflags :: bview
  packetId :: bview
  dbuf :: gslice
  dirty :: bool

text \<open>The zero value of the struct.\<close>

definition header0 :: header where
  "header0 = \<lparr>remlen = 0, mtypeflags = Own [], packetId = Own [], dbuf = slice_of [], dirty = False\<rparr>"

abbreviation mtypeflags_bytes :: "'a header_scheme \<Rightarrow> bytes" where
  "mtypeflags_bytes h \<equiv> view_bytes (dbuf h) (mtypeflags h)"

abbreviation packetId_bytes :: "'a header_scheme \<Rightarrow> bytes" where
  "packetId_bytes h \<equiv> view_bytes (dbuf h) (packetId h)"

text \<open>\<open>this.mtypeflags[0] = b\<close> and a write of both bytes of \<open>this.packetId\<close>.\<close>

definition write_mtypeflags :: "'a header_scheme \<Rightarrow> byte \<Rightarrow> 'a header_scheme" where
  "write_mtypeflags h b =
     (let (d, v) = view_write (dbuf h) (mtypeflags h) [b] in h\<lparr>dbuf := d, mtypeflags := v\<rparr>)"

definition write_packetId :: "'a header_scheme \<Rightarrow> bytes \<Rightarrow> 'a header_scheme" where
  "write_packetId h bs =
     (let (d, v) = view_write (dbuf h) (packetId h) bs in h\<lparr>dbuf := d, packetId := v\<rparr>)"

text \<open>
  \<open>this.dbuf = src\<close>: the slices \<open>mtypeflags\<close> and \<open>packetId\<close> keep showing the memory they showed
  before.
\<close>

definition assign_dbuf :: "'a header_scheme \<Rightarrow> gslice \<Rightarrow> 'a header_scheme" where
  "assign_dbuf h src =
     h\<lparr>mtypeflags := Own (mtypeflags_bytes h), packetId := Own (packetId_bytes h), dbuf := src\<rparr>"

section \<open>Operations\<close>

definition ensure_mtypeflags :: "'a header_scheme \<Rightarrow> 'a header_scheme" where
  "ensure_mtypeflags h =
     (if length (mtypeflags_bytes h) \<noteq> 1 then h\<lparr>mtypeflags := Own [0], dirty := True\<rparr> else h)"

definition Type :: "'a header_scheme \<Rightarrow> MessageType \<times> 'a header_scheme" where
  "Type this = (let this = ensure_mtypeflags this in (drop_bit 4 (mtypeflags_bytes this ! 0), this))"

definition SetType :: "'a header_scheme \<Rightarrow> MessageType \<Rightarrow> 'a header_scheme \<times> error option" where
  "SetType this mtype =
     (if \<not> MessageType_Valid mtype then
        (this, Some (Errorf ''header/SetType: Invalid control packet type %d'' [FInt (uint mtype)]))
      else
        (write_mtypeflags (ensure_mtypeflags this)
           (push_bit 4 mtype OR (DefaultFlags mtype AND 0xF)), None))"

definition Flags :: "'a header_scheme \<Rightarrow> byte option" where
  "Flags this =
     (if mtypeflags_bytes this = [] then None else Some (mtypeflags_bytes this ! 0 AND 0x0F))"

definition RemainingLength :: "'a header_scheme \<Rightarrow> int" where
  "RemainingLength this = remlen this"

definition SetRemainingLength :: "'a header_scheme \<Rightarrow> int \<Rightarrow> 'a header_scheme \<times> error option" where
  "SetRemainingLength this n =
     (if maxRemainingLength < n \<or> n < 0 then
        (this, Some (Errorf ''header/SetLength: Remaining length (%d) out of bound (max %d, min 0)''
                       [FInt n, FInt maxRemainingLength]))
      else (this\<lparr>remlen := n, dirty := True\<rparr>, None))"

definition header_msglen :: "'a header_scheme \<Rightarrow> int" where
  "header_msglen this =
     (let total = 1 in
      if remlen this \<le> 127 then total + 1
      else if remlen this \<le> 16383 then total + 2
      else if remlen this \<le> 2097151 then total + 3
      else total + 4)"

definition PacketId :: "'a header_scheme \<Rightarrow> uint16" where
  "PacketId this =
     (if length (packetId_bytes this) = 2
      then be_word (packetId_bytes this ! 0) (packetId_bytes this ! 1) else 0)"

definition ClearPacketId :: "'a header_scheme \<Rightarrow> 'a header_scheme" where
  "ClearPacketId this =
     (if length (packetId_bytes this) = 2 then write_packetId this [0, 0] else this)"

definition SetPacketId :: "'a header_scheme \<Rightarrow> uint16 \<Rightarrow> 'a header_scheme" where
  "SetPacketId this v =
     (if v = 0 then this
      else
        (let this = (if length (packetId_bytes this) \<noteq> 2
                     then this\<lparr>packetId := Own [0, 0], dirty := True\<rparr> else this)
         in write_packetId this (be_bytes v)))"

definition header_encode ::
    "'a header_scheme \<Rightarrow> gslice \<Rightarrow> ('a header_scheme \<times> gslice \<times> int \<times> error option) option" where
  "header_encode this dst =
     (let ml = header_msglen this in
      if go_len dst < ml then
        Some (this, dst, 0, Some (Errorf ''header/Encode: Insufficient buffer size. Expecting %d, got %d.''
                                    [FInt ml, FInt (go_len dst)]))
      else if maxRemainingLength < remlen this \<or> remlen this < 0 then
        Some (this, dst, 0, Some (Errorf ''header/Encode: Remaining length (%d) out of bound (max %d, min 0)''
                                    [FInt (remlen this), FInt maxRemainingLength]))
      else
        (let (mtype, this) = Type this in
         if \<not> MessageType_Valid mtype then
           Some (this, dst, 0, Some (Errorf ''header/Encode: Invalid message type %d'' [FInt (uint mtype)]))
         else do {
           dst \<leftarrow> slice_set dst 0 (mtypeflags_bytes this ! 0);
           t \<leftarrow> slice_from dst 1;
           (t, n) \<leftarrow> PutUvarint t (word_of_int (remlen this));
           Some (this, slice_join dst 1 t, 1 + n, None)
         }))"

definition header_decode ::
    "'a header_scheme \<Rightarrow> gslice \<Rightarrow> ('a header_scheme \<times> int \<times> error option) option" where
  "header_decode this src =
     (let this = assign_dbuf this src;
          (mtype, this) = Type this
      in do {
        _ \<leftarrow> slice_range src 0 1;
        let this = this\<lparr>mtypeflags := InDbuf 0 1\<rparr>;
        let (t, this) = Type this;
        if \<not> MessageType_Valid t then
          Some (this, 0, Some (Errorf ''header/Decode: Invalid message type %d.'' [FInt (uint mtype)]))
        else if mtype \<noteq> t then
          Some (this, 0, Some (Errorf ''header/Decode: Invalid message type %d. Expecting %d.''
                                 [FInt (uint t), FInt (uint mtype)]))
        else do {
          flags \<leftarrow> Flags this;
          if t \<noteq> PUBLISH \<and> flags \<noteq> DefaultFlags t then
            Some (this, 0, Some (Errorf ''header/Decode: Invalid message (%d) flags. Expecting %d, got %d''
                                   [FInt (uint t), FInt (uint (DefaultFlags t)), FInt (uint flags)]))
          else if t = PUBLISH \<and> \<not> ValidQos (drop_bit 1 flags AND 3) then
            Some (this, 0, Some (Errorf ''header/Decode: Invalid QoS (%d) for PUBLISH message.''
                                   [FInt (uint (drop_bit 1 flags AND 3))]))
          else do {
            t1 \<leftarrow> slice_from src 1;
            let (rl, m) = Uvarint t1;
            let total = 1 + m;
            let this = this\<lparr>remlen := int32 (uint rl)\<rparr>;
            if maxRemainingLength < remlen this then
              Some (this, total, Some (Errorf ''header/Decode: Remaining length (%d) out of bound (max %d, min 0)''
                                         [FInt (remlen this), FInt maxRemainingLength]))
            else do {
              r \<leftarrow> slice_from src total;
              if go_len r < remlen this then
                Some (this, total, Some (Errorf ''header/Decode: Remaining length (%d) is greater than remaining buffer (%d)''
                                           [FInt (remlen this), FInt (go_len r)]))
              else Some (this, total, None)
            }
          }
        }
      })"

section \<open>The type and the flags\<close>

text \<open>\<open>flag_byte h b\<close>: the first byte of the header is allocated and holds \<open>b\<close>.\<close>

abbreviation flag_byte :: "'a header_scheme \<Rightarrow> byte \<Rightarrow> bool" where
  "flag_byte h b \<equiv> mtypeflags_bytes h = [b]"

lemma Type_flag_byte: "flag_byte h b \<Longrightarrow> Type h = (drop_bit 4 b, h)"
  by (simp add: Type_def ensure_mtypeflags_def)

lemma Flags_flag_byte: "flag_byte h b \<Longrightarrow> Flags h = Some (b AND 0x0F)"
  by (simp add: Flags_def)

lemma ensure_mtypeflags_idem: "flag_byte h b \<Longrightarrow> ensure_mtypeflags h = h"
  by (simp add: ensure_mtypeflags_def)

text \<open>The first byte of a packet of type \<open>t\<close> with its default flags.\<close>

definition type_byte :: "MessageType \<Rightarrow> byte" where
  "type_byte t = push_bit 4 t OR (DefaultFlags t AND 0xF)"

lemma DefaultFlags_low: "DefaultFlags t AND 0xF = DefaultFlags t"
  by (simp add: DefaultFlags_def)

lemma bit_15 [simp]: "bit (15 :: int) n \<longleftrightarrow> n < 4"
proof -
  have "(15 :: int) = mask 4" by (simp add: mask_eq_exp_minus_1)
  then show ?thesis by (simp only: bit_mask_iff) auto
qed

lemma valid_type_bits: "MessageType_Valid t \<Longrightarrow> bit t n \<Longrightarrow> n < 4"
proof -
  assume "MessageType_Valid t" and b: "bit t n"
  then have "unat t < 2 ^ 4" by (simp add: MessageType_Valid_iff)
  then have "unat (take_bit 4 t) = unat t"
    by (simp only: unsigned_take_bit_eq take_bit_nat_eq_self)
  then have "take_bit 4 t = t" by (rule unsigned_word_eqI)
  with b show "n < 4" by (metis bit_take_bit_iff)
qed

lemma type_byte_type: "MessageType_Valid t \<Longrightarrow> drop_bit 4 (type_byte t) = t"
  unfolding type_byte_def
  by (rule bit_word_eqI) (auto simp: bit_simps dest: valid_type_bits)

lemma type_byte_flags: "type_byte t AND 0x0F = DefaultFlags t"
proof -
  have "type_byte t AND 0x0F = DefaultFlags t AND 0xF"
    unfolding type_byte_def by (rule bit_word_eqI) (auto simp: bit_simps)
  then show ?thesis by (simp add: DefaultFlags_low)
qed

lemma SetType_spec:
  "MessageType_Valid t \<Longrightarrow> snd (SetType h t) = None \<and> flag_byte (fst (SetType h t)) (type_byte t)"
  by (cases "mtypeflags h")
     (auto simp: SetType_def write_mtypeflags_def ensure_mtypeflags_def type_byte_def Let_def
       min_def length_drop)

section \<open>Encoding and decoding the fixed header\<close>

text \<open>The bytes of a fixed header: the type byte and the remaining length as a varint.\<close>

definition header_bytes :: "byte \<Rightarrow> int \<Rightarrow> bytes" where
  "header_bytes b r = b # uvarint_bytes (word_of_int r)"

lemma unat_remlen: "0 \<le> r \<Longrightarrow> r \<le> maxRemainingLength \<Longrightarrow> unat (word_of_int r :: uint64) = nat r"
  by (simp add: unat_eq_nat_uint uint_word_of_int)

lemma length_header_bytes:
  assumes "0 \<le> remlen h" and "remlen h \<le> maxRemainingLength"
  shows "int (length (header_bytes b (remlen h))) = header_msglen h"
  using assms length_uvarint_bytes [of "word_of_int (remlen h)"]
  by (simp add: header_bytes_def header_msglen_def unat_remlen nat_le_iff)

lemma header_msglen_pos: "2 \<le> header_msglen h" "header_msglen h \<le> 5"
  by (simp_all add: header_msglen_def)

lemma header_msglen_cong: "remlen h = remlen h' \<Longrightarrow> header_msglen h = header_msglen h'"
  by (simp add: header_msglen_def)

lemma header_encode_ok:
  assumes fb: "flag_byte h b" and t: "MessageType_Valid (drop_bit 4 b)"
    and r: "0 \<le> remlen h" "remlen h \<le> maxRemainingLength"
    and dst: "header_msglen h \<le> go_len dst" "wf_slice dst"
  shows "header_encode h dst =
           Some (h, dst\<lparr>sl_arr := header_bytes b (remlen h)
                          @ drop (nat (header_msglen h)) (sl_arr dst)\<rparr>, header_msglen h, None)"
proof -
  let ?v = "word_of_int (remlen h) :: uint64"
  have len: "int (length (uvarint_bytes ?v)) + 1 = header_msglen h"
    using length_header_bytes [OF r, of b] by (simp add: header_bytes_def)
  obtain x xs where arr: "sl_arr dst = x # xs"
    using dst header_msglen_pos(1) [of h] by (cases "sl_arr dst") (auto simp: wf_slice_def go_len_def)
  define t where "t = \<lparr>sl_len = sl_len dst - 1, sl_arr = xs\<rparr>"
  have "PutUvarint t ?v = Some (t\<lparr>sl_arr := uvarint_bytes ?v @ drop (length (uvarint_bytes ?v)) xs\<rparr>,
                                int (length (uvarint_bytes ?v)))"
    using PutUvarint_fits [of ?v t] len dst arr by (simp add: t_def wf_slice_def go_len_def)
  moreover have "nat (header_msglen h) = Suc (length (uvarint_bytes ?v))"
    using len by linarith
  ultimately show ?thesis
    using dst r t arr header_msglen_pos(1) [of h] len
    by (auto simp: header_encode_def Let_def Type_flag_byte [OF fb] fb slice_set_def slice_from_def
        go_len_def slice_join_def header_bytes_def t_def)
qed

text \<open>The flag bits a decoder accepts: the defaults, or a valid QoS in a PUBLISH.\<close>

definition flags_ok :: "byte \<Rightarrow> bool" where
  "flags_ok b \<longleftrightarrow>
     (let t = drop_bit 4 b in
      if t = PUBLISH then ValidQos (drop_bit 1 (b AND 0x0F) AND 3) else b AND 0x0F = DefaultFlags t)"

lemma flags_ok_type_byte: "MessageType_Valid t \<Longrightarrow> flags_ok (type_byte t)"
  by (simp add: flags_ok_def type_byte_type type_byte_flags DefaultFlags_def ValidQos_def)

text \<open>The header after a successful \<open>decode\<close> of \<open>src\<close> with remaining length \<open>r\<close>.\<close>

definition decoded :: "'a header_scheme \<Rightarrow> gslice \<Rightarrow> int \<Rightarrow> 'a header_scheme" where
  "decoded h src r = (assign_dbuf h src)\<lparr>mtypeflags := InDbuf 0 1, remlen := r\<rparr>"

lemma uint_remlen: "0 \<le> r \<Longrightarrow> r \<le> maxRemainingLength \<Longrightarrow> uint (word_of_int r :: uint64) = r"
  by (simp add: uint_word_of_int)

lemma header_decode_ok:
  assumes fb: "flag_byte h b0" and bt: "drop_bit 4 b = drop_bit 4 b0"
    and t: "MessageType_Valid (drop_bit 4 b)" and fl: "flags_ok b"
    and r: "0 \<le> r" "r \<le> maxRemainingLength"
    and src: "sl_arr src = header_bytes b r @ rest" "int (length (header_bytes b r)) + r \<le> go_len src"
      "wf_slice src"
  shows "header_decode h src = Some (decoded h src r, int (length (header_bytes b r)), None)"
proof -
  let ?v = "word_of_int r :: uint64"
  let ?n = "int (length (uvarint_bytes ?v))"
  have len: "1 + ?n + r \<le> go_len src"
    using src(2) by (simp add: header_bytes_def)
  then have n1: "Suc (length (uvarint_bytes ?v)) \<le> sl_len src" using r by (simp add: go_len_def)
  define t1 where "t1 = \<lparr>sl_len = sl_len src - 1, sl_arr = uvarint_bytes ?v @ rest\<rparr>"
  have "slice_bytes t1 = uvarint_bytes ?v @ take (sl_len src - 1 - length (uvarint_bytes ?v)) rest"
    using n1 by (simp add: t1_def slice_bytes_def)
  then have uv: "Uvarint t1 = (?v, ?n)" by (rule Uvarint_PutUvarint)
  define h1 where "h1 = (assign_dbuf h src)\<lparr>mtypeflags := InDbuf 0 1\<rparr>"
  have h1: "flag_byte h1 b"
    using src(1) by (simp add: h1_def assign_dbuf_def header_bytes_def)
  have a: "flag_byte (assign_dbuf h src) b0" using fb by (simp add: assign_dbuf_def)
  have "slice_range src 0 1 \<noteq> None" using src(1) by (simp add: slice_range_def go_cap_def header_bytes_def)
  moreover have "slice_from src 1 = Some t1"
    using src(1) n1 by (simp add: slice_from_def go_len_def t1_def header_bytes_def)
  moreover obtain s' where "slice_from src (1 + ?n) = Some s'" "go_len s' = go_len src - (1 + ?n)"
    using n1 by (simp add: slice_from_def go_len_def of_nat_diff nat_add_distrib)
  ultimately show ?thesis
    using fl len r t bt
    by (auto simp: header_decode_def Let_def Type_flag_byte [OF a] h1_def [symmetric]
        Type_flag_byte [OF h1] Flags_flag_byte [OF h1] uv uint_remlen flags_ok_def decoded_def
        header_bytes_def simp del: One_nat_def split: if_splits)
qed

end
