(* ===== verification/Packet_Common.thy ===== *)
theory Packet_Common
  imports Header
begin

text \<open>
  The pieces of code that the packets of \<open>src/utils/surgemq/message\<close> repeat: the length of a packet,
  re-encoding an unchanged packet from its decoding buffer, drawing a packet identifier from the
  package's counter \<open>gPacketId\<close>, and writing the identifier of an acknowledgement.
\<close>

section \<open>Operations\<close>

text \<open>The body of every \<open>Len()\<close>, with the packet's own \<open>msglen()\<close> as \<open>ml\<close>.\<close>

definition packet_Len :: "int \<Rightarrow> 'a header_scheme \<Rightarrow> int \<times> 'a header_scheme" where
  "packet_Len ml this =
     (if \<not> dirty this then (go_len (dbuf this), this)
      else
        (let (this, err) = SetRemainingLength this (int32 ml)
         in if err \<noteq> None then (0, this) else (header_msglen this + ml, this)))"

text \<open>The branch \<open>if !this.dirty\<close> of every \<open>Encode\<close>: the decoding buffer is copied as it is.\<close>

definition encode_clean ::
    "string \<Rightarrow> 'a header_scheme \<Rightarrow> gslice \<Rightarrow> ('a header_scheme \<times> gslice \<times> int \<times> error option) option" where
  "encode_clean what this dst =
     (if go_len dst < go_len (dbuf this) then
        Some (this, dst, 0, Some (Errorf (what @ ''/Encode: Insufficient buffer size. Expecting %d, got %d.'')
                                    [FInt (go_len (dbuf this)), FInt (go_len dst)]))
      else (let (dst, n) = slice_copy dst (slice_bytes (dbuf this)) in Some (this, dst, n, None)))"

text \<open>
  \<open>v := uint16(atomic.AddUint64(&gPacketId, 1) & 0xffff)\<close>, drawn again when it is 0, and
  \<open>SetPacketId(v)\<close>.
\<close>

definition next_packetId :: "uint64 \<Rightarrow> uint16 \<times> uint64" where
  "next_packetId g =
     (let g = g + 1; v = ucast (g AND 0xffff) :: uint16
      in if v = 0 then (let g = g + 1 in (ucast (g AND 0xffff), g)) else (v, g))"

definition assign_packetId :: "'a header_scheme \<Rightarrow> uint64 \<Rightarrow> 'a header_scheme \<times> uint64" where
  "assign_packetId this g =
     (if PacketId this = 0 then (let (v, g) = next_packetId g in (SetPacketId this v, g))
      else (this, g))"

text \<open>
  \<open>if copy(dst[total:total+2], this.packetId) != 2 { dst[total], dst[total+1] = 0, 0 }\<close>.
\<close>

definition put_packetId :: "gslice \<Rightarrow> int \<Rightarrow> bytes \<Rightarrow> gslice option" where
  "put_packetId dst tot pid =
     do { t \<leftarrow> slice_range dst tot (tot + 2);
          let (t, n) = slice_copy t pid;
          let dst = slice_join dst tot t;
          if n \<noteq> 2 then do { dst \<leftarrow> slice_set dst tot 0; slice_set dst (tot + 1) 0 }
          else Some dst }"

text \<open>\<open>writeLPBytes(dst[tot:], b)\<close>, \<open>copy(dst[tot:], bs)\<close> and \<open>readLPBytes(src[tot:])\<close>.\<close>

definition writeLP_at :: "gslice \<Rightarrow> int \<Rightarrow> bytes \<Rightarrow> (gslice \<times> int \<times> error option) option" where
  "writeLP_at dst tot b =
     do { t \<leftarrow> slice_from dst tot; (t, n, err) \<leftarrow> writeLPBytes t b; Some (slice_join dst tot t, n, err) }"

definition copy_at :: "gslice \<Rightarrow> int \<Rightarrow> bytes \<Rightarrow> (gslice \<times> int) option" where
  "copy_at dst tot bs =
     do { t \<leftarrow> slice_from dst tot; let (t, n) = slice_copy t bs; Some (slice_join dst tot t, n) }"

definition readLP_at :: "gslice \<Rightarrow> int \<Rightarrow> (bytes \<times> int \<times> error option) option" where
  "readLP_at src tot = do { t \<leftarrow> slice_from src tot; readLPBytes t }"

text \<open>
  The identifier of a packet that needs one: drawn when the packet has none, then
  \<open>total += copy(dst[total:], this.packetId)\<close>.
\<close>

definition put_new_packetId ::
    "'a header_scheme \<Rightarrow> gslice \<Rightarrow> int \<Rightarrow> uint64 \<Rightarrow> ('a header_scheme \<times> gslice \<times> int \<times> uint64) option" where
  "put_new_packetId this dst tot g =
     (let (this, g) = assign_packetId this g in
      do { (dst, n) \<leftarrow> copy_at dst tot (packetId_bytes this);
           Some (this, dst, tot + n, g) })"

section \<open>Facts\<close>

text \<open>
  A buffer of length \<open>n\<close> whose first bytes \<open>pre\<close> are written and whose remaining bytes are \<open>rest\<close>:
  the state of an encoder between two writes.
\<close>

definition filled :: "nat \<Rightarrow> bytes \<Rightarrow> bytes \<Rightarrow> gslice" where
  "filled n pre rest = \<lparr>sl_len = n, sl_arr = pre @ rest\<rparr>"

lemma filled_fill:
  "filled (sl_len dst) pre (drop (length pre) (sl_arr dst)) = fill dst pre"
  by (cases dst) (simp add: filled_def)

lemma writeLP_at_filled [slice_simps]:
  assumes "tot = int (length pre)" and "length b \<le> 65535"
    and "length pre + (2 + length b) \<le> n" and "n \<le> length pre + length rest"
  shows "writeLP_at (filled n pre rest) tot b =
           Some (filled n (pre @ lp_bytes b) (drop (2 + length b) rest), 2 + int (length b), None)"
  using assms writeLPBytes_lp [of b "\<lparr>sl_len = n - length pre, sl_arr = rest\<rparr>"]
  by (simp add: writeLP_at_def filled_def slice_simps wf_slice_def)

lemma copy_at_filled [slice_simps]:
  assumes "tot = int (length pre)" and "length pre + length bs \<le> n"
  shows "copy_at (filled n pre rest) tot bs =
           Some (filled n (pre @ bs) (drop (length bs) rest), int (length bs))"
  using assms slice_copy_fit [of bs "\<lparr>sl_len = n - length pre, sl_arr = rest\<rparr>"]
  by (simp add: copy_at_def filled_def slice_simps)

lemma slice_set_filled [slice_simps]:
  assumes "tot = int (length pre)" and "length pre < n" and "n \<le> length pre + length rest"
  shows "slice_set (filled n pre rest) tot c = Some (filled n (pre @ [c]) (drop 1 rest))"
  using assms by (cases rest) (simp_all add: slice_set_def filled_def go_len_def)

lemma readLP_at_app:
  assumes "sl_arr src = pre @ lp_bytes b @ rest" and "tot = int (length pre)" and "length b \<le> 65535"
    and "length pre + (2 + length b) \<le> sl_len src"
  shows "readLP_at src tot = Some (b, 2 + int (length b), None)"
  using assms readLPBytes_lp [of b "sl_len src - length pre" rest]
  by (cases src) (simp add: readLP_at_def slice_simps)


text \<open>
  A packet that is ready to be sent: changed since it was last decoded, of a valid type, with
  a body of at most 268435455 bytes.
\<close>

definition sendable :: "byte \<Rightarrow> int \<Rightarrow> 'a header_scheme \<Rightarrow> bool" where
  "sendable b ml h \<longleftrightarrow>
     dirty h \<and> flag_byte h b \<and> MessageType_Valid (drop_bit 4 b) \<and> flags_ok b
     \<and> 0 \<le> ml \<and> ml \<le> maxRemainingLength"

lemma SetRemainingLength_ok:
  "0 \<le> n \<Longrightarrow> n \<le> maxRemainingLength \<Longrightarrow>
   SetRemainingLength h n = (h\<lparr>remlen := n, dirty := True\<rparr>, None)"
  by (simp add: SetRemainingLength_def)

lemma packet_Len_sendable:
  assumes "sendable b ml h"
  shows "packet_Len ml h = (int (length (header_bytes b ml)) + ml, h\<lparr>remlen := ml\<rparr>)"
proof -
  have "h\<lparr>remlen := ml, dirty := True\<rparr> = h\<lparr>remlen := ml\<rparr>"
    using assms by (cases h) (simp add: sendable_def)
  with assms length_header_bytes [of "h\<lparr>remlen := ml\<rparr>" b] show ?thesis
    by (simp add: packet_Len_def sendable_def SetRemainingLength_ok header_msglen_def)
qed

lemma PacketId_be: "packetId_bytes h = be_bytes v \<Longrightarrow> PacketId h = v"
  by (simp add: PacketId_def be_bytes_def)

lemma SetRemainingLength_same:
  assumes "sendable b ml h" and "remlen h = ml"
  shows "SetRemainingLength h (int32 ml) = (h, None)"
proof -
  have "h\<lparr>remlen := ml, dirty := True\<rparr> = h"
    using assms by (cases h) (simp add: sendable_def)
  with assms show ?thesis by (simp add: sendable_def SetRemainingLength_ok)
qed

lemma header_encode_sendable:
  assumes "sendable b ml h" and "remlen h = ml" and "wf_slice dst"
    and "int (length (header_bytes b ml)) \<le> go_len dst"
  shows "header_encode h dst =
           Some (h, filled (sl_len dst) (header_bytes b ml)
                      (drop (length (header_bytes b ml)) (sl_arr dst)),
                 int (length (header_bytes b ml)), None)"
proof -
  have "header_msglen h = int (length (header_bytes b ml))"
    using assms length_header_bytes [of h b] by (simp add: sendable_def)
  with assms header_encode_ok [of h b dst] show ?thesis
    by (simp add: sendable_def filled_fill)
qed

lemma header_msglen_sendable:
  "sendable b ml h \<Longrightarrow> remlen h = ml \<Longrightarrow> header_msglen h = int (length (header_bytes b ml))"
  using length_header_bytes [of h b] by (simp add: sendable_def)

text \<open>Decoding the header of a packet that \<open>sendable\<close> allows, into a message of the same type.\<close>

lemma header_decode_sendable:
  assumes "sendable b ml h" and "flag_byte h0 b0" and "drop_bit 4 b0 = drop_bit 4 b"
    and "sl_arr src = header_bytes b ml @ rest" and "wf_slice src"
    and "int (length (header_bytes b ml)) + ml \<le> go_len src"
  shows "header_decode h0 src = Some (decoded h0 src ml, int (length (header_bytes b ml)), None)"
  using assms by (intro header_decode_ok [where ?b0.0 = b0 and rest = rest]) (auto simp: sendable_def)

lemma sendable_remlen [simp]: "sendable b ml (h\<lparr>remlen := r\<rparr>) = sendable b ml h"
  by (simp add: sendable_def)

lemma unat_low16: "unat (ucast (x AND 0xffff :: uint64) :: uint16) = unat x mod 65536"
proof -
  have "(0xffff :: uint64) = mask 16" by (simp add: mask_eq_exp_minus_1)
  then have "x AND 0xffff = take_bit 16 x" by (simp only: take_bit_eq_mask)
  then show ?thesis by (simp add: unsigned_ucast_eq unsigned_take_bit_eq del: take_bit_eq_mod)
      (simp add: take_bit_eq_mod)
qed

lemma next_packetId_nonzero: "fst (next_packetId g) \<noteq> 0"
proof -
  have "unat (x + 1) mod 65536 = (unat x + 1) mod 65536" for x :: uint64
    by (simp add: unat_word_ariths mod_mod_cancel)
  then have "unat (x + 1) mod 65536 = 1" if "unat x mod 65536 = 0" for x :: uint64
    using that by (simp add: mod_Suc)
  then have "ucast ((x + 1) AND 0xffff) \<noteq> (0 :: uint16)"
    if "ucast (x AND 0xffff :: uint64) = (0 :: uint16)" for x
    using that by (metis unat_low16 unsigned_0 zero_neq_one)
  from this [of "g + 1"] show ?thesis
    by (simp add: next_packetId_def Let_def add.assoc add.commute)
qed

text \<open>
  The windows on the decoding buffer do not overlap, so that setting the packet identifier keeps the
  first byte.
\<close>

definition views_ok :: "'a header_scheme \<Rightarrow> bool" where
  "views_ok h =
     (case (mtypeflags h, packetId h) of (InDbuf a n, InDbuf a' n') \<Rightarrow> a + n \<le> a' | _ \<Rightarrow> True)"

lemma PacketId_nonzero_bytes:
  assumes "PacketId h \<noteq> 0"
  shows "packetId_bytes h = be_bytes (PacketId h)"
proof -
  have "length (packetId_bytes h) = Suc (Suc 0)" using assms by (simp add: PacketId_def split: if_splits)
  then obtain x y where "packetId_bytes h = [x, y]" by (auto simp: length_Suc_conv)
  then show ?thesis by (simp add: PacketId_def)
qed

lemma view_bytes_write:
  assumes "view_write d v bs = (d', v')" and "length (view_bytes d v) = length bs"
  shows "view_bytes d' v' = bs"
  using assms by (cases v) (auto simp: min_def split: if_splits)

lemma SetPacketId_PacketId:
  assumes "v \<noteq> 0"
  shows "PacketId (SetPacketId h v) = v"
proof (rule PacketId_be)
  let ?h = "if length (packetId_bytes h) \<noteq> 2 then h\<lparr>packetId := Own [0, 0], dirty := True\<rparr> else h"
  obtain d w where w: "view_write (dbuf ?h) (packetId ?h) (be_bytes v) = (d, w)" by fastforce
  have "view_bytes d w = be_bytes v" by (rule view_bytes_write [OF w]) simp
  then show "packetId_bytes (SetPacketId h v) = be_bytes v"
    using assms w by (simp add: SetPacketId_def write_packetId_def Let_def)
qed

lemma SetPacketId_flag_byte:
  assumes "views_ok h" and "flag_byte h b"
  shows "flag_byte (SetPacketId h v) b"
proof (cases "mtypeflags h")
  case (Own bs)
  with assms show ?thesis by (simp add: SetPacketId_def write_packetId_def Let_def split: prod.split)
next
  case m: (InDbuf a0 n0)
  show ?thesis
  proof (cases "length (packetId_bytes h) \<noteq> 2 \<or> v = 0 \<or> (\<exists>bs. packetId h = Own bs)")
    case True
    with assms show ?thesis by (auto simp: SetPacketId_def write_packetId_def)
  next
    case False
    then obtain a n where p: "packetId h = InDbuf a n" by (cases "packetId h") auto
    obtain d w where w: "view_write (dbuf h) (InDbuf a n) (be_bytes v) = (d, w)" by fastforce
    have "a0 + n0 \<le> a" using assms m p by (simp add: views_ok_def)
    moreover have "a \<le> length (sl_arr (dbuf h))" using False p by (auto simp: min_def split: if_splits)
    ultimately have "take n0 (drop a0 (sl_arr d)) = take n0 (drop a0 (sl_arr (dbuf h)))"
      using w assms(2) m by (cases "dbuf h") (auto simp: take_drop min_def)
    with False p w m assms show ?thesis
      by (auto simp: SetPacketId_def write_packetId_def Let_def simp del: view_write.simps)
  qed
qed

lemma SetPacketId_views: "views_ok h \<Longrightarrow> views_ok (SetPacketId h v)"
  by (cases "packetId h") (auto simp: SetPacketId_def write_packetId_def views_ok_def Let_def split: bview.splits prod.splits)

lemma SetPacketId_frame [simp]:
  "remlen (SetPacketId h v) = remlen h" "header.more (SetPacketId h v) = header.more h"
  "dirty h \<Longrightarrow> dirty (SetPacketId h v)"
  by (simp_all add: SetPacketId_def write_packetId_def Let_def split: prod.split)

lemma assign_packetId_spec:
  assumes "assign_packetId h g = (h', g')"
  shows "PacketId h' \<noteq> 0" "PacketId h \<noteq> 0 \<Longrightarrow> h' = h \<and> g' = g"
    and "views_ok h \<Longrightarrow> flag_byte h b \<Longrightarrow> flag_byte h' b"
    and "remlen h' = remlen h" "dirty h \<Longrightarrow> dirty h'" "header.more h' = header.more h"
    and "views_ok h \<Longrightarrow> views_ok h'"
  using assms next_packetId_nonzero [of g]
  by (auto simp: assign_packetId_def SetPacketId_PacketId SetPacketId_flag_byte SetPacketId_views split: if_splits prod.splits)

lemma put_new_packetId_filled:
  assumes a: "assign_packetId m g = (m', g')" and n: "length pre + 2 \<le> n" and tot: "tot = int (length pre)"
  shows "put_new_packetId m (filled n pre rest) tot g =
           Some (m', filled n (pre @ be_bytes (PacketId m')) (drop 2 rest), int (length pre) + 2, g')"
proof -
  have "packetId_bytes m' = be_bytes (PacketId m')"
    by (rule PacketId_nonzero_bytes) (rule assign_packetId_spec(1) [OF a])
  with a n tot show ?thesis by (simp add: put_new_packetId_def copy_at_filled)
qed

lemma readLP_at_nonneg: "readLP_at src tot = Some (t, n, err) \<Longrightarrow> 0 \<le> n"
  by (auto simp: readLP_at_def readLPBytes_def Let_def bind_eq_Some_conv split: if_splits)

end
