(* ===== verification/Ack_Packets.thy ===== *)
theory Ack_Packets
  imports Packet_Common
begin

text \<open>
  The packets that are a fixed header and at most a packet identifier: \<open>puback.go\<close> with
  \<open>pubrec.go\<close>, \<open>pubrel.go\<close>, \<open>pubcomp.go\<close> and \<open>unsuback.go\<close>, whose structs embed
  \<open>PubackMessage\<close> and inherit its methods, and \<open>disconnect.go\<close> with \<open>pingreq.go\<close> and
  \<open>pingresp.go\<close>, which embed \<open>DisconnectMessage\<close>.
\<close>

section \<open>PUBACK, PUBREC, PUBREL, PUBCOMP, UNSUBACK\<close>

type_synonym PubackMessage = header

definition NewPubackMessage :: PubackMessage where
  "NewPubackMessage = fst (SetType header0 PUBACK)"

definition NewPubrecMessage :: PubackMessage where
  "NewPubrecMessage = fst (SetType header0 PUBREC)"

definition NewPubrelMessage :: PubackMessage where
  "NewPubrelMessage = fst (SetType header0 PUBREL)"

definition NewPubcompMessage :: PubackMessage where
  "NewPubcompMessage = fst (SetType header0 PUBCOMP)"

definition NewUnsubackMessage :: PubackMessage where
  "NewUnsubackMessage = fst (SetType header0 UNSUBACK)"

definition puback_msglen :: "PubackMessage \<Rightarrow> int" where
  "puback_msglen this = 2"

definition puback_Len :: "PubackMessage \<Rightarrow> int \<times> PubackMessage" where
  "puback_Len this = packet_Len (puback_msglen this) this"

definition puback_Decode :: "PubackMessage \<Rightarrow> gslice \<Rightarrow> (PubackMessage \<times> int \<times> error option) option" where
  "puback_Decode this src =
     do { (this, total, err) \<leftarrow> header_decode this src;
          if err \<noteq> None then Some (this, total, err)
          else do {
            _ \<leftarrow> slice_range src total (total + 2);
            let this = this\<lparr>packetId := InDbuf (nat total) 2\<rparr>;
            Some (this\<lparr>dirty := False\<rparr>, total + 2, None)
          } }"

definition puback_Encode ::
    "PubackMessage \<Rightarrow> gslice \<Rightarrow> (PubackMessage \<times> gslice \<times> int \<times> error option) option" where
  "puback_Encode this dst =
     (if \<not> dirty this then encode_clean ''puback'' this dst
      else
        (let hl = header_msglen this; ml = puback_msglen this in
         if go_len dst < hl + ml then
           Some (this, dst, 0, Some (Errorf ''puback/Encode: Insufficient buffer size. Expecting %d, got %d.''
                                       [FInt (hl + ml), FInt (go_len dst)]))
         else
           (let (this, err) = SetRemainingLength this (int32 ml) in
            if err \<noteq> None then Some (this, dst, 0, err)
            else do {
              (this, dst, total, err) \<leftarrow> header_encode this dst;
              if err \<noteq> None then Some (this, dst, total, err)
              else do {
                dst \<leftarrow> put_packetId dst total (packetId_bytes this);
                Some (this, dst, total + 2, None)
              }
            })))"

section \<open>DISCONNECT, PINGREQ, PINGRESP\<close>

type_synonym DisconnectMessage = header

definition NewDisconnectMessage :: DisconnectMessage where
  "NewDisconnectMessage = fst (SetType header0 DISCONNECT)"

definition NewPingreqMessage :: DisconnectMessage where
  "NewPingreqMessage = fst (SetType header0 PINGREQ)"

definition NewPingrespMessage :: DisconnectMessage where
  "NewPingrespMessage = fst (SetType header0 PINGRESP)"

text \<open>\<open>Len\<close> is the one of the header, which ignores the decoding buffer.\<close>

definition header_Len :: "'a header_scheme \<Rightarrow> int" where
  "header_Len this = header_msglen this"

definition disconnect_Decode ::
    "DisconnectMessage \<Rightarrow> gslice \<Rightarrow> (DisconnectMessage \<times> int \<times> error option) option" where
  "disconnect_Decode this src = header_decode this src"

definition disconnect_Encode ::
    "DisconnectMessage \<Rightarrow> gslice \<Rightarrow> (DisconnectMessage \<times> gslice \<times> int \<times> error option) option" where
  "disconnect_Encode this dst =
     (if \<not> dirty this then encode_clean ''disconnect'' this dst else header_encode this dst)"

section \<open>Encoding and decoding\<close>

text \<open>The identifier an acknowledgement carries: its two bytes, or zeros when none was set.\<close>

definition ack_id_bytes :: "'a header_scheme \<Rightarrow> bytes" where
  "ack_id_bytes h = (if length (packetId_bytes h) = 2 then packetId_bytes h else [0, 0])"

lemma length_ack_id_bytes [simp]: "length (ack_id_bytes h) = 2"
  by (simp add: ack_id_bytes_def)

lemma ack_id_bytes_PacketId: "ack_id_bytes h = be_bytes (PacketId h)"
proof (cases "length (packetId_bytes h) = 2")
  case True
  then obtain x y where "packetId_bytes h = [x, y]"
    by (auto simp: length_Suc_conv numeral_2_eq_2)
  then show ?thesis by (simp add: ack_id_bytes_def PacketId_def)
qed (simp add: ack_id_bytes_def PacketId_def be_bytes_def)

lemma ack_id_bytes_update [simp]:
  "ack_id_bytes (h\<lparr>remlen := r\<rparr>) = ack_id_bytes h" "ack_id_bytes (h\<lparr>dirty := d\<rparr>) = ack_id_bytes h"
  by (simp_all add: ack_id_bytes_def)

lemma put_packetId_ok:
  assumes "sl_len dst = n" "sl_arr dst = pre @ x # y # rest" "length pre + 2 \<le> n" "length pid \<in> {0, 2}"
  shows "put_packetId dst (int (length pre)) pid =
           Some (dst\<lparr>sl_arr := pre @ (if length pid = 2 then pid else [0, 0]) @ rest\<rparr>)"
proof -
  obtain m where dst: "dst = \<lparr>sl_len = n, sl_arr = pre @ x # y # rest\<rparr>"
    using assms(1,2) by (cases dst) simp
  have "pid = [] \<or> (\<exists>p q. pid = [p, q])"
    using assms(4) by (auto simp: length_Suc_conv numeral_2_eq_2)
  with assms(3) show ?thesis
    by (auto simp: put_packetId_def dst slice_range_def go_cap_def slice_copy_def slice_join_def
        slice_set_def go_len_def list_update_append)
qed

text \<open>The bytes of a PUBACK-like packet with first byte \<open>b\<close>.\<close>

definition puback_wire :: "byte \<Rightarrow> PubackMessage \<Rightarrow> bytes" where
  "puback_wire b h = header_bytes b 2 @ ack_id_bytes h"

lemma puback_Encode_ok:
  assumes s: "sendable b 2 h" and r: "remlen h = 2" and pid: "length (packetId_bytes h) \<in> {0, 2}"
    and dst: "wf_slice dst" "length (puback_wire b h) \<le> sl_len dst"
  shows "puback_Encode h dst =
           Some (h, fill dst (puback_wire b h), int (length (puback_wire b h)), None)"
proof -
  let ?hb = "header_bytes b 2"
  have n: "length ?hb + 2 \<le> sl_len dst" using dst(2) by (simp add: puback_wire_def)
  then have "length ?hb + 2 \<le> length (sl_arr dst)" using dst(1) by (simp add: wf_slice_def)
  then obtain x y where rest: "drop (length ?hb) (sl_arr dst) = x # y # drop (length ?hb + 2) (sl_arr dst)"
    by (rule drop_two)
  let ?dst = "\<lparr>sl_len = sl_len dst, sl_arr = ?hb @ x # y # drop (length ?hb + 2) (sl_arr dst)\<rparr>"
  have "put_packetId ?dst (int (length ?hb)) (packetId_bytes h) =
          Some (?dst\<lparr>sl_arr := puback_wire b h @ drop (length ?hb + 2) (sl_arr dst)\<rparr>)"
    using put_packetId_ok [of ?dst, OF _ _ n pid] by (simp add: puback_wire_def ack_id_bytes_def)
  moreover have "header_encode h dst = Some (h, ?dst, int (length ?hb), None)"
    using header_encode_sendable [OF s r dst(1)] n rest by (simp add: go_len_def filled_def)
  ultimately show ?thesis
    using s header_msglen_sendable [OF s r] n
    by (cases dst)
       (simp add: puback_Encode_def sendable_def puback_msglen_def go_len_def puback_wire_def
         SetRemainingLength_same [OF s r, simplified])
qed

lemma puback_Decode_ok:
  assumes s: "sendable b 2 h" and h0: "flag_byte h0 b0" "drop_bit 4 b0 = drop_bit 4 b"
    and src: "wf_slice src" "sl_arr src = puback_wire b h @ rest"
      "length (puback_wire b h) \<le> sl_len src"
  shows "puback_Decode h0 src =
           Some ((decoded h0 src 2)\<lparr>packetId := InDbuf (length (header_bytes b 2)) 2, dirty := False\<rparr>,
                 int (length (puback_wire b h)), None)"
  using header_decode_sendable [OF s h0, of src "ack_id_bytes h @ rest"] src
  by (simp add: puback_Decode_def puback_wire_def go_len_def slice_range_def go_cap_def)

text \<open>What the decoded acknowledgement shows: the same identifier.\<close>

lemma PacketId_ack_decoded:
  assumes "sl_arr src = pre @ ack_id_bytes h @ rest"
  shows "PacketId ((decoded h0 src r)\<lparr>packetId := InDbuf (length pre) 2, dirty := False\<rparr>) = PacketId h"
  using assms by (intro PacketId_be) (simp add: decoded_def assign_dbuf_def ack_id_bytes_PacketId)

section \<open>Packets without a body\<close>

lemma disconnect_Encode_ok:
  assumes s: "sendable b 0 h" and r: "remlen h = 0" and dst: "wf_slice dst"
    "length (header_bytes b 0) \<le> sl_len dst"
  shows "disconnect_Encode h dst =
           Some (h, fill dst (header_bytes b 0), int (length (header_bytes b 0)), None)"
  using s header_encode_sendable [OF s r dst(1)] dst(2)
  by (cases dst) (simp add: disconnect_Encode_def sendable_def go_len_def filled_def)

lemma disconnect_Decode_ok:
  assumes s: "sendable b 0 h" and h0: "flag_byte h0 b0" "drop_bit 4 b0 = drop_bit 4 b"
    and src: "wf_slice src" "sl_arr src = header_bytes b 0 @ rest"
      "length (header_bytes b 0) \<le> sl_len src"
  shows "disconnect_Decode h0 src = Some (decoded h0 src 0, int (length (header_bytes b 0)), None)"
  using header_decode_sendable [OF s h0, of src rest] src
  by (simp add: disconnect_Decode_def go_len_def)

end
