(* ===== verification/Connack.thy ===== *)
theory Connack
  imports Packet_Common
begin

text \<open>\<open>src/utils/surgemq/message/connack.go\<close>: the server's answer to CONNECT.\<close>

section \<open>State and operations\<close>

record ConnackMessage = header +
  sessionPresent :: bool
  returnCode :: ConnackCode

definition NewConnackMessage :: ConnackMessage where
  "NewConnackMessage =
     fst (SetType (header.extend header0 \<lparr>sessionPresent = False, returnCode = 0\<rparr>) CONNACK)"

definition SetSessionPresent :: "ConnackMessage \<Rightarrow> bool \<Rightarrow> ConnackMessage" where
  "SetSessionPresent this v =
     (if v then this\<lparr>sessionPresent := True\<rparr> else this\<lparr>sessionPresent := False\<rparr>)\<lparr>dirty := True\<rparr>"

definition SetReturnCode :: "ConnackMessage \<Rightarrow> ConnackCode \<Rightarrow> ConnackMessage" where
  "SetReturnCode this ret = this\<lparr>returnCode := ret, dirty := True\<rparr>"

definition connack_msglen :: "ConnackMessage \<Rightarrow> int" where
  "connack_msglen this = 2"

definition connack_Len :: "ConnackMessage \<Rightarrow> int \<times> ConnackMessage" where
  "connack_Len this = packet_Len (connack_msglen this) this"

definition connack_Decode :: "ConnackMessage \<Rightarrow> gslice \<Rightarrow> (ConnackMessage \<times> int \<times> error option) option" where
  "connack_Decode this src =
     do { (this, total, err) \<leftarrow> header_decode this src;
          if err \<noteq> None then Some (this, total, err)
          else do {
            b \<leftarrow> slice_get src total;
            if b AND 254 \<noteq> 0 then
              Some (this, 0, Some (Errorf ''connack/Decode: Bits 7-1 in Connack Acknowledge Flags byte (1) are not 0'' []))
            else do {
              let this = this\<lparr>sessionPresent := (b AND 1 = 1)\<rparr>;
              let total = total + 1;
              b \<leftarrow> slice_get src total;
              if 5 < b then
                Some (this, 0, Some (Errorf ''connack/Decode: Invalid CONNACK return code (%d)'' [FInt (uint b)]))
              else
                Some (this\<lparr>returnCode := ucast b, dirty := False\<rparr>, total + 1, None)
            }
          } }"

text \<open>
  The acknowledge flags byte is written only when \<open>sessionPresent\<close> is set; otherwise the byte of the
  destination buffer stays.
\<close>

definition connack_Encode ::
    "ConnackMessage \<Rightarrow> gslice \<Rightarrow> (ConnackMessage \<times> gslice \<times> int \<times> error option) option" where
  "connack_Encode this dst =
     (if \<not> dirty this then encode_clean ''connack'' this dst
      else
        (let hl = header_msglen this; ml = connack_msglen this in
         if go_len dst < hl + ml then
           Some (this, dst, 0, Some (Errorf ''connack/Encode: Insufficient buffer size. Expecting %d, got %d.''
                                       [FInt (hl + ml), FInt (go_len dst)]))
         else
           (let (this, err) = SetRemainingLength this (int32 ml) in
            if err \<noteq> None then Some (this, dst, 0, err)
            else do {
              (this, dst, total, err) \<leftarrow> header_encode this dst;
              if err \<noteq> None then Some (this, dst, 0, err)
              else do {
                dst \<leftarrow> (if sessionPresent this then slice_set dst total 1 else Some dst);
                let total = total + 1;
                dst \<leftarrow> slice_set dst total (ConnackCode_Value (returnCode this));
                Some (this, dst, total + 1, None)
              }
            })))"

section \<open>Encoding and decoding\<close>

definition connack_wire :: "byte \<Rightarrow> byte \<Rightarrow> ConnackMessage \<Rightarrow> bytes" where
  "connack_wire b ackflags m =
     header_bytes b 2 @ [if sessionPresent m then 1 else ackflags, ConnackCode_Value (returnCode m)]"

lemma length_connack_wire [simp]: "length (connack_wire b f m) = length (header_bytes b 2) + 2"
  by (simp add: connack_wire_def)

lemma connack_Encode_ok:
  assumes s: "sendable b 2 m" and r: "remlen m = 2" and dst: "wf_slice dst"
    "length (header_bytes b 2) + 2 \<le> sl_len dst"
  shows "connack_Encode m dst =
           Some (m, fill dst (connack_wire b (sl_arr dst ! length (header_bytes b 2)) m),
                 int (length (header_bytes b 2)) + 2, None)"
proof -
  let ?hb = "header_bytes b 2"
  have "length ?hb + 2 \<le> length (sl_arr dst)" using dst by (simp add: wf_slice_def)
  then obtain x y where rest: "drop (length ?hb) (sl_arr dst) = x # y # drop (length ?hb + 2) (sl_arr dst)"
    by (rule drop_two)
  then have x: "sl_arr dst ! length ?hb = x" by (metis nth_via_drop)
  let ?r = "drop (length ?hb + 2) (sl_arr dst)"
  have e: "header_encode m dst =
          Some (m, \<lparr>sl_len = sl_len dst, sl_arr = ?hb @ x # y # ?r\<rparr>, int (length ?hb), None)"
    using header_encode_sendable [OF s r dst(1)] dst(2) rest by (simp add: go_len_def filled_def)
  have s1: "slice_set \<lparr>sl_len = sl_len dst, sl_arr = ?hb @ x # y # ?r\<rparr> (int (length ?hb)) c
            = Some \<lparr>sl_len = sl_len dst, sl_arr = ?hb @ c # y # ?r\<rparr>" for c
    using dst(2) by (intro slice_set_pre) auto
  have s2: "slice_set \<lparr>sl_len = sl_len dst, sl_arr = ?hb @ w # y # ?r\<rparr> (int (length ?hb) + 1) c
            = Some \<lparr>sl_len = sl_len dst, sl_arr = ?hb @ w # c # ?r\<rparr>" for c w
    using dst(2) slice_set_pre [of "?hb @ [w]" "sl_len dst" "int (length ?hb) + 1" y ?r c] by simp
  show ?thesis
    unfolding x using s header_msglen_sendable [OF s r] dst(2) e s1 s2
    by (cases dst)
       (auto simp: connack_Encode_def sendable_def connack_msglen_def go_len_def connack_wire_def
         SetRemainingLength_same [OF s r, simplified])
qed

lemma connack_Decode_ok:
  assumes s: "sendable b 2 m" and h0: "flag_byte m0 b0" "drop_bit 4 b0 = drop_bit 4 b"
    and code: "returnCode m \<le> 5"
    and src: "wf_slice src" "sl_arr src = connack_wire b 0 m @ rest"
      "length (connack_wire b 0 m) \<le> sl_len src"
  shows "connack_Decode m0 src =
           Some ((decoded m0 src 2)\<lparr>sessionPresent := sessionPresent m, returnCode := returnCode m,
                    dirty := False\<rparr>,
                 int (length (connack_wire b 0 m)), None)"
proof -
  let ?hb = "header_bytes b 2"
  let ?f = "if sessionPresent m then 1 else 0 :: byte"
  let ?c = "ConnackCode_Value (returnCode m)"
  have arr: "sl_arr src = ?hb @ ?f # ?c # rest" using src(2) by (simp add: connack_wire_def)
  have "slice_get src (int (length ?hb)) = Some ?f"
    using src(3) arr by (simp add: slice_get_def go_len_def nth_append)
  moreover have "slice_get src (int (length ?hb) + 1) = Some ?c"
    using src(3) arr by (simp add: slice_get_def go_len_def nth_append)
  moreover have c: "unat ?c = unat (returnCode m)"
    using code unfolding ConnackCode_Value_def
    by (simp add: unsigned_ucast_eq unsigned_take_bit_eq word_le_nat_alt take_bit_nat_eq_self)
  then have "unat (ucast ?c :: uint64) = unat (returnCode m)" by (simp only: unat_ucast_byte)
  then have "ucast ?c = returnCode m" by (rule unsigned_word_eqI)
  moreover have "?c \<le> 5" using code c by (simp add: word_le_nat_alt)
  ultimately show ?thesis
    using header_decode_sendable [OF s h0, of src "?f # ?c # rest"] src arr
    by (auto simp: connack_Decode_def go_len_def not_less [symmetric])
qed

end
