(* ===== verification/Suback.thy ===== *)
theory Suback
  imports Ack_Packets
begin

text \<open>\<open>src/utils/surgemq/message/suback.go\<close>: the granted QoS of every requested subscription.\<close>

section \<open>State and operations\<close>

record SubackMessage = header +
  returnCodes :: bytes

definition NewSubackMessage :: SubackMessage where
  "NewSubackMessage = fst (SetType (header.extend header0 \<lparr>returnCodes = []\<rparr>) SUBACK)"

definition return_code_ok :: "byte \<Rightarrow> bool" where
  "return_code_ok c \<longleftrightarrow> c = QosAtMostOnce \<or> c = QosAtLeastOnce \<or> c = QosExactlyOnce \<or> c = QosFailure"

text \<open>
  \<open>AddReturnCodes\<close> appends code by code and stops at the first invalid one; what was appended before
  stays, and \<open>dirty\<close> is then not set.
\<close>

fun add_return_codes_loop :: "SubackMessage \<Rightarrow> bytes \<Rightarrow> SubackMessage \<times> error option" where
  "add_return_codes_loop this [] = (this, None)"
| "add_return_codes_loop this (c # ret) =
     (if \<not> return_code_ok c then
        (this, Some (Errorf ''suback/AddReturnCode: Invalid return code %d. Must be 0, 1, 2, 0x80.'' [FInt (uint c)]))
      else add_return_codes_loop (this\<lparr>returnCodes := returnCodes this @ [c]\<rparr>) ret)"

definition AddReturnCodes :: "SubackMessage \<Rightarrow> bytes \<Rightarrow> SubackMessage \<times> error option" where
  "AddReturnCodes this ret =
     (let (this, err) = add_return_codes_loop this ret
      in if err \<noteq> None then (this, err) else (this\<lparr>dirty := True\<rparr>, None))"

definition AddReturnCode :: "SubackMessage \<Rightarrow> byte \<Rightarrow> SubackMessage \<times> error option" where
  "AddReturnCode this ret = AddReturnCodes this [ret]"

definition suback_msglen :: "SubackMessage \<Rightarrow> int" where
  "suback_msglen this = 2 + int (length (returnCodes this))"

definition suback_Len :: "SubackMessage \<Rightarrow> int \<times> SubackMessage" where
  "suback_Len this = packet_Len (suback_msglen this) this"

text \<open>The first invalid return code with its index.\<close>

fun bad_return_code :: "nat \<Rightarrow> bytes \<Rightarrow> (byte \<times> nat) option" where
  "bad_return_code i [] = None"
| "bad_return_code i (c # cs) = (if \<not> return_code_ok c then Some (c, i) else bad_return_code (Suc i) cs)"

definition suback_Decode :: "SubackMessage \<Rightarrow> gslice \<Rightarrow> (SubackMessage \<times> int \<times> error option) option" where
  "suback_Decode this src =
     do { (this, hn, err) \<leftarrow> header_decode this src;
          if err \<noteq> None then Some (this, hn, err)
          else do {
            _ \<leftarrow> slice_range src hn (hn + 2);
            let this = this\<lparr>packetId := InDbuf (nat hn) 2\<rparr>;
            let total = hn + 2;
            let l = remlen this - (total - hn);
            r \<leftarrow> slice_range src total (total + l);
            let this = this\<lparr>returnCodes := slice_bytes r\<rparr>;
            let total = total + go_len r;
            case bad_return_code 0 (returnCodes this) of
              Some (code, i) \<Rightarrow>
                Some (this, total, Some (Errorf ''suback/Decode: Invalid return code %d for topic %d''
                                           [FInt (uint code), FInt (int i)]))
            | None \<Rightarrow> Some (this\<lparr>dirty := False\<rparr>, total, None)
          } }"

definition suback_Encode ::
    "SubackMessage \<Rightarrow> gslice \<Rightarrow> (SubackMessage \<times> gslice \<times> int \<times> error option) option" where
  "suback_Encode this dst =
     (if \<not> dirty this then encode_clean ''suback'' this dst
      else case bad_return_code 0 (returnCodes this) of
        Some (code, i) \<Rightarrow>
          Some (this, dst, 0, Some (Errorf ''suback/Encode: Invalid return code %d for topic %d''
                                      [FInt (uint code), FInt (int i)]))
      | None \<Rightarrow>
        (let hl = header_msglen this; ml = suback_msglen this in
         if go_len dst < hl + ml then
           Some (this, dst, 0, Some (Errorf ''suback/Encode: Insufficient buffer size. Expecting %d, got %d.''
                                       [FInt (hl + ml), FInt (go_len dst)]))
         else
           (let (this, err) = SetRemainingLength this (int32 ml) in
            if err \<noteq> None then Some (this, dst, 0, err)
            else do {
              (this, dst, total, err) \<leftarrow> header_encode this dst;
              if err \<noteq> None then Some (this, dst, total, err)
              else do {
                dst \<leftarrow> put_packetId dst total (packetId_bytes this);
                let total = total + 2;
                t \<leftarrow> slice_from dst total;
                let (t, _) = slice_copy t (returnCodes this);
                Some (this, slice_join dst total t, total + int (length (returnCodes this)), None)
              }
            })))"

section \<open>Encoding and decoding\<close>

lemma bad_return_code_None: "bad_return_code i cs = None \<longleftrightarrow> (\<forall>c \<in> set cs. return_code_ok c)"
  by (induction cs arbitrary: i) auto

lemma add_return_codes_loop_ok:
  "\<forall>c \<in> set ret. return_code_ok c \<Longrightarrow>
   add_return_codes_loop m ret = (m\<lparr>returnCodes := returnCodes m @ ret\<rparr>, None)"
  by (induction ret arbitrary: m) auto

definition suback_wire :: "byte \<Rightarrow> SubackMessage \<Rightarrow> bytes" where
  "suback_wire b m = header_bytes b (suback_msglen m) @ ack_id_bytes m @ returnCodes m"

lemma suback_Encode_ok:
  assumes s: "sendable b (suback_msglen m) m" and r: "remlen m = suback_msglen m"
    and pid: "length (packetId_bytes m) \<in> {0, 2}" and rc: "\<forall>c \<in> set (returnCodes m). return_code_ok c"
    and dst: "wf_slice dst" "length (suback_wire b m) \<le> sl_len dst"
  shows "suback_Encode m dst =
           Some (m, fill dst (suback_wire b m), int (length (suback_wire b m)), None)"
proof -
  let ?hb = "header_bytes b (suback_msglen m)" and ?rc = "returnCodes m"
  have n: "length ?hb + 2 + length ?rc \<le> sl_len dst" using dst(2) by (simp add: suback_wire_def)
  then have n2: "length ?hb + 2 \<le> sl_len dst" by simp
  then have "length ?hb + 2 \<le> length (sl_arr dst)" using dst(1) by (simp add: wf_slice_def)
  then obtain x y where rest: "drop (length ?hb) (sl_arr dst) = x # y # drop (length ?hb + 2) (sl_arr dst)"
    by (rule drop_two)
  let ?r = "drop (length ?hb + 2) (sl_arr dst)" and ?pre = "?hb @ ack_id_bytes m"
  let ?dst = "\<lparr>sl_len = sl_len dst, sl_arr = ?hb @ x # y # ?r\<rparr>"
  have "put_packetId ?dst (int (length ?hb)) (packetId_bytes m) =
          Some \<lparr>sl_len = sl_len dst, sl_arr = ?pre @ ?r\<rparr>"
    using put_packetId_ok [of ?dst, OF _ _ n2 pid] by (simp add: ack_id_bytes_def)
  moreover have "header_encode m dst = Some (m, ?dst, int (length ?hb), None)"
    using header_encode_sendable [OF s r dst(1)] n rest by (simp add: go_len_def filled_def)
  moreover have "slice_from \<lparr>sl_len = sl_len dst, sl_arr = ?pre @ ?r\<rparr> (int (length ?hb) + 2) =
                   Some \<lparr>sl_len = sl_len dst - length ?pre, sl_arr = ?r\<rparr>"
    using n by (intro slice_from_pre) auto
  moreover have "slice_join \<lparr>sl_len = sl_len dst, sl_arr = ?pre @ ?r\<rparr> (int (length ?hb) + 2)
                   \<lparr>sl_len = k, sl_arr = q\<rparr> = \<lparr>sl_len = sl_len dst, sl_arr = ?pre @ q\<rparr>" for k q
    by (intro slice_join_pre) auto
  moreover have "slice_copy \<lparr>sl_len = sl_len dst - length ?pre, sl_arr = ?r\<rparr> ?rc =
                   (\<lparr>sl_len = sl_len dst - length ?pre, sl_arr = ?rc @ drop (length ?rc) ?r\<rparr>, int (length ?rc))"
    using n by (subst slice_copy_fit) auto
  moreover have "\<not> go_len dst < header_msglen m + suback_msglen m"
    using n header_msglen_sendable [OF s r] by (simp add: go_len_def suback_msglen_def [of m])
  moreover have "bad_return_code 0 ?rc = None" using rc by (simp add: bad_return_code_None)
  ultimately show ?thesis
    using s SetRemainingLength_same [OF s r]
    by (cases dst) (simp add: suback_Encode_def sendable_def suback_wire_def Let_def add.commute)
qed

lemma suback_Decode_ok:
  assumes s: "sendable b (suback_msglen m) m" and h0: "flag_byte m0 b0" "drop_bit 4 b0 = drop_bit 4 b"
    and rc: "\<forall>c \<in> set (returnCodes m). return_code_ok c"
    and src: "wf_slice src" "sl_arr src = suback_wire b m @ rest" "length (suback_wire b m) \<le> sl_len src"
  shows "suback_Decode m0 src =
           Some ((decoded m0 src (suback_msglen m))
                   \<lparr>packetId := InDbuf (length (header_bytes b (suback_msglen m))) 2,
                    returnCodes := returnCodes m, dirty := False\<rparr>,
                 int (length (suback_wire b m)), None)"
proof -
  let ?hb = "header_bytes b (suback_msglen m)"
  have arr: "sl_arr src = (?hb @ ack_id_bytes m) @ returnCodes m @ rest"
    using src(2) by (simp add: suback_wire_def)
  have "slice_range src (int (length ?hb)) (int (length ?hb) + 2) \<noteq> None"
    using arr by (simp add: slice_range_def go_cap_def)
  moreover have "slice_range src (int (length ?hb) + 2) (suback_msglen m + int (length ?hb))
      = Some \<lparr>sl_len = length (returnCodes m), sl_arr = returnCodes m @ rest\<rparr>"
    using arr by (simp add: slice_range_def go_cap_def suback_msglen_def [of m])
  moreover have "header_decode m0 src = Some (decoded m0 src (suback_msglen m), int (length ?hb), None)"
    using header_decode_sendable [OF s h0, of src "ack_id_bytes m @ returnCodes m @ rest"] src
    by (simp add: suback_wire_def go_len_def suback_msglen_def [of m])
  moreover have "bad_return_code 0 (returnCodes m) = None" using rc by (simp add: bad_return_code_None)
  ultimately show ?thesis
    by (auto simp: suback_Decode_def decoded_def suback_wire_def slice_bytes_def go_len_def Let_def)
qed

end
