(* ===== verification/Publish.thy ===== *)
theory Publish
  imports Packet_Common
begin

text \<open>\<open>src/utils/surgemq/message/publish.go\<close>: application messages.\<close>

section \<open>State and operations\<close>

record PublishMessage = header +
  topic :: bytes
  payload :: bytes

definition NewPublishMessage :: PublishMessage where
  "NewPublishMessage = fst (SetType (header.extend header0 \<lparr>topic = [], payload = []\<rparr>) PUBLISH)"

text \<open>The flag readers panic, as \<open>Flags\<close> does, when the first byte is not allocated.\<close>

definition Dup :: "PublishMessage \<Rightarrow> bool option" where
  "Dup this = do { f \<leftarrow> Flags this; Some (drop_bit 3 f AND 1 = 1) }"

definition Retain :: "PublishMessage \<Rightarrow> bool option" where
  "Retain this = do { f \<leftarrow> Flags this; Some (f AND 1 = 1) }"

definition QoS :: "PublishMessage \<Rightarrow> byte option" where
  "QoS this = do { f \<leftarrow> Flags this; Some (drop_bit 1 f AND 3) }"

text \<open>\<open>this.mtypeflags[0] = f(this.mtypeflags[0])\<close>, in place.\<close>

definition update_flag_byte :: "(byte \<Rightarrow> byte) \<Rightarrow> PublishMessage \<Rightarrow> PublishMessage option" where
  "update_flag_byte f this =
     (if mtypeflags_bytes this = [] then None
      else Some (write_mtypeflags this (f (mtypeflags_bytes this ! 0))))"

definition SetDup :: "PublishMessage \<Rightarrow> bool \<Rightarrow> PublishMessage option" where
  "SetDup this v = update_flag_byte (\<lambda>b. if v then b OR 0x8 else b AND 247) this"

definition SetRetain :: "PublishMessage \<Rightarrow> bool \<Rightarrow> PublishMessage option" where
  "SetRetain this v = update_flag_byte (\<lambda>b. if v then b OR 0x1 else b AND 254) this"

definition SetQoS :: "PublishMessage \<Rightarrow> byte \<Rightarrow> (PublishMessage \<times> error option) option" where
  "SetQoS this v =
     (if v \<noteq> 0 \<and> v \<noteq> 1 \<and> v \<noteq> 2 then
        Some (this, Some (Errorf ''publish/SetQoS: Invalid QoS %d.'' [FInt (uint v)]))
      else do {
        this \<leftarrow> update_flag_byte (\<lambda>b. (b AND 249) OR push_bit 1 v) this;
        Some (this, None)
      })"

definition SetTopic :: "PublishMessage \<Rightarrow> bytes \<Rightarrow> PublishMessage \<times> error option" where
  "SetTopic this v =
     (if \<not> ValidTopic v then
        (this, Some (Errorf ''publish/SetTopic: Invalid topic name (%s). Must not be empty or contain wildcard characters''
                       [FBytes v]))
      else (this\<lparr>topic := v, dirty := True\<rparr>, None))"

definition SetPayload :: "PublishMessage \<Rightarrow> bytes \<Rightarrow> PublishMessage" where
  "SetPayload this v = this\<lparr>payload := v, dirty := True\<rparr>"

definition publish_msglen :: "PublishMessage \<Rightarrow> int option" where
  "publish_msglen this =
     do { q \<leftarrow> QoS this;
          let n = 2 + int (length (topic this)) + int (length (payload this));
          Some (if q \<noteq> 0 then n + 2 else n) }"

definition publish_Len :: "PublishMessage \<Rightarrow> (int \<times> PublishMessage) option" where
  "publish_Len this =
     (if \<not> dirty this then Some (go_len (dbuf this), this)
      else do { ml \<leftarrow> publish_msglen this; Some (packet_Len ml this) })"

definition publish_Decode :: "PublishMessage \<Rightarrow> gslice \<Rightarrow> (PublishMessage \<times> int \<times> error option) option" where
  "publish_Decode this src =
     do { (this, hn, err) \<leftarrow> header_decode this src;
          if err \<noteq> None then Some (this, hn, err)
          else do {
            let total = hn;
            (t, n, err) \<leftarrow> readLP_at src total;
            let this = this\<lparr>topic := t\<rparr>;
            let total = total + n;
            if err \<noteq> None then Some (this, total, err)
            else if \<not> ValidTopic (topic this) then
              Some (this, total, Some (Errorf ''publish/Decode: Invalid topic name (%s). Must not be empty or contain wildcard characters''
                                         [FBytes (topic this)]))
            else do {
              q \<leftarrow> QoS this;
              (this, total) \<leftarrow>
                (if q \<noteq> 0 then do {
                   _ \<leftarrow> slice_range src total (total + 2);
                   Some (this\<lparr>packetId := InDbuf (nat total) 2\<rparr>, total + 2) }
                 else Some (this, total));
              let l = remlen this - (total - hn);
              r \<leftarrow> slice_range src total (total + l);
              let this = this\<lparr>payload := slice_bytes r\<rparr>;
              Some (this\<lparr>dirty := False\<rparr>, total + go_len r, None)
            }
          } }"

text \<open>\<open>Encode\<close> also takes and returns the package variable \<open>gPacketId\<close>.\<close>

definition publish_Encode ::
    "PublishMessage \<Rightarrow> gslice \<Rightarrow> uint64 \<Rightarrow> ((PublishMessage \<times> gslice \<times> int \<times> error option) \<times> uint64) option" where
  "publish_Encode this dst g =
     (if \<not> dirty this then do { r \<leftarrow> encode_clean ''publish'' this dst; Some (r, g) }
      else if topic this = [] then
        Some ((this, dst, 0, Some (Errorf ''publish/Encode: Topic name is empty.'' [])), g)
      else if payload this = [] then
        Some ((this, dst, 0, Some (Errorf ''publish/Encode: Payload is empty.'' [])), g)
      else do {
        ml \<leftarrow> publish_msglen this;
        let (this, err) = SetRemainingLength this (int32 ml);
        if err \<noteq> None then Some ((this, dst, 0, err), g)
        else let hl = header_msglen this in
        if go_len dst < hl + ml then
          Some ((this, dst, 0, Some (Errorf ''publish/Encode: Insufficient buffer size. Expecting %d, got %d.''
                                      [FInt (hl + ml), FInt (go_len dst)])), g)
        else do {
          (this, dst, total, err) \<leftarrow> header_encode this dst;
          if err \<noteq> None then Some ((this, dst, total, err), g)
          else do {
            (dst, n, err) \<leftarrow> writeLP_at dst total (topic this);
            let total = total + n;
            if err \<noteq> None then Some ((this, dst, total, err), g)
            else do {
              q \<leftarrow> QoS this;
              (this, dst, total, g) \<leftarrow>
                (if q \<noteq> 0 then put_new_packetId this dst total g else Some (this, dst, total, g));
              (dst, _) \<leftarrow> copy_at dst total (payload this);
              Some ((this, dst, total + int (length (payload this)), None), g)
            }
          }
        }
      })"

section \<open>The flag bits\<close>

text \<open>The QoS bits of the first byte of a PUBLISH.\<close>

definition qos_of :: "byte \<Rightarrow> byte" where
  "qos_of b = drop_bit 1 (b AND 0x0F) AND 3"

lemma QoS_flag_byte: "flag_byte m b \<Longrightarrow> QoS m = Some (qos_of b)"
  by (simp add: QoS_def Flags_def qos_of_def)

lemma publish_more_eq:
  "header.more m = header.more m' \<Longrightarrow> topic (m :: PublishMessage) = topic m' \<and> payload m = payload m'"
  by (cases m; cases m') simp

lemma update_flag_byte_spec:
  assumes "flag_byte m b"
  shows "\<exists>m'. update_flag_byte f m = Some m' \<and> flag_byte m' (f b) \<and> topic m' = topic m
           \<and> payload m' = payload m \<and> remlen m' = remlen m \<and> dirty m' = dirty m"
proof (cases "mtypeflags m")
  case (InDbuf a n)
  with assms have "take n (drop a (sl_arr (dbuf m))) = [b]" by simp
  then have "a < length (sl_arr (dbuf m))" "n \<noteq> 0" by (auto intro: ccontr)
  moreover from \<open>take n _ = [b]\<close> have "n = 1 \<or> length (sl_arr (dbuf m)) = Suc a"
    by (drule_tac arg_cong [where f = length]) (auto simp: min_def split: if_splits)
  ultimately show ?thesis using assms InDbuf
    by (auto simp: update_flag_byte_def write_mtypeflags_def take_Cons' min_def)
qed (use assms in \<open>simp add: update_flag_byte_def write_mtypeflags_def\<close>)

section \<open>Encoding and decoding\<close>

definition publish_id_bytes :: "byte \<Rightarrow> PublishMessage \<Rightarrow> bytes" where
  "publish_id_bytes b m = (if qos_of b \<noteq> 0 then be_bytes (PacketId m) else [])"

definition publish_len :: "byte \<Rightarrow> PublishMessage \<Rightarrow> int" where
  "publish_len b m =
     int (length (lp_bytes (topic m)) + length (publish_id_bytes b m) + length (payload m))"

definition publish_wire :: "byte \<Rightarrow> PublishMessage \<Rightarrow> bytes" where
  "publish_wire b m =
     header_bytes b (publish_len b m) @ lp_bytes (topic m) @ publish_id_bytes b m @ payload m"

text \<open>The message as it is sent: with an identifier of its own when its QoS needs one.\<close>

definition publish_ready :: "byte \<Rightarrow> PublishMessage \<Rightarrow> uint64 \<Rightarrow> PublishMessage \<times> uint64" where
  "publish_ready b m g = (if qos_of b \<noteq> 0 then assign_packetId m g else (m, g))"

lemma publish_msglen_ok: "flag_byte m b \<Longrightarrow> publish_msglen m = Some (publish_len b m)"
  by (simp add: publish_msglen_def QoS_flag_byte publish_len_def publish_id_bytes_def)

lemma publish_len_ready:
  "publish_ready b m g = (m', g') \<Longrightarrow> topic m' = topic m \<and> payload m' = payload m
     \<and> publish_len b m' = publish_len b m"
  using assign_packetId_spec(6) [of m g m' g'] publish_more_eq [of m' m]
  by (auto simp: publish_ready_def publish_len_def publish_id_bytes_def split: if_splits)

lemma publish_id_copy:
  assumes "flag_byte m b" and "publish_ready b m g = (m', g')"
    and "length pre + length (publish_id_bytes b m) \<le> n" and "tot = int (length pre)"
  shows "(if qos_of b \<noteq> 0 then put_new_packetId m (filled n pre rest) tot g
          else Some (m, filled n pre rest, tot, g)) =
         Some (m', filled n (pre @ publish_id_bytes b m') (drop (length (publish_id_bytes b m')) rest),
               int (length (pre @ publish_id_bytes b m')), g')"
proof (cases "qos_of b = 0")
  case True
  with assms show ?thesis by (simp add: publish_id_bytes_def publish_ready_def)
next
  case False
  then have a: "assign_packetId m g = (m', g')" using assms by (simp add: publish_ready_def)
  have "length pre + 2 \<le> n" using False assms(3) by (simp add: publish_id_bytes_def)
  with False assms put_new_packetId_filled [OF a, of pre n tot rest] show ?thesis
    by (simp add: publish_id_bytes_def)
qed

lemma publish_Encode_ok:
  assumes s: "sendable b (publish_len b m) m" and r: "remlen m = publish_len b m"
    and t: "topic m \<noteq> []" "length (topic m) \<le> 65535" "payload m \<noteq> []"
    and m': "publish_ready b m g = (m', g')"
    and dst: "wf_slice dst" "length (publish_wire b m') \<le> sl_len dst"
  shows "publish_Encode m dst g =
           Some ((m', fill dst (publish_wire b m'), int (length (publish_wire b m')), None), g')"
proof -
  let ?ml = "publish_len b m" and ?hb = "header_bytes b (publish_len b m)"
  let ?id = "publish_id_bytes b m'" and ?n = "sl_len dst" and ?lp = "lp_bytes (topic m)"
  note tp = publish_len_ready [OF m']
  have fb: "flag_byte m b" using s by (simp add: sendable_def)
  have w: "publish_wire b m' = ((?hb @ ?lp) @ ?id) @ payload m" using tp by (simp add: publish_wire_def)
  have idl: "length (publish_id_bytes b m) = length ?id" by (simp add: publish_id_bytes_def)
  have n: "length ?hb + (2 + length (topic m)) + length ?id + length (payload m) \<le> ?n"
    using dst(2) by (simp add: w)
  have len: "?n \<le> length (sl_arr dst)" using dst(1) by (simp add: wf_slice_def)
  let ?r = "drop (length ?hb) (sl_arr dst)" and ?tot = "int (length ?hb) + (2 + int (length (topic m)))"
  have "header_encode m dst = Some (m, filled ?n ?hb ?r, int (length ?hb), None)"
    using header_encode_sendable [OF s r dst(1)] n by (simp add: go_len_def)
  moreover have "writeLP_at (filled ?n ?hb ?r) (int (length ?hb)) (topic m) =
      Some (filled ?n (?hb @ ?lp) (drop (2 + length (topic m)) ?r), 2 + int (length (topic m)), None)"
    using n t len by (intro writeLP_at_filled) auto
  moreover have "(if qos_of b \<noteq> 0 then put_new_packetId m (filled ?n (?hb @ ?lp) q) ?tot g
      else Some (m, filled ?n (?hb @ ?lp) q, ?tot, g)) =
      Some (m', filled ?n ((?hb @ ?lp) @ ?id) (drop (length ?id) q), int (length ((?hb @ ?lp) @ ?id)), g')"
    for q
    using n idl by (intro publish_id_copy [OF fb m']) auto
  moreover have "copy_at (filled ?n ((?hb @ ?lp) @ ?id) q) (int (length ((?hb @ ?lp) @ ?id))) (payload m') =
      Some (filled ?n (publish_wire b m') (drop (length (payload m)) q), int (length (payload m)))" for q
    using n tp by (subst copy_at_filled) (auto simp: w)
  moreover have "\<not> go_len dst < header_msglen m + ?ml"
    using n idl header_msglen_sendable [OF s r] by (simp add: go_len_def publish_len_def [of b m])
  moreover have "filled ?n (publish_wire b m') (drop (length (payload m)) (drop (length ?id)
      (drop (2 + length (topic m)) ?r))) = fill dst (publish_wire b m')"
    by (subst filled_fill [symmetric]) (simp add: w add.commute add.left_commute)
  moreover have "int (length ((?hb @ ?lp) @ ?id)) + int (length (payload m')) = int (length (publish_wire b m'))"
    using tp by (simp add: w)
  ultimately show ?thesis
    using s t n idl SetRemainingLength_same [OF s r] QoS_flag_byte [OF fb] publish_msglen_ok [OF fb]
    by (simp add: publish_Encode_def sendable_def Let_def del: append_assoc length_append split del: if_split)
qed

text \<open>The state after decoding the bytes of \<open>m\<close> into \<open>m0\<close>.\<close>

definition publish_received :: "byte \<Rightarrow> PublishMessage \<Rightarrow> PublishMessage \<Rightarrow> gslice \<Rightarrow> PublishMessage" where
  "publish_received b m m0 src =
     (let d = (decoded m0 src (publish_len b m))\<lparr>topic := topic m, payload := payload m, dirty := False\<rparr>
      in if qos_of b \<noteq> 0
         then d\<lparr>packetId := InDbuf (length (header_bytes b (publish_len b m) @ lp_bytes (topic m))) 2\<rparr>
         else d)"

lemma publish_Decode_ok:
  assumes s: "sendable b (publish_len b m) m" and h0: "flag_byte m0 b0" "drop_bit 4 b0 = drop_bit 4 b"
    and t: "ValidTopic (topic m)" "length (topic m) \<le> 65535"
    and src: "wf_slice src" "sl_arr src = publish_wire b m @ rest" "length (publish_wire b m) \<le> sl_len src"
  shows "publish_Decode m0 src =
           Some (publish_received b m m0 src, int (length (publish_wire b m)), None)"
proof -
  let ?ml = "publish_len b m" and ?hb = "header_bytes b (publish_len b m)"
  let ?lp = "lp_bytes (topic m)" and ?id = "publish_id_bytes b m"
  let ?d = "decoded m0 src ?ml" and ?h = "int (length ?hb)" and ?t = "2 + int (length (topic m))"
  have ml: "?ml = ?t + int (length ?id) + int (length (payload m))" by (simp add: publish_len_def)
  have n: "length ?hb + (2 + length (topic m)) + length ?id + length (payload m) \<le> sl_len src"
    using src(3) by (simp add: publish_wire_def)
  have arr: "sl_arr src = ?hb @ ?lp @ ?id @ payload m @ rest" using src(2) by (simp add: publish_wire_def)
  have "header_decode m0 src = Some (?d, ?h, None)"
    using header_decode_sendable [OF s h0 arr src(1)] n ml by (simp add: go_len_def)
  moreover have "readLP_at src ?h = Some (topic m, ?t, None)"
    using readLP_at_app [OF arr] n t by simp
  moreover have "QoS (?d\<lparr>topic := x\<rparr>) = Some (qos_of b)" for x
    using arr by (intro QoS_flag_byte) (simp add: decoded_def assign_dbuf_def header_bytes_def)
  moreover have "slice_range src (?h + ?t) (?h + ?t + 2) \<noteq> None" if "qos_of b \<noteq> 0"
    using arr that by (simp add: slice_range_def go_cap_def publish_id_bytes_def)
  moreover have "slice_range src (?h + ?t + int (length ?id)) (?h + ?ml) =
      Some \<lparr>sl_len = length (payload m), sl_arr = payload m @ rest\<rparr>"
    using arr by (simp add: slice_range_def go_cap_def ml nat_add_distrib)
  moreover have "remlen ?d = ?ml" by (simp add: decoded_def)
  moreover have "int (length (publish_wire b m)) = ?h + ?ml" by (simp add: publish_wire_def ml)
  ultimately show ?thesis using t
    by (cases "qos_of b = 0")
       (auto simp: publish_Decode_def publish_received_def publish_id_bytes_def slice_bytes_def
          go_len_def Let_def nat_add_distrib add.commute ml decoded_def)
qed

lemma publish_received_fields:
  assumes "sl_arr src = publish_wire b m @ rest"
  shows "topic (publish_received b m m0 src) = topic m"
    and "payload (publish_received b m m0 src) = payload m"
    and "flag_byte (publish_received b m m0 src) b"
    and "qos_of b \<noteq> 0 \<Longrightarrow> PacketId (publish_received b m m0 src) = PacketId m"
  using assms
  by (simp_all add: publish_received_def publish_wire_def decoded_def assign_dbuf_def Let_def
      header_bytes_def) (simp add: PacketId_be publish_id_bytes_def)

end
