(* ===== verification/Subscribe.thy ===== *)
theory Subscribe
  imports Packet_Common
begin

text \<open>\<open>src/utils/surgemq/message/subscribe.go\<close>: requests for subscriptions, each a topic with a QoS.\<close>

section \<open>State and operations\<close>

record SubscribeMessage = header +
  sub_topics :: "bytes list"
  sub_qos :: bytes

definition NewSubscribeMessage :: SubscribeMessage where
  "NewSubscribeMessage = fst (SetType (header.extend header0 \<lparr>sub_topics = [], sub_qos = []\<rparr>) SUBSCRIBE)"

text \<open>The index at which the loop over \<open>this.topics\<close> finds \<open>topic\<close>.\<close>

fun topic_index :: "bytes list \<Rightarrow> bytes \<Rightarrow> nat option" where
  "topic_index [] topic = None"
| "topic_index (t # ts) topic = (if t = topic then Some 0 else map_option Suc (topic_index ts topic))"

text \<open>\<open>append(xs[:i], xs[i+1:]...)\<close>\<close>

definition delete_at :: "nat \<Rightarrow> 'a list \<Rightarrow> 'a list" where
  "delete_at i xs = take i xs @ drop (Suc i) xs"

text \<open>Both \<open>AddTopic\<close> and \<open>RemoveTopic\<close> index \<open>this.qos\<close>, which panics where that list is too short.\<close>

definition subscribe_AddTopic :: "SubscribeMessage \<Rightarrow> bytes \<Rightarrow> byte \<Rightarrow> (SubscribeMessage \<times> error option) option" where
  "subscribe_AddTopic this topic qos =
     (if \<not> ValidQos qos then Some (this, Some (Errorf ''Invalid QoS %d'' [FInt (uint qos)]))
      else case topic_index (sub_topics this) topic of
        Some i \<Rightarrow>
          (if i < length (sub_qos this) then Some (this\<lparr>sub_qos := (sub_qos this)[i := qos]\<rparr>, None) else None)
      | None \<Rightarrow>
          Some (this\<lparr>sub_topics := sub_topics this @ [topic], sub_qos := sub_qos this @ [qos], dirty := True\<rparr>,
                None))"

definition subscribe_RemoveTopic :: "SubscribeMessage \<Rightarrow> bytes \<Rightarrow> SubscribeMessage option" where
  "subscribe_RemoveTopic this topic =
     (case topic_index (sub_topics this) topic of
        Some i \<Rightarrow>
          (if i < length (sub_qos this) then
             Some (this\<lparr>sub_topics := delete_at i (sub_topics this), sub_qos := delete_at i (sub_qos this),
                        dirty := True\<rparr>)
           else None)
      | None \<Rightarrow> Some (this\<lparr>dirty := True\<rparr>))"

definition subscribe_TopicExists :: "SubscribeMessage \<Rightarrow> bytes \<Rightarrow> bool" where
  "subscribe_TopicExists this topic = (\<exists>t \<in> set (sub_topics this). t = topic)"

definition TopicQos :: "SubscribeMessage \<Rightarrow> bytes \<Rightarrow> byte option" where
  "TopicQos this topic =
     (case topic_index (sub_topics this) topic of
        Some i \<Rightarrow> (if i < length (sub_qos this) then Some (sub_qos this ! i) else None)
      | None \<Rightarrow> Some QosFailure)"

definition subscribe_msglen :: "SubscribeMessage \<Rightarrow> int" where
  "subscribe_msglen this = foldl (\<lambda>total t. total + (2 + int (length t) + 1)) 2 (sub_topics this)"

definition subscribe_Len :: "SubscribeMessage \<Rightarrow> int \<times> SubscribeMessage" where
  "subscribe_Len this = packet_Len (subscribe_msglen this) this"

text \<open>
  The loop of \<open>Decode\<close> over \<open>remlen\<close> remaining bytes; it appends to the lists the message already has.
\<close>

function subscribe_decode_topics ::
    "gslice \<Rightarrow> int \<Rightarrow> int \<Rightarrow> bytes list \<Rightarrow> bytes \<Rightarrow> (bytes list \<times> bytes \<times> int \<times> error option) option" where
  "subscribe_decode_topics src tot rl ts qs =
     (if 0 < rl then do {
        (t, n, err) \<leftarrow> readLP_at src tot;
        if err \<noteq> None then Some (ts, qs, tot + n, err)
        else do {
          q \<leftarrow> slice_get src (tot + n);
          subscribe_decode_topics src (tot + n + 1) (rl - n - 1) (ts @ [t]) (qs @ [q])
        }
      }
      else Some (ts, qs, tot, None))"
  by pat_completeness auto
termination
  by (relation "measure (\<lambda>(src, tot, rl, ts, qs). nat rl)") (auto dest: readLP_at_nonneg)

declare subscribe_decode_topics.simps [simp del]

definition subscribe_Decode ::
    "SubscribeMessage \<Rightarrow> gslice \<Rightarrow> (SubscribeMessage \<times> int \<times> error option) option" where
  "subscribe_Decode this src =
     do { (this, hn, err) \<leftarrow> header_decode this src;
          if err \<noteq> None then Some (this, hn, err)
          else do {
            _ \<leftarrow> slice_range src hn (hn + 2);
            let this = this\<lparr>packetId := InDbuf (nat hn) 2\<rparr>;
            let total = hn + 2;
            (ts, qs, total, err) \<leftarrow> subscribe_decode_topics src total (remlen this - (total - hn))
                                     (sub_topics this) (sub_qos this);
            let this = this\<lparr>sub_topics := ts, sub_qos := qs\<rparr>;
            if err \<noteq> None then Some (this, total, err)
            else if sub_topics this = [] then
              Some (this, 0, Some (Errorf ''subscribe/Decode: Empty topic list'' []))
            else Some (this\<lparr>dirty := False\<rparr>, total, None)
          } }"

text \<open>The loop of \<open>Encode\<close>; \<open>this.qos[i]\<close> panics when there are fewer QoS values than topics.\<close>

fun subscribe_put_topics ::
    "gslice \<Rightarrow> int \<Rightarrow> bytes list \<Rightarrow> bytes \<Rightarrow> (gslice \<times> int \<times> error option) option" where
  "subscribe_put_topics dst tot [] qs = Some (dst, tot, None)"
| "subscribe_put_topics dst tot (t # ts) qs =
     do { (dst, n, err) \<leftarrow> writeLP_at dst tot t;
          if err \<noteq> None then Some (dst, tot + n, err)
          else case qs of
            [] \<Rightarrow> None
          | q # qs' \<Rightarrow> do {
              dst \<leftarrow> slice_set dst (tot + n) q;
              subscribe_put_topics dst (tot + n + 1) ts qs'
            } }"

definition subscribe_Encode ::
    "SubscribeMessage \<Rightarrow> gslice \<Rightarrow> uint64 \<Rightarrow>
     ((SubscribeMessage \<times> gslice \<times> int \<times> error option) \<times> uint64) option" where
  "subscribe_Encode this dst g =
     (if \<not> dirty this then do { r \<leftarrow> encode_clean ''subscribe'' this dst; Some (r, g) }
      else
        (let hl = header_msglen this; ml = subscribe_msglen this in
         if go_len dst < hl + ml then
           Some ((this, dst, 0, Some (Errorf ''subscribe/Encode: Insufficient buffer size. Expecting %d, got %d.''
                                        [FInt (hl + ml), FInt (go_len dst)])), g)
         else
           (let (this, err) = SetRemainingLength this (int32 ml) in
            if err \<noteq> None then Some ((this, dst, 0, err), g)
            else do {
              (this, dst, total, err) \<leftarrow> header_encode this dst;
              if err \<noteq> None then Some ((this, dst, total, err), g)
              else do {
                (this, dst, total, g) \<leftarrow> put_new_packetId this dst total g;
                (dst, total, err) \<leftarrow> subscribe_put_topics dst total (sub_topics this) (sub_qos this);
                Some ((this, dst, total, err), g)
              }
            })))"

section \<open>The list of topics\<close>

text \<open>Every topic has its QoS.\<close>

definition subscribe_wf :: "SubscribeMessage \<Rightarrow> bool" where
  "subscribe_wf m \<longleftrightarrow> length (sub_qos m) = length (sub_topics m)"

text \<open>The requests of a message as a map from topics to QoS.\<close>

definition requests :: "SubscribeMessage \<Rightarrow> bytes \<Rightarrow> byte option" where
  "requests m = map_of (zip (sub_topics m) (sub_qos m))"

lemma topic_index_Some:
  "topic_index ts t = Some i \<Longrightarrow> i < length ts \<and> ts ! i = t"
  by (induction ts arbitrary: i) (auto split: if_splits)

lemma topic_index_None: "topic_index ts t = None \<longleftrightarrow> t \<notin> set ts"
  by (induction ts) auto

lemma map_of_zip_index:
  "length qs = length ts \<Longrightarrow>
   map_of (zip ts qs) t = (case topic_index ts t of Some i \<Rightarrow> Some (qs ! i) | None \<Rightarrow> None)"
  by (induction ts qs rule: list_induct2') (auto split: option.split)

lemma map_of_zip_update:
  "length qs = length ts \<Longrightarrow> topic_index ts t = Some i \<Longrightarrow>
   map_of (zip ts (qs[i := q])) = (map_of (zip ts qs))(t \<mapsto> q)"
  by (induction ts qs arbitrary: i rule: list_induct2') (auto split: if_splits nat.split)

lemma map_of_zip_snoc:
  "length qs = length ts \<Longrightarrow> t \<notin> set ts \<Longrightarrow>
   map_of (zip (ts @ [t]) (qs @ [q])) = (map_of (zip ts qs))(t \<mapsto> q)"
  by (induction ts qs rule: list_induct2') auto

lemma map_of_zip_delete:
  "length qs = length ts \<Longrightarrow> distinct ts \<Longrightarrow> topic_index ts t = Some i \<Longrightarrow>
   map_of (zip (delete_at i ts) (delete_at i qs)) = (map_of (zip ts qs))(t := None)"
proof (induction ts qs arbitrary: i rule: list_induct2')
  case (4 x xs y ys)
  then show ?case
    by (cases i) (auto simp: delete_at_def fun_eq_iff map_of_zip_index topic_index_None
        split: if_splits option.split)
qed auto

section \<open>Encoding and decoding\<close>

fun sub_body :: "bytes list \<Rightarrow> bytes \<Rightarrow> bytes" where
  "sub_body (t # ts) (q # qs) = lp_bytes t @ [q] @ sub_body ts qs"
| "sub_body _ _ = []"

lemma foldl_add_int: "foldl (\<lambda>acc x. acc + f x) (a :: int) xs = a + sum_list (map f xs)"
  by (induction xs arbitrary: a) auto

lemma length_sub_body:
  "length qs = length ts \<Longrightarrow> int (length (sub_body ts qs)) = sum_list (map (\<lambda>t. 2 + int (length t) + 1) ts)"
  by (induction ts qs rule: list_induct2') auto

lemma subscribe_msglen_body:
  "subscribe_wf m \<Longrightarrow> subscribe_msglen m = 2 + int (length (sub_body (sub_topics m) (sub_qos m)))"
  unfolding subscribe_msglen_def foldl_add_int by (simp add: subscribe_wf_def length_sub_body)

definition subscribe_wire :: "byte \<Rightarrow> SubscribeMessage \<Rightarrow> bytes" where
  "subscribe_wire b m =
     header_bytes b (subscribe_msglen m) @ be_bytes (PacketId m) @ sub_body (sub_topics m) (sub_qos m)"

lemma subscribe_put_topics_ok:
  assumes "length qs = length ts" and "\<forall>t \<in> set ts. length t \<le> 65535"
    and "length pre + length (sub_body ts qs) \<le> n" and "n \<le> length pre + length rest"
  shows "subscribe_put_topics (filled n pre rest) (int (length pre)) ts qs =
           Some (filled n (pre @ sub_body ts qs) (drop (length (sub_body ts qs)) rest),
                 int (length pre + length (sub_body ts qs)), None)"
  using assms
proof (induction ts qs arbitrary: pre rest rule: list_induct2')
  case (4 t ts q qs)
  have "subscribe_put_topics (filled n (pre @ lp_bytes t @ [q]) (drop (2 + length t + 1) rest))
          (int (length (pre @ lp_bytes t @ [q]))) ts qs =
        Some (filled n ((pre @ lp_bytes t @ [q]) @ sub_body ts qs)
               (drop (length (sub_body ts qs)) (drop (2 + length t + 1) rest)),
              int (length (pre @ lp_bytes t @ [q]) + length (sub_body ts qs)), None)"
    using 4(2-) by (intro "4.IH") auto
  with 4(2-) show ?case by (simp add: slice_simps algebra_simps)
qed auto

lemma subscribe_decode_topics_ok:
  assumes "length qs = length ts" and "\<forall>t \<in> set ts. length t \<le> 65535"
    and "sl_arr src = pre @ sub_body ts qs @ rest" and "wf_slice src"
    and "length pre + length (sub_body ts qs) \<le> sl_len src"
    and "rl = int (length (sub_body ts qs))"
  shows "subscribe_decode_topics src (int (length pre)) rl ts0 qs0 =
           Some (ts0 @ ts, qs0 @ qs, int (length pre) + rl, None)"
  using assms
proof (induction ts qs arbitrary: pre rl ts0 qs0 rule: list_induct2')
  case (4 t ts q qs)
  let ?pre = "pre @ lp_bytes t @ [q]"
  have "subscribe_decode_topics src (int (length ?pre)) (int (length (sub_body ts qs))) (ts0 @ [t]) (qs0 @ [q])
        = Some ((ts0 @ [t]) @ ts, (qs0 @ [q]) @ qs, int (length ?pre) + int (length (sub_body ts qs)), None)"
    using 4(2-) by (intro "4.IH") auto
  moreover have "readLP_at src (int (length pre)) = Some (t, 2 + int (length t), None)"
    using 4(2-) by (intro readLP_at_app [where rest = "[q] @ sub_body ts qs @ rest"]) auto
  moreover have "slice_get src (int (length pre) + (2 + int (length t))) = Some q"
    using 4(2-) slice_get_pre [of "pre @ lp_bytes t" "sl_len src" _ q "sub_body ts qs @ rest"]
    by (cases src) (simp add: algebra_simps)
  ultimately show ?case
    using 4(2-) by (subst subscribe_decode_topics.simps) (simp add: algebra_simps)
qed (auto simp: subscribe_decode_topics.simps)

lemma subscribe_Encode_ok:
  assumes s: "sendable b (subscribe_msglen m) m" and r: "remlen m = subscribe_msglen m"
    and wf: "subscribe_wf m" and t: "\<forall>t \<in> set (sub_topics m). length t \<le> 65535"
    and m': "assign_packetId m g = (m', g')"
    and dst: "wf_slice dst" "length (subscribe_wire b m') \<le> sl_len dst"
  shows "subscribe_Encode m dst g =
           Some ((m', fill dst (subscribe_wire b m'), int (length (subscribe_wire b m')), None), g')"
proof -
  let ?ml = "subscribe_msglen m" and ?n = "sl_len dst"
  let ?hb = "header_bytes b ?ml" and ?id = "be_bytes (PacketId m')" and ?bd = "sub_body (sub_topics m) (sub_qos m)"
  have same: "sub_topics m' = sub_topics m" "sub_qos m' = sub_qos m"
    using assign_packetId_spec(6) [OF m'] by (cases m; cases m'; simp)+
  then have w: "subscribe_wire b m' = (?hb @ ?id) @ ?bd"
    by (simp add: subscribe_wire_def subscribe_msglen_def)
  have n: "length ?hb + 2 + length ?bd \<le> ?n" using dst(2) by (simp add: w)
  have len: "?n \<le> length (sl_arr dst)" using dst(1) by (simp add: wf_slice_def)
  let ?r = "drop (length ?hb) (sl_arr dst)"
  have "header_encode m dst = Some (m, filled ?n ?hb ?r, int (length ?hb), None)"
    using header_encode_sendable [OF s r dst(1)] n by (simp add: go_len_def)
  moreover have "put_new_packetId m (filled ?n ?hb ?r) (int (length ?hb)) g =
      Some (m', filled ?n (?hb @ ?id) (drop 2 ?r), int (length (?hb @ ?id)), g')"
    using put_new_packetId_filled [OF m'] n by simp
  moreover have "subscribe_put_topics (filled ?n (?hb @ ?id) (drop 2 ?r)) (int (length (?hb @ ?id)))
        (sub_topics m) (sub_qos m) =
      Some (fill dst (subscribe_wire b m'), int (length (subscribe_wire b m')), None)"
    using subscribe_put_topics_ok [of "sub_qos m" "sub_topics m" "?hb @ ?id" ?n "drop 2 ?r"] wf t n len
    by (simp add: w subscribe_wf_def filled_def algebra_simps)
  moreover have "\<not> go_len dst < header_msglen m + ?ml"
    using n header_msglen_sendable [OF s r] by (simp add: go_len_def subscribe_msglen_body [OF wf])
  ultimately show ?thesis
    using s SetRemainingLength_same [OF s r] same
    by (simp add: subscribe_Encode_def sendable_def Let_def del: append_assoc length_append)
qed

lemma subscribe_Decode_ok:
  assumes s: "sendable b (subscribe_msglen m) m" and h0: "flag_byte m0 b0" "drop_bit 4 b0 = drop_bit 4 b"
    and wf: "subscribe_wf m" and t: "\<forall>t \<in> set (sub_topics m). length t \<le> 65535" "sub_topics m \<noteq> []"
    and src: "wf_slice src" "sl_arr src = subscribe_wire b m @ rest" "length (subscribe_wire b m) \<le> sl_len src"
  shows "subscribe_Decode m0 src =
           Some ((decoded m0 src (subscribe_msglen m))
                   \<lparr>packetId := InDbuf (length (header_bytes b (subscribe_msglen m))) 2,
                    sub_topics := sub_topics m0 @ sub_topics m, sub_qos := sub_qos m0 @ sub_qos m,
                    dirty := False\<rparr>,
                 int (length (subscribe_wire b m)), None)"
proof -
  let ?hb = "header_bytes b (subscribe_msglen m)" and ?id = "be_bytes (PacketId m)"
  let ?bd = "sub_body (sub_topics m) (sub_qos m)" and ?d = "decoded m0 src (subscribe_msglen m)"
  have arr: "sl_arr src = ?hb @ ?id @ ?bd @ rest" using src(2) by (simp add: subscribe_wire_def)
  have n: "length ?hb + 2 + length ?bd \<le> sl_len src" using src(3) by (simp add: subscribe_wire_def)
  note ml = subscribe_msglen_body [OF wf]
  have "header_decode m0 src = Some (?d, int (length ?hb), None)"
    using header_decode_sendable [OF s h0 arr src(1)] n by (simp add: go_len_def ml)
  moreover have "slice_range src (int (length ?hb)) (int (length ?hb) + 2) \<noteq> None"
    using arr by (simp add: slice_range_def go_cap_def)
  moreover have "subscribe_decode_topics src (int (length ?hb) + 2) (int (length ?bd)) ts qs =
      Some (ts @ sub_topics m, qs @ sub_qos m, int (length (subscribe_wire b m)), None)" for ts qs
    using subscribe_decode_topics_ok [of "sub_qos m" "sub_topics m" src "?hb @ ?id" rest] arr wf t n src(1)
    by (simp add: subscribe_wf_def subscribe_wire_def algebra_simps)
  moreover have "remlen (?d\<lparr>packetId := v\<rparr>) = 2 + int (length ?bd)" for v by (simp add: decoded_def ml)
  moreover have "sub_topics (?d\<lparr>packetId := v\<rparr>) = sub_topics m0" "sub_qos (?d\<lparr>packetId := v\<rparr>) = sub_qos m0" for v
    by (simp_all add: decoded_def assign_dbuf_def)
  ultimately show ?thesis using t
    by (auto simp: subscribe_Decode_def Let_def)
qed

end
