(* ===== verification/Unsubscribe.thy ===== *)
theory Unsubscribe
  imports Subscribe
begin

text \<open>\<open>src/utils/surgemq/message/unsubscribe.go\<close>: requests to drop subscriptions.\<close>

section \<open>State and operations\<close>

record UnsubscribeMessage = header +
  unsub_topics :: "bytes list"

definition NewUnsubscribeMessage :: UnsubscribeMessage where
  "NewUnsubscribeMessage = fst (SetType (header.extend header0 \<lparr>unsub_topics = []\<rparr>) UNSUBSCRIBE)"

definition unsubscribe_TopicExists :: "UnsubscribeMessage \<Rightarrow> bytes \<Rightarrow> bool" where
  "unsubscribe_TopicExists this topic = (\<exists>t \<in> set (unsub_topics this). t = topic)"

definition unsubscribe_AddTopic :: "UnsubscribeMessage \<Rightarrow> bytes \<Rightarrow> UnsubscribeMessage" where
  "unsubscribe_AddTopic this topic =
     (if unsubscribe_TopicExists this topic then this
      else this\<lparr>unsub_topics := unsub_topics this @ [topic], dirty := True\<rparr>)"

definition unsubscribe_RemoveTopic :: "UnsubscribeMessage \<Rightarrow> bytes \<Rightarrow> UnsubscribeMessage" where
  "unsubscribe_RemoveTopic this topic =
     (case topic_index (unsub_topics this) topic of
        Some i \<Rightarrow> this\<lparr>unsub_topics := delete_at i (unsub_topics this), dirty := True\<rparr>
      | None \<Rightarrow> this\<lparr>dirty := True\<rparr>)"

definition unsubscribe_msglen :: "UnsubscribeMessage \<Rightarrow> int" where
  "unsubscribe_msglen this = foldl (\<lambda>total t. total + (2 + int (length t))) 2 (unsub_topics this)"

definition unsubscribe_Len :: "UnsubscribeMessage \<Rightarrow> int \<times> UnsubscribeMessage" where
  "unsubscribe_Len this = packet_Len (unsubscribe_msglen this) this"

text \<open>
  The loop of \<open>Decode\<close>.  As in the source, every topic takes \<open>n + 1\<close> from \<open>remlen\<close>, although it only
  occupies \<open>n\<close> bytes.
\<close>

function unsubscribe_decode_topics ::
    "gslice \<Rightarrow> int \<Rightarrow> int \<Rightarrow> bytes list \<Rightarrow> (bytes list \<times> int \<times> error option) option" where
  "unsubscribe_decode_topics src tot rl ts =
     (if 0 < rl then do {
        (t, n, err) \<leftarrow> readLP_at src tot;
        if err \<noteq> None then Some (ts, tot + n, err)
        else unsubscribe_decode_topics src (tot + n) (rl - n - 1) (ts @ [t])
      }
      else Some (ts, tot, None))"
  by pat_completeness auto
termination
  by (relation "measure (\<lambda>(src, tot, rl, ts). nat rl)") (auto dest: readLP_at_nonneg)

declare unsubscribe_decode_topics.simps [simp del]

definition unsubscribe_Decode ::
    "UnsubscribeMessage \<Rightarrow> gslice \<Rightarrow> (UnsubscribeMessage \<times> int \<times> error option) option" where
  "unsubscribe_Decode this src =
     do { (this, hn, err) \<leftarrow> header_decode this src;
          if err \<noteq> None then Some (this, hn, err)
          else do {
            _ \<leftarrow> slice_range src hn (hn + 2);
            let this = this\<lparr>packetId := InDbuf (nat hn) 2\<rparr>;
            let total = hn + 2;
            (ts, total, err) \<leftarrow> unsubscribe_decode_topics src total (remlen this - (total - hn)) (unsub_topics this);
            let this = this\<lparr>unsub_topics := ts\<rparr>;
            if err \<noteq> None then Some (this, total, err)
            else if unsub_topics this = [] then
              Some (this, 0, Some (Errorf ''unsubscribe/Decode: Empty topic list'' []))
            else Some (this\<lparr>dirty := False\<rparr>, total, None)
          } }"

fun unsubscribe_put_topics :: "gslice \<Rightarrow> int \<Rightarrow> bytes list \<Rightarrow> (gslice \<times> int \<times> error option) option" where
  "unsubscribe_put_topics dst tot [] = Some (dst, tot, None)"
| "unsubscribe_put_topics dst tot (t # ts) =
     do { (dst, n, err) \<leftarrow> writeLP_at dst tot t;
          if err \<noteq> None then Some (dst, tot + n, err)
          else unsubscribe_put_topics dst (tot + n) ts }"

definition unsubscribe_Encode ::
    "UnsubscribeMessage \<Rightarrow> gslice \<Rightarrow> uint64 \<Rightarrow>
     ((UnsubscribeMessage \<times> gslice \<times> int \<times> error option) \<times> uint64) option" where
  "unsubscribe_Encode this dst g =
     (if \<not> dirty this then do { r \<leftarrow> encode_clean ''unsubscribe'' this dst; Some (r, g) }
      else
        (let hl = header_msglen this; ml = unsubscribe_msglen this in
         if go_len dst < hl + ml then
           Some ((this, dst, 0, Some (Errorf ''unsubscribe/Encode: Insufficient buffer size. Expecting %d, got %d.''
                                        [FInt (hl + ml), FInt (go_len dst)])), g)
         else
           (let (this, err) = SetRemainingLength this (int32 ml) in
            if err \<noteq> None then Some ((this, dst, 0, err), g)
            else do {
              (this, dst, total, err) \<leftarrow> header_encode this dst;
              if err \<noteq> None then Some ((this, dst, total, err), g)
              else do {
                (this, dst, total, g) \<leftarrow> put_new_packetId this dst total g;
                (dst, total, err) \<leftarrow> unsubscribe_put_topics dst total (unsub_topics this);
                Some ((this, dst, total, err), g)
              }
            })))"

section \<open>Encoding and decoding\<close>

fun unsub_body :: "bytes list \<Rightarrow> bytes" where
  "unsub_body [] = []"
| "unsub_body (t # ts) = lp_bytes t @ unsub_body ts"

text \<open>The topics that \<open>Decode\<close> still sees when \<open>d\<close> topics have been read before.\<close>

fun unsub_seen :: "nat \<Rightarrow> bytes list \<Rightarrow> bytes list" where
  "unsub_seen d [] = []"
| "unsub_seen d (t # ts) = (if d < length (unsub_body (t # ts)) then t # unsub_seen (Suc d) ts else [])"

lemma length_unsub_body: "int (length (unsub_body ts)) = sum_list (map (\<lambda>t. 2 + int (length t)) ts)"
  by (induction ts) auto

lemma unsubscribe_msglen_body:
  "unsubscribe_msglen m = 2 + int (length (unsub_body (unsub_topics m)))"
  unfolding unsubscribe_msglen_def foldl_add_int by (simp add: length_unsub_body)

text \<open>No topic is lost exactly when the last one is longer than the number of topics before it, less two.\<close>

lemma unsub_seen_all:
  "unsub_seen d ts = ts \<longleftrightarrow> ts = [] \<or> d + (length ts - 1) < 2 + length (last ts)"
proof (induction ts arbitrary: d)
  case (Cons t ts)
  show ?case
  proof (cases "ts = []")
    case False
    then have "2 + length (last ts) \<le> length (unsub_body ts)" by (induction ts) auto
    with Cons [of "Suc d"] False show ?thesis by (cases ts) auto
  qed simp
qed simp

definition unsubscribe_wire :: "byte \<Rightarrow> UnsubscribeMessage \<Rightarrow> bytes" where
  "unsubscribe_wire b m =
     header_bytes b (unsubscribe_msglen m) @ be_bytes (PacketId m) @ unsub_body (unsub_topics m)"

lemma unsubscribe_put_topics_ok:
  assumes "\<forall>t \<in> set ts. length t \<le> 65535"
    and "length pre + length (unsub_body ts) \<le> n" and "n \<le> length pre + length rest"
  shows "unsubscribe_put_topics (filled n pre rest) (int (length pre)) ts =
           Some (filled n (pre @ unsub_body ts) (drop (length (unsub_body ts)) rest),
                 int (length pre + length (unsub_body ts)), None)"
  using assms
proof (induction ts arbitrary: pre rest)
  case (Cons t ts)
  have "unsubscribe_put_topics (filled n (pre @ lp_bytes t) (drop (2 + length t) rest))
          (int (length (pre @ lp_bytes t))) ts =
        Some (filled n ((pre @ lp_bytes t) @ unsub_body ts)
               (drop (length (unsub_body ts)) (drop (2 + length t) rest)),
              int (length (pre @ lp_bytes t) + length (unsub_body ts)), None)"
    using Cons(2-) by (intro Cons.IH) auto
  with Cons(2-) show ?case by (simp add: slice_simps algebra_simps)
qed simp

lemma unsubscribe_decode_topics_ok:
  assumes "\<forall>t \<in> set ts. length t \<le> 65535"
    and "sl_arr src = pre @ unsub_body ts @ rest" and "wf_slice src"
    and "length pre + length (unsub_body ts) \<le> sl_len src"
    and "rl = int (length (unsub_body ts)) - int d"
  shows "unsubscribe_decode_topics src (int (length pre)) rl ts0 =
           Some (ts0 @ unsub_seen d ts, int (length pre + length (unsub_body (unsub_seen d ts))), None)"
  using assms
proof (induction ts arbitrary: pre rl ts0 d)
  case (Cons t ts)
  let ?pre = "pre @ lp_bytes t"
  have "unsubscribe_decode_topics src (int (length ?pre)) (rl - (2 + int (length t)) - 1) (ts0 @ [t])
        = Some ((ts0 @ [t]) @ unsub_seen (Suc d) ts,
                int (length ?pre + length (unsub_body (unsub_seen (Suc d) ts))), None)"
    using Cons(2-) by (intro Cons.IH) auto
  moreover have "int (length ?pre) = int (length pre) + (2 + int (length t))" by simp
  moreover have "readLP_at src (int (length pre)) = Some (t, 2 + int (length t), None)"
    using Cons(2-) by (intro readLP_at_app [where rest = "unsub_body ts @ rest"]) auto
  moreover have "0 < rl \<longleftrightarrow> d < length (unsub_body (t # ts))" using Cons(6) by simp linarith
  ultimately show ?case
    by (subst unsubscribe_decode_topics.simps) (simp add: algebra_simps)
qed (simp add: unsubscribe_decode_topics.simps)

lemma unsubscribe_Encode_ok:
  assumes s: "sendable b (unsubscribe_msglen m) m" and r: "remlen m = unsubscribe_msglen m"
    and t: "\<forall>t \<in> set (unsub_topics m). length t \<le> 65535"
    and m': "assign_packetId m g = (m', g')"
    and dst: "wf_slice dst" "length (unsubscribe_wire b m') \<le> sl_len dst"
  shows "unsubscribe_Encode m dst g =
           Some ((m', fill dst (unsubscribe_wire b m'), int (length (unsubscribe_wire b m')), None), g')"
proof -
  let ?ml = "unsubscribe_msglen m" and ?n = "sl_len dst"
  let ?hb = "header_bytes b ?ml" and ?id = "be_bytes (PacketId m')" and ?bd = "unsub_body (unsub_topics m)"
  have same: "unsub_topics m' = unsub_topics m"
    using assign_packetId_spec(6) [OF m'] by (cases m; cases m'; simp)
  then have w: "unsubscribe_wire b m' = (?hb @ ?id) @ ?bd"
    by (simp add: unsubscribe_wire_def unsubscribe_msglen_def)
  have n: "length ?hb + 2 + length ?bd \<le> ?n" using dst(2) by (simp add: w)
  have len: "?n \<le> length (sl_arr dst)" using dst(1) by (simp add: wf_slice_def)
  let ?r = "drop (length ?hb) (sl_arr dst)"
  have "header_encode m dst = Some (m, filled ?n ?hb ?r, int (length ?hb), None)"
    using header_encode_sendable [OF s r dst(1)] n by (simp add: go_len_def)
  moreover have "put_new_packetId m (filled ?n ?hb ?r) (int (length ?hb)) g =
      Some (m', filled ?n (?hb @ ?id) (drop 2 ?r), int (length (?hb @ ?id)), g')"
    using put_new_packetId_filled [OF m'] n by simp
  moreover have "unsubscribe_put_topics (filled ?n (?hb @ ?id) (drop 2 ?r)) (int (length (?hb @ ?id)))
        (unsub_topics m) =
      Some (fill dst (unsubscribe_wire b m'), int (length (unsubscribe_wire b m')), None)"
    using unsubscribe_put_topics_ok [of "unsub_topics m" "?hb @ ?id" ?n "drop 2 ?r"] t n len
    by (simp add: w filled_def algebra_simps)
  moreover have "\<not> go_len dst < header_msglen m + ?ml"
    using n header_msglen_sendable [OF s r] by (simp add: go_len_def unsubscribe_msglen_body)
  ultimately show ?thesis
    using s SetRemainingLength_same [OF s r] same
    by (simp add: unsubscribe_Encode_def sendable_def Let_def del: append_assoc length_append)
qed

lemma unsubscribe_Decode_ok:
  assumes s: "sendable b (unsubscribe_msglen m) m" and h0: "flag_byte m0 b0" "drop_bit 4 b0 = drop_bit 4 b"
    and t: "\<forall>t \<in> set (unsub_topics m). length t \<le> 65535" "unsub_topics m \<noteq> []"
    and src: "wf_slice src" "sl_arr src = unsubscribe_wire b m @ rest"
      "length (unsubscribe_wire b m) \<le> sl_len src"
  shows "\<exists>n. unsubscribe_Decode m0 src =
           Some ((decoded m0 src (unsubscribe_msglen m))
                   \<lparr>packetId := InDbuf (length (header_bytes b (unsubscribe_msglen m))) 2,
                    unsub_topics := unsub_topics m0 @ unsub_seen 0 (unsub_topics m), dirty := False\<rparr>, n, None)"
proof -
  let ?hb = "header_bytes b (unsubscribe_msglen m)" and ?id = "be_bytes (PacketId m)"
  let ?bd = "unsub_body (unsub_topics m)" and ?d = "decoded m0 src (unsubscribe_msglen m)"
  have arr: "sl_arr src = ?hb @ ?id @ ?bd @ rest" using src(2) by (simp add: unsubscribe_wire_def)
  have n: "length ?hb + 2 + length ?bd \<le> sl_len src" using src(3) by (simp add: unsubscribe_wire_def)
  note ml = unsubscribe_msglen_body [of m]
  have "header_decode m0 src = Some (?d, int (length ?hb), None)"
    using header_decode_sendable [OF s h0 arr src(1)] n by (simp add: go_len_def ml)
  moreover have "slice_range src (int (length ?hb)) (int (length ?hb) + 2) \<noteq> None"
    using arr by (simp add: slice_range_def go_cap_def)
  moreover obtain k where "unsubscribe_decode_topics src (int (length ?hb) + 2) (int (length ?bd))
      (unsub_topics m0) = Some (unsub_topics m0 @ unsub_seen 0 (unsub_topics m), k, None)"
    using unsubscribe_decode_topics_ok [of "unsub_topics m" src "?hb @ ?id" rest _ 0] arr t n src(1)
    by (simp add: algebra_simps)
  moreover have "remlen (?d\<lparr>packetId := v\<rparr>) = 2 + int (length ?bd)" for v by (simp add: decoded_def ml)
  moreover have "unsub_topics (?d\<lparr>packetId := v\<rparr>) = unsub_topics m0" for v
    by (simp add: decoded_def assign_dbuf_def)
  moreover have "unsub_seen 0 (unsub_topics m) \<noteq> []" using t(2) by (cases "unsub_topics m") auto
  ultimately show ?thesis
    by (auto simp: unsubscribe_Decode_def Let_def)
qed

end
