(* ===== verification/Connect.thy ===== *)
theory Connect
  imports Packet_Common
begin

text \<open>\<open>src/utils/surgemq/message/connect.go\<close>: the first packet of a client.\<close>

section \<open>State and accessors\<close>

record ConnectMessage = header +
  connectFlags :: byte
  version :: byte
  keepAlive :: uint16
  protoName :: bytes
  clientId :: bytes
  willTopic :: bytes
  willMessage :: bytes
  username :: bytes
  password :: bytes

definition NewConnectMessage :: ConnectMessage where
  "NewConnectMessage =
     fst (SetType (header.extend header0
       \<lparr>connectFlags = 0, version = 0, keepAlive = 0, protoName = [], clientId = [], willTopic = [],
        willMessage = [], username = [], password = []\<rparr>) CONNECT)"

definition SetVersion :: "ConnectMessage \<Rightarrow> byte \<Rightarrow> ConnectMessage \<times> error option" where
  "SetVersion this v =
     (if SupportedVersions v = None then
        (this, Some (Errorf ''connect/SetVersion: Invalid version number %d'' [FInt (uint v)]))
      else (this\<lparr>version := v, dirty := True\<rparr>, None))"

definition CleanSession :: "ConnectMessage \<Rightarrow> bool" where
  "CleanSession this \<longleftrightarrow> drop_bit 1 (connectFlags this) AND 0x1 = 1"

definition WillFlag :: "ConnectMessage \<Rightarrow> bool" where
  "WillFlag this \<longleftrightarrow> drop_bit 2 (connectFlags this) AND 0x1 = 1"

definition WillQos :: "ConnectMessage \<Rightarrow> byte" where
  "WillQos this = drop_bit 3 (connectFlags this) AND 0x3"

definition WillRetain :: "ConnectMessage \<Rightarrow> bool" where
  "WillRetain this \<longleftrightarrow> drop_bit 5 (connectFlags this) AND 0x1 = 1"

definition UsernameFlag :: "ConnectMessage \<Rightarrow> bool" where
  "UsernameFlag this \<longleftrightarrow> drop_bit 7 (connectFlags this) AND 0x1 = 1"

definition PasswordFlag :: "ConnectMessage \<Rightarrow> bool" where
  "PasswordFlag this \<longleftrightarrow> drop_bit 6 (connectFlags this) AND 0x1 = 1"

definition SetCleanSession :: "ConnectMessage \<Rightarrow> bool \<Rightarrow> ConnectMessage" where
  "SetCleanSession this v =
     this\<lparr>connectFlags := (if v then connectFlags this OR 0x2 else connectFlags this AND 253), dirty := True\<rparr>"

definition SetWillFlag :: "ConnectMessage \<Rightarrow> bool \<Rightarrow> ConnectMessage" where
  "SetWillFlag this v =
     this\<lparr>connectFlags := (if v then connectFlags this OR 0x4 else connectFlags this AND 251), dirty := True\<rparr>"

definition SetWillQos :: "ConnectMessage \<Rightarrow> byte \<Rightarrow> ConnectMessage \<times> error option" where
  "SetWillQos this qos =
     (if qos \<noteq> QosAtMostOnce \<and> qos \<noteq> QosAtLeastOnce \<and> qos \<noteq> QosExactlyOnce then
        (this, Some (Errorf ''connect/SetWillQos: Invalid QoS level %d'' [FInt (uint qos)]))
      else (this\<lparr>connectFlags := (connectFlags this AND 231) OR push_bit 3 qos, dirty := True\<rparr>, None))"

definition SetWillRetain :: "ConnectMessage \<Rightarrow> bool \<Rightarrow> ConnectMessage" where
  "SetWillRetain this v =
     this\<lparr>connectFlags := (if v then connectFlags this OR 32 else connectFlags this AND 223), dirty := True\<rparr>"

definition SetUsernameFlag :: "ConnectMessage \<Rightarrow> bool \<Rightarrow> ConnectMessage" where
  "SetUsernameFlag this v =
     this\<lparr>connectFlags := (if v then connectFlags this OR 128 else connectFlags this AND 127), dirty := True\<rparr>"

definition SetPasswordFlag :: "ConnectMessage \<Rightarrow> bool \<Rightarrow> ConnectMessage" where
  "SetPasswordFlag this v =
     this\<lparr>connectFlags := (if v then connectFlags this OR 64 else connectFlags this AND 191), dirty := True\<rparr>"

definition SetKeepAlive :: "ConnectMessage \<Rightarrow> uint16 \<Rightarrow> ConnectMessage" where
  "SetKeepAlive this v = this\<lparr>keepAlive := v, dirty := True\<rparr>"

text \<open>
  \<open>strings.ContainsAny(string(cid), "|securemode&algorithm&timeStamp")\<close>: some byte of \<open>cid\<close> is one of
  the characters (all of them ASCII, so that bytes and code points agree).
\<close>

definition clientId_chars :: bytes where
  "clientId_chars = map of_char ''|securemode&algorithm&timeStamp''"

definition validClientId :: "bytes \<Rightarrow> bool" where
  "validClientId cid \<longleftrightarrow> (\<exists>c \<in> set cid. c \<in> set clientId_chars)"

definition SetClientId :: "ConnectMessage \<Rightarrow> bytes \<Rightarrow> ConnectMessage \<times> error option" where
  "SetClientId this v =
     (if length v \<le> 0 then (this, Some (ConnackErr ErrIdentifierRejected))
      else if \<not> validClientId v then (this, Some (ConnackErr ErrIdentifierRejected))
      else (this\<lparr>clientId := v, dirty := True\<rparr>, None))"

definition SetWillTopic :: "ConnectMessage \<Rightarrow> bytes \<Rightarrow> ConnectMessage" where
  "SetWillTopic this v =
     (let this = this\<lparr>willTopic := v\<rparr>;
          this = (if length v > 0 then SetWillFlag this True
                  else if length (willMessage this) = 0 then SetWillFlag this False else this)
      in this\<lparr>dirty := True\<rparr>)"

definition SetWillMessage :: "ConnectMessage \<Rightarrow> bytes \<Rightarrow> ConnectMessage" where
  "SetWillMessage this v =
     (let this = this\<lparr>willMessage := v\<rparr>;
          this = (if length v > 0 then SetWillFlag this True
                  else if length (willTopic this) = 0 then SetWillFlag this False else this)
      in this\<lparr>dirty := True\<rparr>)"

definition SetUsername :: "ConnectMessage \<Rightarrow> bytes \<Rightarrow> ConnectMessage" where
  "SetUsername this v = (SetUsernameFlag (this\<lparr>username := v\<rparr>) (length v > 0))\<lparr>dirty := True\<rparr>"

definition SetPassword :: "ConnectMessage \<Rightarrow> bytes \<Rightarrow> ConnectMessage" where
  "SetPassword this v = (SetPasswordFlag (this\<lparr>password := v\<rparr>) (length v > 0))\<lparr>dirty := True\<rparr>"

section \<open>Lengths, encoding, decoding\<close>

definition connect_msglen :: "ConnectMessage \<Rightarrow> int" where
  "connect_msglen this =
     (case SupportedVersions (version this) of
        None \<Rightarrow> 0
      | Some verstr \<Rightarrow>
          (2 + int (length verstr) + 1 + 1 + 2) + (2 + int (length (clientId this)))
          + (if WillFlag this then 2 + int (length (willTopic this)) + 2 + int (length (willMessage this)) else 0)
          + (if UsernameFlag this \<and> 0 < length (username this) then 2 + int (length (username this)) else 0)
          + (if PasswordFlag this \<and> 0 < length (password this) then 2 + int (length (password this)) else 0))"

definition connect_Len :: "ConnectMessage \<Rightarrow> int \<times> ConnectMessage" where
  "connect_Len this = packet_Len (connect_msglen this) this"

text \<open>
  A field that is written or read under a condition: \<open>n, err = writeLPBytes(dst[total:], f); total += n\<close>
  and \<open>f, n, err = readLPBytes(src[total:]); total += n\<close>.
\<close>

definition write_field :: "bool \<Rightarrow> gslice \<Rightarrow> int \<Rightarrow> bytes \<Rightarrow> (gslice \<times> int \<times> error option) option" where
  "write_field c dst tot f =
     (if c then do { (dst, n, err) \<leftarrow> writeLP_at dst tot f; Some (dst, tot + n, err) }
      else Some (dst, tot, None))"

definition PutUint16_at :: "gslice \<Rightarrow> int \<Rightarrow> uint16 \<Rightarrow> gslice option" where
  "PutUint16_at dst tot v =
     do { t \<leftarrow> slice_from dst tot; t \<leftarrow> BigEndian_PutUint16 t v; Some (slice_join dst tot t) }"

definition read_field :: "bool \<Rightarrow> gslice \<Rightarrow> int \<Rightarrow> bytes \<Rightarrow> (bytes \<times> int \<times> error option) option" where
  "read_field c src tot f =
     (if c then do { (f, n, err) \<leftarrow> readLP_at src tot; Some (f, tot + n, err) }
      else Some (f, tot, None))"

definition encodeMessage :: "ConnectMessage \<Rightarrow> gslice \<Rightarrow> (gslice \<times> int \<times> error option) option" where
  "encodeMessage this dst =
     do { let verstr = (case SupportedVersions (version this) of Some s \<Rightarrow> s | None \<Rightarrow> []);
          (dst, total, err) \<leftarrow> write_field True dst 0 verstr;
          if err \<noteq> None then Some (dst, total, err)
          else do {
            dst \<leftarrow> slice_set dst total (version this);
            dst \<leftarrow> slice_set dst (total + 1) (connectFlags this);
            let total = total + 2;
            dst \<leftarrow> PutUint16_at dst total (keepAlive this);
            let total = total + 2;
            (dst, total, err) \<leftarrow> write_field True dst total (clientId this);
            if err \<noteq> None then Some (dst, total, err)
            else do {
              (dst, total, err) \<leftarrow> write_field (WillFlag this) dst total (willTopic this);
              if err \<noteq> None then Some (dst, total, err)
              else do {
                (dst, total, err) \<leftarrow> write_field (WillFlag this) dst total (willMessage this);
                if err \<noteq> None then Some (dst, total, err)
                else do {
                  (dst, total, err) \<leftarrow>
                    write_field (UsernameFlag this \<and> 0 < length (username this)) dst total (username this);
                  if err \<noteq> None then Some (dst, total, err)
                  else write_field (PasswordFlag this \<and> 0 < length (password this)) dst total (password this)
                }
              }
            }
          } }"

definition connect_Encode ::
    "ConnectMessage \<Rightarrow> gslice \<Rightarrow> (ConnectMessage \<times> gslice \<times> int \<times> error option) option" where
  "connect_Encode this dst =
     (if \<not> dirty this then encode_clean ''connect'' this dst
      else
        (let (t, this) = Type this in
         if t \<noteq> CONNECT then
           Some (this, dst, 0, Some (Errorf ''connect/Encode: Invalid message type. Expecting %d, got %d''
                                       [FInt 1, FInt (uint t)]))
         else if SupportedVersions (version this) = None then
           Some (this, dst, 0, Some (ConnackErr ErrInvalidProtocolVersion))
         else
           (let hl = header_msglen this; ml = connect_msglen this in
            if go_len dst < hl + ml then
              Some (this, dst, 0, Some (Errorf ''connect/Encode: Insufficient buffer size. Expecting %d, got %d.''
                                          [FInt (hl + ml), FInt (go_len dst)]))
            else
              (let (this, err) = SetRemainingLength this (int32 ml) in
               if err \<noteq> None then Some (this, dst, 0, err)
               else do {
                 (this, dst, total, err) \<leftarrow> header_encode this dst;
                 if err \<noteq> None then Some (this, dst, total, err)
                 else do {
                   t \<leftarrow> slice_from dst total;
                   (t, n, err) \<leftarrow> encodeMessage this t;
                   Some (this, slice_join dst total t, total + n, err)
                 }
               }))))"

text \<open>
  The checks of \<open>decodeMessage\<close> on the connect flags, in the order of the source: the first violation.
\<close>

definition check_connect_flags :: "ConnectMessage \<Rightarrow> error option" where
  "check_connect_flags this =
     (if connectFlags this AND 0x1 \<noteq> 0 then
        Some (Errorf ''connect/decodeMessage: Connect Flags reserved bit 0 is not 0'' [])
      else if QosExactlyOnce < WillQos this then
        Some (Errorf ''connect/decodeMessage: Invalid QoS level (%d) for %s message''
                [FInt (uint (WillQos this)), FStr (MessageType_Name (fst (Type this)))])
      else if \<not> WillFlag this \<and> (WillRetain this \<or> WillQos this \<noteq> QosAtMostOnce) then
        Some (Errorf ''connect/decodeMessage: Protocol violation: If the Will Flag (%t) is set to 0 the Will QoS (%d) and Will Retain (%t) fields MUST be set to zero''
                [FBool (WillFlag this), FInt (uint (WillQos this)), FBool (WillRetain this)])
      else if \<not> UsernameFlag this \<and> PasswordFlag this then
        Some (Errorf ''connect/decodeMessage: Username flag is not set but Password flag is set, invalid'' [])
      else None)"

text \<open>The part of \<open>decodeMessage\<close> after the client identifier: will, user name, password.\<close>

definition decode_credentials ::
    "ConnectMessage \<Rightarrow> gslice \<Rightarrow> int \<Rightarrow> (ConnectMessage \<times> int \<times> error option) option" where
  "decode_credentials this src tot =
     do { (f, total, err) \<leftarrow> read_field (WillFlag this) src tot (willTopic this);
          let this = this\<lparr>willTopic := f\<rparr>;
          if err \<noteq> None then Some (this, total, err)
          else do {
            (f, total, err) \<leftarrow> read_field (WillFlag this) src total (willMessage this);
            let this = this\<lparr>willMessage := f\<rparr>;
            if err \<noteq> None then Some (this, total, err)
            else do {
              c \<leftarrow> (if UsernameFlag this then do { r \<leftarrow> slice_from src total; Some (0 < go_len r) } else Some False);
              (f, total, err) \<leftarrow> read_field c src total (username this);
              let this = this\<lparr>username := f\<rparr>;
              if err \<noteq> None then Some (this, total, err)
              else do {
                c \<leftarrow> (if PasswordFlag this then do { r \<leftarrow> slice_from src total; Some (0 < go_len r) } else Some False);
                (f, total, err) \<leftarrow> read_field c src total (password this);
                Some (this\<lparr>password := f\<rparr>, total, err)
              }
            }
          } }"

definition decodeMessage :: "ConnectMessage \<Rightarrow> gslice \<Rightarrow> (ConnectMessage \<times> int \<times> error option) option" where
  "decodeMessage this src =
     do { (f, total, err) \<leftarrow> read_field True src 0 (protoName this);
          let this = this\<lparr>protoName := f\<rparr>;
          if err \<noteq> None then Some (this, total, err)
          else do {
            v \<leftarrow> slice_get src total;
            let this = this\<lparr>version := v\<rparr>;
            let total = total + 1;
            if SupportedVersions (version this) \<noteq> Some (protoName this) then
              Some (this, total, Some (ConnackErr ErrInvalidProtocolVersion))
            else do {
              fl \<leftarrow> slice_get src total;
              let this = this\<lparr>connectFlags := fl\<rparr>;
              let total = total + 1;
              case check_connect_flags this of
                Some e \<Rightarrow> Some (this, total, Some e)
              | None \<Rightarrow> do {
                  t \<leftarrow> slice_from src total;
                  if go_len t < 2 then
                    Some (this, 0, Some (Errorf ''connect/decodeMessage: Insufficient buffer size. Expecting %d, got %d.''
                                           [FInt 2, FInt (go_len t)]))
                  else do {
                    k \<leftarrow> BigEndian_Uint16 t;
                    let this = this\<lparr>keepAlive := k\<rparr>;
                    let total = total + 2;
                    (f, total, err) \<leftarrow> read_field True src total (clientId this);
                    let this = this\<lparr>clientId := f\<rparr>;
                    if err \<noteq> None then Some (this, total, err)
                    else if length (clientId this) = 0 \<and> \<not> CleanSession this then
                      Some (this, total, Some (ConnackErr ErrIdentifierRejected))
                    else if 0 < length (clientId this) \<and> \<not> validClientId (clientId this) then
                      Some (this, total, Some (ConnackErr ErrIdentifierRejected))
                    else decode_credentials this src total
                  }
                }
            }
          } }"

definition connect_Decode :: "ConnectMessage \<Rightarrow> gslice \<Rightarrow> (ConnectMessage \<times> int \<times> error option) option" where
  "connect_Decode this src =
     do { (this, n, err) \<leftarrow> header_decode this src;
          if err \<noteq> None then Some (this, n, err)
          else do {
            let total = n;
            t \<leftarrow> slice_from src total;
            (this, n, err) \<leftarrow> decodeMessage this t;
            if err \<noteq> None then Some (this, total + n, err)
            else Some (this\<lparr>dirty := False\<rparr>, total + n, None)
          } }"

section \<open>The connect flags\<close>

lemma flag_bit: "(drop_bit k (b :: byte) AND 1 = 1) \<longleftrightarrow> bit b k"
  by (simp add: bit_iff_odd_drop_bit and_one_eq odd_iff_mod_2_eq_one)

lemma byte_masks:
  "(253 :: byte) = NOT (push_bit 1 1)" "(251 :: byte) = NOT (push_bit 2 1)" "(223 :: byte) = NOT (push_bit 5 1)"
  "(191 :: byte) = NOT (push_bit 6 1)" "(127 :: byte) = NOT (push_bit 7 1)" "(231 :: byte) = NOT (push_bit 3 3)"
  by simp_all

lemma byte_flags:
  "(2 :: byte) = push_bit 1 1" "(4 :: byte) = push_bit 2 1" "(32 :: byte) = push_bit 5 1"
  "(64 :: byte) = push_bit 6 1" "(128 :: byte) = push_bit 7 1"
  by simp_all

lemmas connect_flag_defs =
  CleanSession_def WillFlag_def WillRetain_def UsernameFlag_def PasswordFlag_def flag_bit

text \<open>A setter of one flag bit sets that bit and keeps the others.\<close>

lemma set_flag_bit:
  "k < 8 \<Longrightarrow> bit (if v then b OR push_bit k 1 else b AND NOT (push_bit k 1)) j
     \<longleftrightarrow> (if j = k then v else bit (b :: byte) j)"
  by (auto simp: bit_simps bit_1_iff dest: bit_imp_le_length)

lemma connectFlags_setters:
  "bit (connectFlags (SetCleanSession m v)) j = (if j = 1 then v else bit (connectFlags m) j)"
  "bit (connectFlags (SetWillFlag m v)) j = (if j = 2 then v else bit (connectFlags m) j)"
  "bit (connectFlags (SetWillRetain m v)) j = (if j = 5 then v else bit (connectFlags m) j)"
  "bit (connectFlags (SetPasswordFlag m v)) j = (if j = 6 then v else bit (connectFlags m) j)"
  "bit (connectFlags (SetUsernameFlag m v)) j = (if j = 7 then v else bit (connectFlags m) j)"
  using set_flag_bit [of 1 v "connectFlags m" j] set_flag_bit [of 2 v "connectFlags m" j]
    set_flag_bit [of 5 v "connectFlags m" j] set_flag_bit [of 6 v "connectFlags m" j]
    set_flag_bit [of 7 v "connectFlags m" j]
  by (simp_all only: SetCleanSession_def SetWillFlag_def SetWillRetain_def SetPasswordFlag_def
      SetUsernameFlag_def byte_masks byte_flags ConnectMessage.simps) simp_all

lemma drop_and_3: "drop_bit k (b :: byte) AND 3 = take_bit 2 (drop_bit k b)"
  by (simp add: take_bit_eq_mask mask_eq_exp_minus_1)

lemma SetWillQos_spec:
  assumes "ValidQos q"
  shows "snd (SetWillQos m q) = None" and "WillQos (fst (SetWillQos m q)) = q"
    and "j \<noteq> 3 \<Longrightarrow> j \<noteq> 4 \<Longrightarrow> bit (connectFlags (fst (SetWillQos m q))) j = bit (connectFlags m) j"
proof -
  have q: "\<not> bit q n" if "2 \<le> n" for n
    using assms that by (auto simp: ValidQos_def bit_simps bit_1_iff)
  define t :: byte where "t = 3"
  have fl: "connectFlags (fst (SetWillQos m q)) = (connectFlags m AND NOT (push_bit 3 t)) OR push_bit 3 q"
    unfolding t_def
    using assms by (auto simp add: SetWillQos_def ValidQos_def byte_masks(6) [symmetric] simp del: push_bit_numeral)
  have b3: "bit t n \<longleftrightarrow> n < 2" for n
  proof -
    have "t = mask 2" by (simp add: t_def mask_eq_exp_minus_1)
    then show ?thesis by (simp only: bit_mask_iff) auto
  qed
  show "snd (SetWillQos m q) = None" using assms by (auto simp: SetWillQos_def ValidQos_def)
  show "WillQos (fst (SetWillQos m q)) = q"
    unfolding WillQos_def fl drop_and_3
    by (rule bit_word_eqI) (use q in \<open>auto simp: bit_simps b3 simp flip: not_le\<close>)
  show "bit (connectFlags (fst (SetWillQos m q))) j = bit (connectFlags m) j" if "j \<noteq> 3" "j \<noteq> 4"
    unfolding fl using that q
    by (auto simp: bit_simps b3 dest: bit_imp_le_length)
qed

section \<open>Encoding and decoding\<close>

definition opt_lp :: "bool \<Rightarrow> bytes \<Rightarrow> bytes" where
  "opt_lp c b = (if c then lp_bytes b else [])"

text \<open>The buffer \<open>dst\<close> after the bytes \<open>pre\<close> have been written to its front.\<close>

definition written :: "gslice \<Rightarrow> bytes \<Rightarrow> gslice" where
  "written dst pre = filled (sl_len dst) pre (drop (length pre) (sl_arr dst))"

lemma write_field_written:
  assumes "tot = int (length pre)" and "length b \<le> 65535" and "wf_slice dst"
    and "length (pre @ opt_lp c b) \<le> sl_len dst"
  shows "write_field c (written dst pre) tot b =
           Some (written dst (pre @ opt_lp c b), int (length (pre @ opt_lp c b)), None)"
  using assms writeLP_at_filled [of tot pre b "sl_len dst" "drop (length pre) (sl_arr dst)"]
  by (auto simp: write_field_def opt_lp_def written_def wf_slice_def add.commute)

lemma slice_set_written:
  assumes "tot = int (length pre)" and "length pre < sl_len dst" and "wf_slice dst"
  shows "slice_set (written dst pre) tot c = Some (written dst (pre @ [c]))"
  using assms by (simp add: written_def slice_set_filled wf_slice_def)

lemma put_Uint16_written:
  assumes "tot = int (length pre)" and "length pre + 2 \<le> sl_len dst" and "wf_slice dst"
  shows "PutUint16_at (written dst pre) tot v = Some (written dst (pre @ be_bytes v))"
  using assms BigEndian_PutUint16_fit [of "\<lparr>sl_len = sl_len dst - length pre, sl_arr = drop (length pre) (sl_arr dst)\<rparr>" v]
  by (simp add: PutUint16_at_def written_def filled_def slice_simps wf_slice_def add.commute)

lemma read_field_app:
  assumes "sl_arr src = pre @ opt_lp c b @ rest" and "tot = int (length pre)" and "length b \<le> 65535"
    and "length (pre @ opt_lp c b) \<le> sl_len src"
  shows "read_field c src tot f = Some (if c then b else f, int (length (pre @ opt_lp c b)), None)"
  using assms readLP_at_app [of src pre b rest tot] by (auto simp: read_field_def opt_lp_def)

text \<open>The messages that a client may send: what \<open>decodeMessage\<close> checks, and fields that fit.\<close>

definition connect_ok :: "ConnectMessage \<Rightarrow> bool" where
  "connect_ok m \<longleftrightarrow>
     SupportedVersions (version m) \<noteq> None \<and> check_connect_flags m = None
     \<and> (if clientId m = [] then CleanSession m else validClientId (clientId m))
     \<and> (UsernameFlag m \<longrightarrow> username m \<noteq> []) \<and> (PasswordFlag m \<longrightarrow> password m \<noteq> [])
     \<and> length (clientId m) \<le> 65535 \<and> length (willTopic m) \<le> 65535 \<and> length (willMessage m) \<le> 65535
     \<and> length (username m) \<le> 65535 \<and> length (password m) \<le> 65535"

definition proto :: "ConnectMessage \<Rightarrow> bytes" where
  "proto m = (case SupportedVersions (version m) of Some s \<Rightarrow> s | None \<Rightarrow> [])"

definition connect_fixed :: "ConnectMessage \<Rightarrow> bytes" where
  "connect_fixed m = ((lp_bytes (proto m) @ [version m]) @ [connectFlags m]) @ be_bytes (keepAlive m)"

definition connect_body :: "ConnectMessage \<Rightarrow> bytes" where
  "connect_body m =
     ((((connect_fixed m @ opt_lp True (clientId m)) @ opt_lp (WillFlag m) (willTopic m))
        @ opt_lp (WillFlag m) (willMessage m))
        @ opt_lp (UsernameFlag m) (username m)) @ opt_lp (PasswordFlag m) (password m)"

definition connect_wire :: "byte \<Rightarrow> ConnectMessage \<Rightarrow> bytes" where
  "connect_wire b m = header_bytes b (connect_msglen m) @ connect_body m"

lemma length_proto: "length (proto m) \<le> 65535"
  by (simp add: proto_def SupportedVersions_def)

lemma connect_msglen_body: "connect_ok m \<Longrightarrow> connect_msglen m = int (length (connect_body m))"
  by (auto simp: connect_ok_def connect_msglen_def connect_body_def connect_fixed_def proto_def opt_lp_def)

lemma encodeMessage_ok:
  assumes ok: "connect_ok m" and dst: "length (connect_body m) \<le> sl_len dst" "wf_slice dst"
  shows "encodeMessage m (written dst []) =
           Some (written dst (connect_body m), int (length (connect_body m)), None)"
proof -
  let ?p = "lp_bytes (proto m)" and ?f = "connect_fixed m"
  let ?c = "?f @ opt_lp True (clientId m)"
  let ?w = "?c @ opt_lp (WillFlag m) (willTopic m)"
  let ?v = "?w @ opt_lp (WillFlag m) (willMessage m)"
  let ?u = "?v @ opt_lp (UsernameFlag m) (username m)"
  have len: "length ?u \<le> sl_len dst" "length ?v \<le> sl_len dst" "length ?w \<le> sl_len dst"
    "length ?c \<le> sl_len dst" "length ?f \<le> sl_len dst"
    using dst(1) by (simp_all add: connect_body_def)
  have u: "(UsernameFlag m \<and> 0 < length (username m)) = UsernameFlag m"
    "(PasswordFlag m \<and> 0 < length (password m)) = PasswordFlag m"
    using ok by (auto simp: connect_ok_def)
  have "write_field True (written dst []) 0 (proto m) = Some (written dst ?p, int (length ?p), None)"
    using write_field_written [of 0 "[]" "proto m" dst True] length_proto [of m] len(5) dst(2)
    by (simp add: opt_lp_def connect_fixed_def)
  moreover have "slice_set (written dst ?p) (int (length ?p)) (version m) = Some (written dst (?p @ [version m]))"
    using len(5) dst(2) by (intro slice_set_written) (simp_all add: connect_fixed_def)
  moreover have "slice_set (written dst (?p @ [version m])) (int (length ?p) + 1) (connectFlags m) =
      Some (written dst ((?p @ [version m]) @ [connectFlags m]))"
    using len(5) dst(2) by (intro slice_set_written) (simp_all add: connect_fixed_def)
  moreover have "PutUint16_at (written dst ((?p @ [version m]) @ [connectFlags m])) (int (length ?p) + 2)
      (keepAlive m) = Some (written dst ?f)"
    unfolding connect_fixed_def
    using len(5) dst(2) by (intro put_Uint16_written) (simp_all add: connect_fixed_def)
  moreover have "write_field True (written dst ?f) (int (length ?p) + 2 + 2) (clientId m) =
      Some (written dst ?c, int (length ?c), None)"
    using ok len(4) dst(2) by (intro write_field_written) (simp_all add: connect_ok_def connect_fixed_def)
  moreover have "write_field (WillFlag m) (written dst ?c) (int (length ?c)) (willTopic m) =
      Some (written dst ?w, int (length ?w), None)"
    using ok len(3) dst(2) by (intro write_field_written) (simp_all add: connect_ok_def)
  moreover have "write_field (WillFlag m) (written dst ?w) (int (length ?w)) (willMessage m) =
      Some (written dst ?v, int (length ?v), None)"
    using ok len(2) dst(2) by (intro write_field_written) (simp_all add: connect_ok_def)
  moreover have "write_field (UsernameFlag m) (written dst ?v) (int (length ?v)) (username m) =
      Some (written dst ?u, int (length ?u), None)"
    using ok len(1) dst(2) by (intro write_field_written) (simp_all add: connect_ok_def)
  moreover have "write_field (PasswordFlag m) (written dst ?u) (int (length ?u)) (password m) =
      Some (written dst (connect_body m), int (length (connect_body m)), None)"
    unfolding connect_body_def
    using ok dst by (intro write_field_written) (simp_all add: connect_ok_def connect_body_def)
  ultimately show ?thesis
    unfolding encodeMessage_def proto_def [symmetric] u
    by (simp add: Let_def del: length_append append_assoc)
qed

lemma connect_Encode_ok:
  assumes s: "sendable (type_byte CONNECT) (connect_msglen m) m" and r: "remlen m = connect_msglen m"
    and ok: "connect_ok m" and dst: "wf_slice dst" "length (connect_wire (type_byte CONNECT) m) \<le> sl_len dst"
  shows "connect_Encode m dst =
           Some (m, fill dst (connect_wire (type_byte CONNECT) m),
                 int (length (connect_wire (type_byte CONNECT) m)), None)"
proof -
  let ?b = "type_byte CONNECT"
  let ?hb = "header_bytes ?b (connect_msglen m)" and ?n = "sl_len dst"
  let ?r = "drop (length ?hb) (sl_arr dst)"
  let ?t = "\<lparr>sl_len = ?n - length ?hb, sl_arr = ?r\<rparr>"
  have n: "length ?hb + length (connect_body m) \<le> ?n" using dst(2) by (simp add: connect_wire_def)
  have fb: "flag_byte m ?b" using s by (simp add: sendable_def)
  have "written ?t [] = ?t" by (simp add: written_def filled_def)
  then have "encodeMessage m ?t = Some (written ?t (connect_body m), int (length (connect_body m)), None)"
    using encodeMessage_ok [OF ok, of ?t] n dst(1) by (simp add: wf_slice_def)
  moreover have "header_encode m dst = Some (m, filled ?n ?hb ?r, int (length ?hb), None)"
    using header_encode_sendable [OF s r dst(1)] n by (simp add: go_len_def)
  moreover have "slice_from (filled ?n ?hb ?r) (int (length ?hb)) = Some ?t"
    using n unfolding filled_def by (intro slice_from_pre) auto
  moreover have "slice_join (filled ?n ?hb ?r) (int (length ?hb)) (written ?t (connect_body m)) =
      fill dst (connect_wire ?b m)"
    by (cases dst) (simp add: filled_def written_def slice_join_pre connect_wire_def add.commute)
  moreover have "\<not> go_len dst < header_msglen m + connect_msglen m"
    using n header_msglen_sendable [OF s r] by (simp add: go_len_def connect_msglen_body [OF ok])
  moreover have "Type m = (CONNECT, m)"
    using Type_flag_byte [OF fb] type_byte_type [of CONNECT] by (simp add: MessageType_Valid_iff)
  ultimately show ?thesis
    using s SetRemainingLength_same [OF s r] ok
    by (simp add: connect_Encode_def sendable_def Let_def connect_ok_def connect_wire_def)
qed

text \<open>The flags only depend on the flag byte.\<close>

lemma connect_flags_cong:
  assumes "connectFlags m = connectFlags m'"
  shows "WillFlag m = WillFlag m'" "UsernameFlag m = UsernameFlag m'" "PasswordFlag m = PasswordFlag m'"
    "CleanSession m = CleanSession m'" "check_connect_flags m = None \<longleftrightarrow> check_connect_flags m' = None"
  using assms
  by (simp_all add: connect_flag_defs check_connect_flags_def WillQos_def)

lemma connect_flags_frame [simp]:
  "WillFlag (m\<lparr>willTopic := f\<rparr>) = WillFlag m" "UsernameFlag (m\<lparr>willTopic := f\<rparr>) = UsernameFlag m"
  "PasswordFlag (m\<lparr>willTopic := f\<rparr>) = PasswordFlag m" "WillFlag (m\<lparr>willMessage := f\<rparr>) = WillFlag m"
  "UsernameFlag (m\<lparr>willMessage := f\<rparr>) = UsernameFlag m" "PasswordFlag (m\<lparr>willMessage := f\<rparr>) = PasswordFlag m"
  "UsernameFlag (m\<lparr>username := f\<rparr>) = UsernameFlag m" "PasswordFlag (m\<lparr>username := f\<rparr>) = PasswordFlag m"
  "CleanSession (m\<lparr>clientId := f\<rparr>) = CleanSession m" "CleanSession (m\<lparr>keepAlive := k\<rparr>) = CleanSession m"
  by (rule connect_flags_cong; simp)+

text \<open>The state after the client's fields have been read into \<open>m0\<close>.\<close>

definition connect_fields :: "ConnectMessage \<Rightarrow> ConnectMessage \<Rightarrow> ConnectMessage" where
  "connect_fields m m0 =
     m0\<lparr>protoName := proto m, version := version m, connectFlags := connectFlags m, keepAlive := keepAlive m,
        clientId := clientId m,
        willTopic := (if WillFlag m then willTopic m else willTopic m0),
        willMessage := (if WillFlag m then willMessage m else willMessage m0),
        username := (if UsernameFlag m then username m else username m0),
        password := (if PasswordFlag m then password m else password m0)\<rparr>"

lemma decode_credentials_ok:
  assumes ok: "connect_ok m" and fl: "connectFlags m0 = connectFlags m"
    and src: "sl_arr src = connect_body m @ rest" "sl_len src = length (connect_body m)"
    and tot: "tot = int (length (connect_fixed m @ opt_lp True (clientId m)))"
  shows "decode_credentials m0 src tot =
           Some (m0\<lparr>willTopic := (if WillFlag m then willTopic m else willTopic m0),
                    willMessage := (if WillFlag m then willMessage m else willMessage m0),
                    username := (if UsernameFlag m then username m else username m0),
                    password := (if PasswordFlag m then password m else password m0)\<rparr>,
                 int (length (connect_body m)), None)"
proof -
  let ?c = "connect_fixed m @ opt_lp True (clientId m)"
  let ?w = "?c @ opt_lp (WillFlag m) (willTopic m)"
  let ?v = "?w @ opt_lp (WillFlag m) (willMessage m)"
  let ?u = "?v @ opt_lp (UsernameFlag m) (username m)"
  have body: "connect_body m = ?u @ opt_lp (PasswordFlag m) (password m)" by (simp add: connect_body_def)
  note flags = connect_flags_cong(1-3) [OF fl]
  have rf: "read_field c src (int (length pre)) f = Some (if c then b else f, int (length (pre @ opt_lp c b)), None)"
    if "connect_body m @ rest = pre @ opt_lp c b @ q" "length b \<le> 65535"
      "length (pre @ opt_lp c b) \<le> length (connect_body m)" for c b pre q f
    using that src by (intro read_field_app) auto
  have "read_field (WillFlag m) src tot f =
      Some (if WillFlag m then willTopic m else f, int (length ?w), None)" for f
    unfolding tot using ok by (intro rf) (auto simp: body connect_ok_def)
  moreover have "read_field (WillFlag m) src (int (length ?w)) f =
      Some (if WillFlag m then willMessage m else f, int (length ?v), None)" for f
    using ok by (intro rf) (auto simp: body connect_ok_def)
  moreover have "read_field (UsernameFlag m) src (int (length ?v)) f =
      Some (if UsernameFlag m then username m else f, int (length ?u), None)" for f
    using ok by (intro rf) (auto simp: body connect_ok_def)
  moreover have "read_field (PasswordFlag m) src (int (length ?u)) f =
      Some (if PasswordFlag m then password m else f, int (length (connect_body m)), None)" for f
    unfolding body using ok by (intro rf) (auto simp: body connect_ok_def)
  moreover have "(if UsernameFlag m then do { r \<leftarrow> slice_from src (int (length ?v)); Some (0 < go_len r) }
      else Some False) = Some (UsernameFlag m)"
    using src by (auto simp: slice_from_def go_len_def body opt_lp_def)
  moreover have "(if PasswordFlag m then do { r \<leftarrow> slice_from src (int (length ?u)); Some (0 < go_len r) }
      else Some False) = Some (PasswordFlag m)"
    using src by (auto simp: slice_from_def go_len_def body opt_lp_def)
  ultimately show ?thesis
    using fl by (simp add: decode_credentials_def Let_def flags del: length_append append_assoc split del: if_split)
qed

lemma decodeMessage_ok:
  assumes ok: "connect_ok m"
    and src: "sl_arr src = connect_body m @ rest" "sl_len src = length (connect_body m)"
  shows "decodeMessage m0 src = Some (connect_fields m m0, int (length (connect_body m)), None)"
proof -
  let ?p = "lp_bytes (proto m)" and ?c = "connect_fixed m @ opt_lp True (clientId m)"
  let ?post = "opt_lp (WillFlag m) (willTopic m) @ opt_lp (WillFlag m) (willMessage m) @
    opt_lp (UsernameFlag m) (username m) @ opt_lp (PasswordFlag m) (password m) @ rest"
  have arr: "sl_arr src = ?p @ version m # connectFlags m # be_bytes (keepAlive m) @ lp_bytes (clientId m) @ ?post"
    using src(1) by (simp add: connect_body_def connect_fixed_def opt_lp_def)
  have n: "length ?p + 4 + length (lp_bytes (clientId m)) \<le> sl_len src"
    using src(2) by (simp add: connect_body_def connect_fixed_def opt_lp_def)
  let ?m = "m0\<lparr>protoName := proto m, version := version m, connectFlags := connectFlags m\<rparr>"
  let ?t = "\<lparr>sl_len = sl_len src - (length ?p + 2), sl_arr = be_bytes (keepAlive m) @ lp_bytes (clientId m) @ ?post\<rparr>"
  have cs: "CleanSession ?m = CleanSession m" by (rule connect_flags_cong(4)) simp
  have "read_field True src 0 (protoName m0) = Some (proto m, int (length ?p), None)"
    using read_field_app [of src "[]" True "proto m" _ 0] arr length_proto [of m] n by (simp add: opt_lp_def)
  moreover have "slice_get src (int (length ?p)) = Some (version m)"
    using arr n by (cases src) (simp add: slice_get_pre)
  moreover have "slice_get src (int (length ?p) + 1) = Some (connectFlags m)"
    using arr n slice_get_pre [of "?p @ [version m]" "sl_len src"] by (cases src) (simp add: add.commute)
  moreover have "check_connect_flags ?m = None"
    using ok connect_flags_cong(5) [of ?m m] by (simp add: connect_ok_def)
  moreover have "SupportedVersions (version m) = Some (proto m)" using ok by (auto simp: connect_ok_def proto_def)
  moreover have "slice_from src (int (length ?p) + 2) = Some ?t"
    using arr n slice_from_pre [of "?p @ [version m, connectFlags m]" "sl_len src"]
    by (cases src) (simp add: add.commute)
  moreover have "\<not> go_len ?t < 2" using n by (simp add: go_len_def)
  moreover have "BigEndian_Uint16 ?t = Some (keepAlive m)"
    using n by (intro BigEndian_Uint16_app) simp
  moreover have "read_field True src (int (length ?p) + 2 + 2) f = Some (clientId m, int (length ?c), None)" for f
    using read_field_app [of src "connect_fixed m" True "clientId m" ?post] arr n ok
    by (simp add: connect_fixed_def opt_lp_def connect_ok_def)
  moreover have "decode_credentials (?m\<lparr>keepAlive := keepAlive m, clientId := clientId m\<rparr>) src (int (length ?c)) =
      Some (connect_fields m m0, int (length (connect_body m)), None)"
    using ok by (subst decode_credentials_ok [OF ok _ src]) (auto simp: connect_fields_def)
  moreover have "clientId m = [] \<Longrightarrow> CleanSession m" "clientId m \<noteq> [] \<Longrightarrow> validClientId (clientId m)"
    using ok by (simp_all add: connect_ok_def)
  ultimately show ?thesis
    by (cases "clientId m = []")
       (simp_all add: decodeMessage_def Let_def cs add.commute add.left_commute
          del: length_append append_assoc length_lp_bytes split del: if_split)
qed

lemma connect_Decode_ok:
  assumes s: "sendable b (connect_msglen m) m" and h0: "flag_byte m0 b0" "drop_bit 4 b0 = drop_bit 4 b"
    and ok: "connect_ok m"
    and src: "sl_arr src = connect_wire b m @ rest" "sl_len src = length (connect_wire b m)"
  shows "connect_Decode m0 src =
           Some ((connect_fields m (decoded m0 src (connect_msglen m)))\<lparr>dirty := False\<rparr>,
                 int (length (connect_wire b m)), None)"
proof -
  let ?hb = "header_bytes b (connect_msglen m)"
  let ?t = "\<lparr>sl_len = length (connect_body m), sl_arr = connect_body m @ rest\<rparr>"
  have "header_decode m0 src = Some (decoded m0 src (connect_msglen m), int (length ?hb), None)"
    using header_decode_sendable [OF s h0, of src "connect_body m @ rest"] src
    by (simp add: connect_wire_def go_len_def wf_slice_def connect_msglen_body [OF ok])
  moreover have "slice_from src (int (length ?hb)) = Some ?t"
    using src slice_from_pre [of ?hb "sl_len src" _ "connect_body m @ rest"]
    by (cases src) (simp add: connect_wire_def)
  moreover have "decodeMessage x ?t = Some (connect_fields m x, int (length (connect_body m)), None)" for x
    by (rule decodeMessage_ok [OF ok]) simp_all
  ultimately show ?thesis
    by (simp add: connect_Decode_def connect_wire_def)
qed

end
