(* ===== verification/Messages.thy ===== *)
theory Messages
  imports Ack_Packets Connack Suback Publish Unsubscribe Connect
begin

text \<open>
  The interface \<open>Message\<close> of \<open>src/utils/surgemq/message/message.go\<close>: a value of one of the fourteen
  packet types, with the methods dispatched on the type.  The locale \<open>packet_codec\<close> states the contract
  between a sender (\<open>Len\<close>, \<open>Encode\<close>) and a receiver (\<open>Decode\<close>), and the interpretation shows that the
  fourteen types of packets obey it.
\<close>

section \<open>The interface\<close>

datatype message =
    MConnect ConnectMessage
  | MConnack ConnackMessage
  | MPublish PublishMessage
  | MPuback PubackMessage
  | MPubrec PubackMessage
  | MPubrel PubackMessage
  | MPubcomp PubackMessage
  | MSubscribe SubscribeMessage
  | MSuback SubackMessage
  | MUnsubscribe UnsubscribeMessage
  | MUnsuback PubackMessage
  | MPingreq DisconnectMessage
  | MPingresp DisconnectMessage
  | MDisconnect DisconnectMessage

text \<open>\<open>MessageType.New\<close>\<close>

definition message_New :: "MessageType \<Rightarrow> error + message" where
  "message_New this =
     (if this = CONNECT then Inr (MConnect NewConnectMessage)
      else if this = CONNACK then Inr (MConnack NewConnackMessage)
      else if this = PUBLISH then Inr (MPublish NewPublishMessage)
      else if this = PUBACK then Inr (MPuback NewPubackMessage)
      else if this = PUBREC then Inr (MPubrec NewPubrecMessage)
      else if this = PUBREL then Inr (MPubrel NewPubrelMessage)
      else if this = PUBCOMP then Inr (MPubcomp NewPubcompMessage)
      else if this = SUBSCRIBE then Inr (MSubscribe NewSubscribeMessage)
      else if this = SUBACK then Inr (MSuback NewSubackMessage)
      else if this = UNSUBSCRIBE then Inr (MUnsubscribe NewUnsubscribeMessage)
      else if this = UNSUBACK then Inr (MUnsuback NewUnsubackMessage)
      else if this = PINGREQ then Inr (MPingreq NewPingreqMessage)
      else if this = PINGRESP then Inr (MPingresp NewPingrespMessage)
      else if this = DISCONNECT then Inr (MDisconnect NewDisconnectMessage)
      else Inl (Errorf ''msgtype/NewMessage: Invalid message type %d'' [FInt (uint this)]))"

text \<open>The result of a method of a packet, injected into the interface.\<close>

abbreviation lift_len :: "('a \<Rightarrow> message) \<Rightarrow> int \<times> 'a \<Rightarrow> (int \<times> message) option" where
  "lift_len C r \<equiv> Some (fst r, C (snd r))"

abbreviation lift_enc ::
    "('a \<Rightarrow> message) \<Rightarrow> uint64 \<Rightarrow> ('a \<times> gslice \<times> int \<times> error option) option
     \<Rightarrow> ((message \<times> gslice \<times> int \<times> error option) \<times> uint64) option" where
  "lift_enc C g r \<equiv> map_option (\<lambda>(m, d, n, e). ((C m, d, n, e), g)) r"

abbreviation lift_enc_id ::
    "('a \<Rightarrow> message) \<Rightarrow> (('a \<times> gslice \<times> int \<times> error option) \<times> uint64) option
     \<Rightarrow> ((message \<times> gslice \<times> int \<times> error option) \<times> uint64) option" where
  "lift_enc_id C r \<equiv> map_option (\<lambda>((m, d, n, e), g). ((C m, d, n, e), g)) r"

abbreviation lift_dec ::
    "('a \<Rightarrow> message) \<Rightarrow> ('a \<times> int \<times> error option) option \<Rightarrow> (message \<times> int \<times> error option) option" where
  "lift_dec C r \<equiv> map_option (\<lambda>(m, n, e). (C m, n, e)) r"

fun message_Len :: "message \<Rightarrow> (int \<times> message) option" where
  "message_Len (MConnect m) = lift_len MConnect (connect_Len m)"
| "message_Len (MConnack m) = lift_len MConnack (connack_Len m)"
| "message_Len (MPublish m) = map_option (\<lambda>(n, m). (n, MPublish m)) (publish_Len m)"
| "message_Len (MPuback m) = lift_len MPuback (puback_Len m)"
| "message_Len (MPubrec m) = lift_len MPubrec (puback_Len m)"
| "message_Len (MPubrel m) = lift_len MPubrel (puback_Len m)"
| "message_Len (MPubcomp m) = lift_len MPubcomp (puback_Len m)"
| "message_Len (MSubscribe m) = lift_len MSubscribe (subscribe_Len m)"
| "message_Len (MSuback m) = lift_len MSuback (suback_Len m)"
| "message_Len (MUnsubscribe m) = lift_len MUnsubscribe (unsubscribe_Len m)"
| "message_Len (MUnsuback m) = lift_len MUnsuback (puback_Len m)"
| "message_Len (MPingreq m) = Some (header_Len m, MPingreq m)"
| "message_Len (MPingresp m) = Some (header_Len m, MPingresp m)"
| "message_Len (MDisconnect m) = Some (header_Len m, MDisconnect m)"

fun message_Encode ::
    "message \<Rightarrow> gslice \<Rightarrow> uint64 \<Rightarrow> ((message \<times> gslice \<times> int \<times> error option) \<times> uint64) option" where
  "message_Encode (MConnect m) dst g = lift_enc MConnect g (connect_Encode m dst)"
| "message_Encode (MConnack m) dst g = lift_enc MConnack g (connack_Encode m dst)"
| "message_Encode (MPublish m) dst g = lift_enc_id MPublish (publish_Encode m dst g)"
| "message_Encode (MPuback m) dst g = lift_enc MPuback g (puback_Encode m dst)"
| "message_Encode (MPubrec m) dst g = lift_enc MPubrec g (puback_Encode m dst)"
| "message_Encode (MPubrel m) dst g = lift_enc MPubrel g (puback_Encode m dst)"
| "message_Encode (MPubcomp m) dst g = lift_enc MPubcomp g (puback_Encode m dst)"
| "message_Encode (MSubscribe m) dst g = lift_enc_id MSubscribe (subscribe_Encode m dst g)"
| "message_Encode (MSuback m) dst g = lift_enc MSuback g (suback_Encode m dst)"
| "message_Encode (MUnsubscribe m) dst g = lift_enc_id MUnsubscribe (unsubscribe_Encode m dst g)"
| "message_Encode (MUnsuback m) dst g = lift_enc MUnsuback g (puback_Encode m dst)"
| "message_Encode (MPingreq m) dst g = lift_enc MPingreq g (disconnect_Encode m dst)"
| "message_Encode (MPingresp m) dst g = lift_enc MPingresp g (disconnect_Encode m dst)"
| "message_Encode (MDisconnect m) dst g = lift_enc MDisconnect g (disconnect_Encode m dst)"

fun message_Decode :: "message \<Rightarrow> gslice \<Rightarrow> (message \<times> int \<times> error option) option" where
  "message_Decode (MConnect m) src = lift_dec MConnect (connect_Decode m src)"
| "message_Decode (MConnack m) src = lift_dec MConnack (connack_Decode m src)"
| "message_Decode (MPublish m) src = lift_dec MPublish (publish_Decode m src)"
| "message_Decode (MPuback m) src = lift_dec MPuback (puback_Decode m src)"
| "message_Decode (MPubrec m) src = lift_dec MPubrec (puback_Decode m src)"
| "message_Decode (MPubrel m) src = lift_dec MPubrel (puback_Decode m src)"
| "message_Decode (MPubcomp m) src = lift_dec MPubcomp (puback_Decode m src)"
| "message_Decode (MSubscribe m) src = lift_dec MSubscribe (subscribe_Decode m src)"
| "message_Decode (MSuback m) src = lift_dec MSuback (suback_Decode m src)"
| "message_Decode (MUnsubscribe m) src = lift_dec MUnsubscribe (unsubscribe_Decode m src)"
| "message_Decode (MUnsuback m) src = lift_dec MUnsuback (puback_Decode m src)"
| "message_Decode (MPingreq m) src = lift_dec MPingreq (disconnect_Decode m src)"
| "message_Decode (MPingresp m) src = lift_dec MPingresp (disconnect_Decode m src)"
| "message_Decode (MDisconnect m) src = lift_dec MDisconnect (disconnect_Decode m src)"

text \<open>The header that a packet embeds, which answers \<open>Type\<close> and \<open>PacketId\<close>.\<close>

fun message_header :: "message \<Rightarrow> header" where
  "message_header (MConnect m) = header.truncate m"
| "message_header (MConnack m) = header.truncate m"
| "message_header (MPublish m) = header.truncate m"
| "message_header (MPuback m) = m"
| "message_header (MPubrec m) = m"
| "message_header (MPubrel m) = m"
| "message_header (MPubcomp m) = m"
| "message_header (MSubscribe m) = header.truncate m"
| "message_header (MSuback m) = header.truncate m"
| "message_header (MUnsubscribe m) = header.truncate m"
| "message_header (MUnsuback m) = m"
| "message_header (MPingreq m) = m"
| "message_header (MPingresp m) = m"
| "message_header (MDisconnect m) = m"

definition message_Type :: "message \<Rightarrow> MessageType" where
  "message_Type m = fst (Type (message_header m))"

definition message_PacketId :: "message \<Rightarrow> uint16" where
  "message_PacketId m = PacketId (message_header m)"

section \<open>What a packet says\<close>

text \<open>The content of a packet at the level of the protocol, without buffers and caches.\<close>

datatype packet =
    PConnect byte byte uint16 bytes "(bytes \<times> bytes) option" "bytes option" "bytes option"
  | PConnack bool ConnackCode
  | PPublish byte "uint16 option" bytes bytes
  | PAck MessageType uint16
  | PSubscribe uint16 "(bytes \<times> byte) list"
  | PSuback uint16 bytes
  | PUnsubscribe uint16 "bytes list"
  | PPlain MessageType

fun content :: "message \<Rightarrow> packet" where
  "content (MConnect m) =
     PConnect (connectFlags m) (version m) (keepAlive m) (clientId m)
       (if WillFlag m then Some (willTopic m, willMessage m) else None)
       (if UsernameFlag m then Some (username m) else None)
       (if PasswordFlag m then Some (password m) else None)"
| "content (MConnack m) = PConnack (sessionPresent m) (returnCode m)"
| "content (MPublish m) =
     PPublish (mtypeflags_bytes m ! 0) (if qos_of (mtypeflags_bytes m ! 0) \<noteq> 0 then Some (PacketId m) else None)
       (topic m) (payload m)"
| "content (MPuback m) = PAck PUBACK (PacketId m)"
| "content (MPubrec m) = PAck PUBREC (PacketId m)"
| "content (MPubrel m) = PAck PUBREL (PacketId m)"
| "content (MPubcomp m) = PAck PUBCOMP (PacketId m)"
| "content (MSubscribe m) = PSubscribe (PacketId m) (zip (sub_topics m) (sub_qos m))"
| "content (MSuback m) = PSuback (PacketId m) (returnCodes m)"
| "content (MUnsubscribe m) = PUnsubscribe (PacketId m) (unsub_topics m)"
| "content (MUnsuback m) = PAck UNSUBACK (PacketId m)"
| "content (MPingreq m) = PPlain PINGREQ"
| "content (MPingresp m) = PPlain PINGRESP"
| "content (MDisconnect m) = PPlain DISCONNECT"

text \<open>The type of the packet that a constructor stands for.\<close>

fun kind :: "message \<Rightarrow> MessageType" where
  "kind (MConnect _) = CONNECT"
| "kind (MConnack _) = CONNACK"
| "kind (MPublish _) = PUBLISH"
| "kind (MPuback _) = PUBACK"
| "kind (MPubrec _) = PUBREC"
| "kind (MPubrel _) = PUBREL"
| "kind (MPubcomp _) = PUBCOMP"
| "kind (MSubscribe _) = SUBSCRIBE"
| "kind (MSuback _) = SUBACK"
| "kind (MUnsubscribe _) = UNSUBSCRIBE"
| "kind (MUnsuback _) = UNSUBACK"
| "kind (MPingreq _) = PINGREQ"
| "kind (MPingresp _) = PINGRESP"
| "kind (MDisconnect _) = DISCONNECT"

text \<open>The bytes of a packet.\<close>

fun message_wire :: "message \<Rightarrow> bytes" where
  "message_wire (MConnect m) = connect_wire (type_byte CONNECT) m"
| "message_wire (MConnack m) = connack_wire (type_byte CONNACK) 0 m"
| "message_wire (MPublish m) = publish_wire (mtypeflags_bytes m ! 0) m"
| "message_wire (MPuback m) = puback_wire (type_byte PUBACK) m"
| "message_wire (MPubrec m) = puback_wire (type_byte PUBREC) m"
| "message_wire (MPubrel m) = puback_wire (type_byte PUBREL) m"
| "message_wire (MPubcomp m) = puback_wire (type_byte PUBCOMP) m"
| "message_wire (MSubscribe m) = subscribe_wire (type_byte SUBSCRIBE) m"
| "message_wire (MSuback m) = suback_wire (type_byte SUBACK) m"
| "message_wire (MUnsubscribe m) = unsubscribe_wire (type_byte UNSUBSCRIBE) m"
| "message_wire (MUnsuback m) = puback_wire (type_byte UNSUBACK) m"
| "message_wire (MPingreq m) = header_bytes (type_byte PINGREQ) 0"
| "message_wire (MPingresp m) = header_bytes (type_byte PINGRESP) 0"
| "message_wire (MDisconnect m) = header_bytes (type_byte DISCONNECT) 0"

text \<open>
  A packet whose fields a receiver accepts.  For an UNSUBSCRIBE this includes the condition under which
  \<open>Decode\<close> does not lose topics.
\<close>

fun message_ok :: "message \<Rightarrow> bool" where
  "message_ok (MConnect m) \<longleftrightarrow> sendable (type_byte CONNECT) (connect_msglen m) m \<and> connect_ok m"
| "message_ok (MConnack m) \<longleftrightarrow> sendable (type_byte CONNACK) 2 m \<and> returnCode m \<le> 5"
| "message_ok (MPublish m) \<longleftrightarrow>
     sendable (mtypeflags_bytes m ! 0) (publish_len (mtypeflags_bytes m ! 0) m) m
     \<and> drop_bit 4 (mtypeflags_bytes m ! 0) = PUBLISH
     \<and> ValidTopic (topic m) \<and> length (topic m) \<le> 65535"
| "message_ok (MPuback m) \<longleftrightarrow> sendable (type_byte PUBACK) 2 m"
| "message_ok (MPubrec m) \<longleftrightarrow> sendable (type_byte PUBREC) 2 m"
| "message_ok (MPubrel m) \<longleftrightarrow> sendable (type_byte PUBREL) 2 m"
| "message_ok (MPubcomp m) \<longleftrightarrow> sendable (type_byte PUBCOMP) 2 m"
| "message_ok (MSubscribe m) \<longleftrightarrow>
     sendable (type_byte SUBSCRIBE) (subscribe_msglen m) m \<and> subscribe_wf m \<and> sub_topics m \<noteq> []
     \<and> (\<forall>t \<in> set (sub_topics m). length t \<le> 65535)"
| "message_ok (MSuback m) \<longleftrightarrow>
     sendable (type_byte SUBACK) (suback_msglen m) m \<and> (\<forall>c \<in> set (returnCodes m). return_code_ok c)"
| "message_ok (MUnsubscribe m) \<longleftrightarrow>
     sendable (type_byte UNSUBSCRIBE) (unsubscribe_msglen m) m \<and> unsub_topics m \<noteq> []
     \<and> (\<forall>t \<in> set (unsub_topics m). length t \<le> 65535)
     \<and> length (unsub_topics m) - 1 < 2 + length (last (unsub_topics m))"
| "message_ok (MUnsuback m) \<longleftrightarrow> sendable (type_byte UNSUBACK) 2 m"
| "message_ok (MPingreq m) \<longleftrightarrow> sendable (type_byte PINGREQ) 0 m"
| "message_ok (MPingresp m) \<longleftrightarrow> sendable (type_byte PINGRESP) 0 m"
| "message_ok (MDisconnect m) \<longleftrightarrow> sendable (type_byte DISCONNECT) 0 m"

text \<open>A packet that a sender can encode as well.\<close>

definition pid_ok :: "'a header_scheme \<Rightarrow> bool" where
  "pid_ok h \<longleftrightarrow> length (packetId_bytes h) \<in> {0, 2}"

fun encodable :: "message \<Rightarrow> bool" where
  "encodable (MConnect m) \<longleftrightarrow> True"
| "encodable (MConnack m) \<longleftrightarrow> True"
| "encodable (MPublish m) \<longleftrightarrow> payload m \<noteq> [] \<and> views_ok m"
| "encodable (MPuback m) \<longleftrightarrow> pid_ok m"
| "encodable (MPubrec m) \<longleftrightarrow> pid_ok m"
| "encodable (MPubrel m) \<longleftrightarrow> pid_ok m"
| "encodable (MPubcomp m) \<longleftrightarrow> pid_ok m"
| "encodable (MSubscribe m) \<longleftrightarrow> views_ok m"
| "encodable (MSuback m) \<longleftrightarrow> pid_ok m"
| "encodable (MUnsubscribe m) \<longleftrightarrow> views_ok m"
| "encodable (MUnsuback m) \<longleftrightarrow> pid_ok m"
| "encodable (MPingreq m) \<longleftrightarrow> remlen m = 0"
| "encodable (MPingresp m) \<longleftrightarrow> remlen m = 0"
| "encodable (MDisconnect m) \<longleftrightarrow> remlen m = 0"

definition message_good :: "message \<Rightarrow> bool" where
  "message_good m \<longleftrightarrow> message_ok m \<and> encodable m"

text \<open>The content that goes out: a packet that needs an identifier and has none gets a new one.\<close>

fun needs_id :: "message \<Rightarrow> bool" where
  "needs_id (MPublish m) \<longleftrightarrow> qos_of (mtypeflags_bytes m ! 0) \<noteq> 0 \<and> PacketId m = 0"
| "needs_id (MSubscribe m) \<longleftrightarrow> PacketId m = 0"
| "needs_id (MUnsubscribe m) \<longleftrightarrow> PacketId m = 0"
| "needs_id _ \<longleftrightarrow> False"

fun numbered :: "uint16 \<Rightarrow> packet \<Rightarrow> packet" where
  "numbered v (PPublish b _ t p) = PPublish b (Some v) t p"
| "numbered v (PSubscribe _ ts) = PSubscribe v ts"
| "numbered v (PUnsubscribe _ ts) = PUnsubscribe v ts"
| "numbered v p = p"

definition sent :: "message \<Rightarrow> uint64 \<Rightarrow> packet \<times> uint64" where
  "sent m g =
     (if needs_id m then (numbered (fst (next_packetId g)) (content m), snd (next_packetId g))
      else (content m, g))"

section \<open>The contract of a codec\<close>

locale packet_codec =
  fixes len :: "'m \<Rightarrow> (int \<times> 'm) option"
    and enc :: "'m \<Rightarrow> gslice \<Rightarrow> uint64 \<Rightarrow> (('m \<times> gslice \<times> int \<times> error option) \<times> uint64) option"
    and dec :: "'m \<Rightarrow> gslice \<Rightarrow> ('m \<times> int \<times> error option) option"
    and new :: "MessageType \<Rightarrow> error + 'm"
    and good ok :: "'m \<Rightarrow> bool"
    and knd :: "'m \<Rightarrow> MessageType"
    and wire :: "'m \<Rightarrow> bytes"
    and cont :: "'m \<Rightarrow> 'c"
    and snt :: "'m \<Rightarrow> uint64 \<Rightarrow> 'c \<times> uint64"
  assumes len_law: "good m \<Longrightarrow> \<exists>n m1. len m = Some (n, m1)"
    and enc_law: "good m \<Longrightarrow> len m = Some (n, m1) \<Longrightarrow>
      \<exists>m2. enc m1 (make_bytes n) g = Some ((m2, slice_of (wire m2), n, None), snd (snt m g))
         \<and> ok m2 \<and> cont m2 = fst (snt m g) \<and> knd m2 = knd m \<and> n = int (length (wire m2))"
    and new_law: "ok m \<Longrightarrow> \<exists>m0. new (knd m) = Inr m0"
    and dec_law: "ok m \<Longrightarrow> new (knd m) = Inr m0 \<Longrightarrow>
      \<exists>m' k. dec m0 (slice_of (wire m)) = Some (m', k, None) \<and> cont m' = cont m"
    and wire_law: "ok m \<Longrightarrow> \<exists>b body. wire m = header_bytes b (int (length body)) @ body
         \<and> int (length body) \<le> maxRemainingLength \<and> drop_bit 4 b = knd m"
begin

text \<open>
  What a sender produces, a receiver that reads the type from the first byte understands: it decodes a
  packet with the content that was sent.
\<close>

lemma transfer:
  assumes "good m"
  obtains n m1 m2 w m0 m' k b body
  where "len m = Some (n, m1)" and "enc m1 (make_bytes n) g = Some ((m2, slice_of w, n, None), snd (snt m g))"
    and "w = header_bytes b (int (length body)) @ body" and "int (length body) \<le> maxRemainingLength"
    and "new (drop_bit 4 b) = Inr m0" and "dec m0 (slice_of w) = Some (m', k, None)"
    and "cont m' = fst (snt m g)"
proof -
  obtain n m1 where 1: "len m = Some (n, m1)" using len_law [OF assms] by blast
  obtain m2 where 2: "enc m1 (make_bytes n) g = Some ((m2, slice_of (wire m2), n, None), snd (snt m g))"
    "ok m2" "cont m2 = fst (snt m g)" using enc_law [OF assms 1] by blast
  obtain b body where 3: "wire m2 = header_bytes b (int (length body)) @ body"
    "int (length body) \<le> maxRemainingLength" "drop_bit 4 b = knd m2" using wire_law [OF 2(2)] by blast
  obtain m0 where 4: "new (knd m2) = Inr m0" using new_law [OF 2(2)] by blast
  obtain m' k where "dec m0 (slice_of (wire m2)) = Some (m', k, None)" "cont m' = cont m2"
    using dec_law [OF 2(2) 4] by blast
  with 1 2 3 4 that show ?thesis by auto
qed

end

section \<open>The packets obey it\<close>

lemma fill_make_bytes: "n = int (length w) \<Longrightarrow> fill (make_bytes n) w = slice_of w"
  by (simp add: make_bytes_def slice_of_def)

lemma make_bytes_fields [simp]: "sl_len (make_bytes n) = nat n" "sl_arr (make_bytes n) = replicate (nat n) 0"
  by (simp_all add: make_bytes_def)

text \<open>The remaining length is a cache: nothing a packet says depends on it.\<close>

lemma connect_flags_remlen [simp]:
  "WillFlag (m\<lparr>remlen := r\<rparr>) = WillFlag m" "UsernameFlag (m\<lparr>remlen := r\<rparr>) = UsernameFlag m"
  "PasswordFlag (m\<lparr>remlen := r\<rparr>) = PasswordFlag m" "CleanSession (m\<lparr>remlen := r\<rparr>) = CleanSession m"
  "check_connect_flags (m\<lparr>remlen := r\<rparr>) = None \<longleftrightarrow> check_connect_flags m = None"
  by (rule connect_flags_cong; simp)+

lemma connect_remlen [simp]:
  "connect_msglen (m\<lparr>remlen := r\<rparr>) = connect_msglen m" "connect_body (m\<lparr>remlen := r\<rparr>) = connect_body m"
  "connect_ok (m\<lparr>remlen := r\<rparr>) = connect_ok m"
proof -
  have f: "username (m\<lparr>remlen := r\<rparr>) = username m" "password (m\<lparr>remlen := r\<rparr>) = password m"
    "version (m\<lparr>remlen := r\<rparr>) = version m" "clientId (m\<lparr>remlen := r\<rparr>) = clientId m"
    "willTopic (m\<lparr>remlen := r\<rparr>) = willTopic m" "willMessage (m\<lparr>remlen := r\<rparr>) = willMessage m"
    "connectFlags (m\<lparr>remlen := r\<rparr>) = connectFlags m" "keepAlive (m\<lparr>remlen := r\<rparr>) = keepAlive m"
    by simp_all
  show "connect_msglen (m\<lparr>remlen := r\<rparr>) = connect_msglen m" "connect_body (m\<lparr>remlen := r\<rparr>) = connect_body m"
    "connect_ok (m\<lparr>remlen := r\<rparr>) = connect_ok m"
    by (simp_all only: connect_msglen_def connect_body_def connect_fixed_def proto_def connect_ok_def f
        connect_flags_remlen)
qed

lemma remlen_irrelevant [simp]:
  "connect_wire b (m\<lparr>remlen := r\<rparr>) = connect_wire b m"
  "publish_len b (p\<lparr>remlen := r\<rparr>) = publish_len b p"
  "subscribe_msglen (s\<lparr>remlen := r\<rparr>) = subscribe_msglen s" "subscribe_wf (s\<lparr>remlen := r\<rparr>) = subscribe_wf s"
  "suback_msglen (sa\<lparr>remlen := r\<rparr>) = suback_msglen sa" "suback_wire b (sa\<lparr>remlen := r\<rparr>) = suback_wire b sa"
  "unsubscribe_msglen (u\<lparr>remlen := r\<rparr>) = unsubscribe_msglen u"
  "connack_wire b f (ca\<lparr>remlen := r\<rparr>) = connack_wire b f ca"
  "puback_wire b (h\<lparr>remlen := r\<rparr>) = puback_wire b h" "pid_ok (h'\<lparr>remlen := r\<rparr>) = pid_ok h'"
  "PacketId (h'\<lparr>remlen := r\<rparr>) = PacketId h'"
  by (simp_all add: connect_wire_def publish_len_def publish_id_bytes_def PacketId_def subscribe_msglen_def
      subscribe_wf_def suback_msglen_def suback_wire_def unsubscribe_msglen_def connack_wire_def puback_wire_def
      pid_ok_def)

lemma assign_packetId_value:
  assumes "assign_packetId h g = (h', g')"
  shows "PacketId h' = (if PacketId h = 0 then fst (next_packetId g) else PacketId h)"
    and "g' = (if PacketId h = 0 then snd (next_packetId g) else g)"
  using assms next_packetId_nonzero [of g]
  by (auto simp: assign_packetId_def SetPacketId_PacketId split: if_splits prod.splits)

lemma assign_packetId_sendable:
  assumes "assign_packetId h g = (h', g')" and "sendable b ml h" and "views_ok h"
  shows "sendable b ml h'"
  using assms assign_packetId_spec [OF assms(1)] by (simp add: sendable_def)

text \<open>What \<open>enc_law\<close> asks of one packet.\<close>

definition encodes :: "message \<Rightarrow> bool" where
  "encodes m \<longleftrightarrow>
     (\<forall>g. \<exists>n m1 m2. message_Len m = Some (n, m1)
        \<and> message_Encode m1 (make_bytes n) g = Some ((m2, slice_of (message_wire m2), n, None), snd (sent m g))
        \<and> message_ok m2 \<and> content m2 = fst (sent m g) \<and> kind m2 = kind m \<and> n = int (length (message_wire m2)))"

lemma encodes_connect: assumes "message_good (MConnect m)" shows "encodes (MConnect m)"
proof -
  let ?b = "type_byte CONNECT" and ?m = "m\<lparr>remlen := connect_msglen m\<rparr>"
  have s: "sendable ?b (connect_msglen m) m" and ok: "connect_ok m" using assms by (simp_all add: message_good_def)
  have l: "int (length (connect_wire ?b m)) = int (length (header_bytes ?b (connect_msglen m))) + connect_msglen m"
    by (simp add: connect_wire_def connect_msglen_body [OF ok])
  have "connect_Encode ?m (make_bytes (int (length (connect_wire ?b m)))) =
      Some (?m, slice_of (connect_wire ?b m), int (length (connect_wire ?b m)), None)"
    using connect_Encode_ok [of ?m "make_bytes (int (length (connect_wire ?b m)))"] s ok
    by (simp add: fill_make_bytes [OF refl, simplified])
  with s ok l show ?thesis
    by (simp add: encodes_def connect_Len_def packet_Len_sendable [OF s] sent_def)
qed

lemma encodes_connack: assumes "message_good (MConnack m)" shows "encodes (MConnack m)"
proof -
  let ?b = "type_byte CONNACK" and ?m = "m\<lparr>remlen := 2\<rparr>"
  let ?n = "int (length (header_bytes ?b 2)) + 2"
  have s: "sendable ?b 2 m" using assms by (simp add: message_good_def)
  have z: "make_bytes ?n = slice_of (replicate (length (header_bytes ?b 2)) 0 @ [0, 0])"
    by (simp add: make_bytes_def nat_add_distrib numeral_2_eq_2 replicate_append_same [symmetric])
  have "connack_Encode ?m (make_bytes ?n) = Some (?m, slice_of (connack_wire ?b 0 m), ?n, None)"
    using connack_Encode_ok [of ?b ?m "make_bytes ?n"] s unfolding z
    by (simp add: nth_append slice_of_def wf_slice_def)
  with assms s show ?thesis
    by (simp add: encodes_def connack_Len_def connack_msglen_def packet_Len_sendable [OF s] sent_def message_good_def)
qed

lemma puback_encodes:
  assumes s: "sendable b 2 h" and pid: "pid_ok h"
  shows "puback_Len h = (int (length (puback_wire b h)), h\<lparr>remlen := 2\<rparr>)"
    and "puback_Encode (h\<lparr>remlen := 2\<rparr>) (make_bytes (int (length (puback_wire b h)))) =
      Some (h\<lparr>remlen := 2\<rparr>, slice_of (puback_wire b h), int (length (puback_wire b h)), None)"
proof -
  show "puback_Len h = (int (length (puback_wire b h)), h\<lparr>remlen := 2\<rparr>)"
    by (simp add: puback_Len_def puback_msglen_def packet_Len_sendable [OF s] puback_wire_def)
  show "puback_Encode (h\<lparr>remlen := 2\<rparr>) (make_bytes (int (length (puback_wire b h)))) =
      Some (h\<lparr>remlen := 2\<rparr>, slice_of (puback_wire b h), int (length (puback_wire b h)), None)"
    using puback_Encode_ok [of b "h\<lparr>remlen := 2\<rparr>" "make_bytes (int (length (puback_wire b h)))"] s pid
    by (simp add: fill_make_bytes [OF refl, simplified] pid_ok_def)
qed

lemma encodes_acks:
  "message_good (MPuback h) \<Longrightarrow> encodes (MPuback h)"
  "message_good (MPubrec h) \<Longrightarrow> encodes (MPubrec h)"
  "message_good (MPubrel h) \<Longrightarrow> encodes (MPubrel h)"
  "message_good (MPubcomp h) \<Longrightarrow> encodes (MPubcomp h)"
  "message_good (MUnsuback h) \<Longrightarrow> encodes (MUnsuback h)"
  using puback_encodes [of "type_byte PUBACK" h] puback_encodes [of "type_byte PUBREC" h]
    puback_encodes [of "type_byte PUBREL" h] puback_encodes [of "type_byte PUBCOMP" h]
    puback_encodes [of "type_byte UNSUBACK" h]
  by (simp_all add: message_good_def encodes_def sent_def)

lemma encodes_suback: assumes "message_good (MSuback m)" shows "encodes (MSuback m)"
proof -
  let ?b = "type_byte SUBACK" and ?m = "m\<lparr>remlen := suback_msglen m\<rparr>"
  have s: "sendable ?b (suback_msglen m) m" using assms by (simp add: message_good_def)
  have l: "int (length (suback_wire ?b m)) = int (length (header_bytes ?b (suback_msglen m))) + suback_msglen m"
    by (simp add: suback_wire_def suback_msglen_def)
  have "suback_Encode ?m (make_bytes (int (length (suback_wire ?b m)))) =
      Some (?m, slice_of (suback_wire ?b m), int (length (suback_wire ?b m)), None)"
    using suback_Encode_ok [of ?b ?m "make_bytes (int (length (suback_wire ?b m)))"] s assms
    by (simp add: fill_make_bytes [OF refl, simplified] message_good_def pid_ok_def)
  with assms s l show ?thesis
    by (simp add: encodes_def suback_Len_def packet_Len_sendable [OF s] sent_def message_good_def)
qed

lemma encodes_plain:
  "message_good (MPingreq h) \<Longrightarrow> encodes (MPingreq h)"
  "message_good (MPingresp h) \<Longrightarrow> encodes (MPingresp h)"
  "message_good (MDisconnect h) \<Longrightarrow> encodes (MDisconnect h)"
  using disconnect_Encode_ok [of _ h "make_bytes (int (length (header_bytes b 0)))" for b]
    header_msglen_sendable [of _ 0 h]
  by (auto simp: message_good_def encodes_def sent_def header_Len_def fill_make_bytes [OF refl, simplified])

lemma encodes_subscribe: assumes "message_good (MSubscribe m)" shows "encodes (MSubscribe m)"
  unfolding encodes_def
proof
  fix g
  let ?b = "type_byte SUBSCRIBE" and ?m = "m\<lparr>remlen := subscribe_msglen m\<rparr>"
  have s: "sendable ?b (subscribe_msglen m) m" and v: "views_ok m" and wf: "subscribe_wf m"
    using assms by (simp_all add: message_good_def)
  obtain m' g' where m': "assign_packetId ?m g = (m', g')" by fastforce
  have same: "sub_topics m' = sub_topics m" "sub_qos m' = sub_qos m"
    using assign_packetId_spec(6) [OF m'] by (cases m; cases m'; simp)+
  have ml: "subscribe_msglen m' = subscribe_msglen m" by (simp add: subscribe_msglen_def same)
  let ?n = "int (length (subscribe_wire ?b m'))"
  have l: "?n = int (length (header_bytes ?b (subscribe_msglen m))) + subscribe_msglen m"
    using wf by (simp add: subscribe_wire_def ml same subscribe_msglen_body)
  have "sendable ?b (subscribe_msglen m) m'"
    using assign_packetId_sendable [OF m', of ?b "subscribe_msglen m"] s v by (simp add: views_ok_def)
  then have "message_ok (MSubscribe m')" using assms same ml by (simp add: message_good_def subscribe_wf_def)
  moreover have "subscribe_Encode ?m (make_bytes ?n) g = Some ((m', slice_of (subscribe_wire ?b m'), ?n, None), g')"
    using subscribe_Encode_ok [OF _ _ _ _ m', of ?b "make_bytes ?n"] s assms
    by (simp add: fill_make_bytes [OF refl, simplified] message_good_def)
  moreover have "content (MSubscribe m') = fst (sent (MSubscribe m) g)" "g' = snd (sent (MSubscribe m) g)"
    using assign_packetId_value [OF m'] by (auto simp: sent_def same)
  ultimately show "\<exists>n m1 m2. message_Len (MSubscribe m) = Some (n, m1)
      \<and> message_Encode m1 (make_bytes n) g = Some ((m2, slice_of (message_wire m2), n, None), snd (sent (MSubscribe m) g))
      \<and> message_ok m2 \<and> content m2 = fst (sent (MSubscribe m) g) \<and> kind m2 = kind (MSubscribe m)
      \<and> n = int (length (message_wire m2))"
    using l by (intro exI [of _ ?n] exI [of _ "MSubscribe ?m"] exI [of _ "MSubscribe m'"])
      (simp add: subscribe_Len_def packet_Len_sendable [OF s])
qed

lemma encodes_unsubscribe: assumes "message_good (MUnsubscribe m)" shows "encodes (MUnsubscribe m)"
  unfolding encodes_def
proof
  fix g
  let ?b = "type_byte UNSUBSCRIBE" and ?m = "m\<lparr>remlen := unsubscribe_msglen m\<rparr>"
  have s: "sendable ?b (unsubscribe_msglen m) m" and v: "views_ok m"
    using assms by (simp_all add: message_good_def)
  obtain m' g' where m': "assign_packetId ?m g = (m', g')" by fastforce
  have same: "unsub_topics m' = unsub_topics m"
    using assign_packetId_spec(6) [OF m'] by (cases m; cases m'; simp)
  have ml: "unsubscribe_msglen m' = unsubscribe_msglen m" by (simp add: unsubscribe_msglen_def same)
  let ?n = "int (length (unsubscribe_wire ?b m'))"
  have l: "?n = int (length (header_bytes ?b (unsubscribe_msglen m))) + unsubscribe_msglen m"
    by (simp add: unsubscribe_wire_def ml same) (simp add: unsubscribe_msglen_body)
  have "sendable ?b (unsubscribe_msglen m) m'"
    using assign_packetId_sendable [OF m', of ?b "unsubscribe_msglen m"] s v by (simp add: views_ok_def)
  then have "message_ok (MUnsubscribe m')" using assms same ml by (simp add: message_good_def)
  moreover have "unsubscribe_Encode ?m (make_bytes ?n) g = Some ((m', slice_of (unsubscribe_wire ?b m'), ?n, None), g')"
    using unsubscribe_Encode_ok [OF _ _ _ m', of ?b "make_bytes ?n"] s assms
    by (simp add: fill_make_bytes [OF refl, simplified] message_good_def)
  moreover have "content (MUnsubscribe m') = fst (sent (MUnsubscribe m) g)" "g' = snd (sent (MUnsubscribe m) g)"
    using assign_packetId_value [OF m'] by (auto simp: sent_def same)
  ultimately show "\<exists>n m1 m2. message_Len (MUnsubscribe m) = Some (n, m1)
      \<and> message_Encode m1 (make_bytes n) g = Some ((m2, slice_of (message_wire m2), n, None), snd (sent (MUnsubscribe m) g))
      \<and> message_ok m2 \<and> content m2 = fst (sent (MUnsubscribe m) g) \<and> kind m2 = kind (MUnsubscribe m)
      \<and> n = int (length (message_wire m2))"
    using l by (intro exI [of _ ?n] exI [of _ "MUnsubscribe ?m"] exI [of _ "MUnsubscribe m'"])
      (simp add: unsubscribe_Len_def packet_Len_sendable [OF s])
qed

text \<open>A PUBLISH, encoded into any buffer of at least the length that \<open>Len\<close> reports.\<close>

lemma publish_encodes:
  assumes "message_good (MPublish m)"
  shows "\<exists>m1 m'. message_ok (MPublish m') \<and> content (MPublish m') = fst (sent (MPublish m) g)
    \<and> encodable (MPublish m') \<and> (qos_of (mtypeflags_bytes m ! 0) \<noteq> 0 \<longrightarrow> PacketId m' \<noteq> 0)
    \<and> publish_Len m = Some (int (length (message_wire (MPublish m'))), m1)
    \<and> (\<forall>dst. wf_slice dst \<longrightarrow> length (message_wire (MPublish m')) \<le> sl_len dst \<longrightarrow>
      publish_Encode m1 dst g =
        Some ((m', fill dst (message_wire (MPublish m')), int (length (message_wire (MPublish m'))), None),
              snd (sent (MPublish m) g)))"
proof -
  let ?b = "mtypeflags_bytes m ! 0"
  let ?ml = "publish_len ?b m" and ?m = "m\<lparr>remlen := publish_len ?b m\<rparr>"
  have s: "sendable ?b ?ml m" and v: "views_ok m" using assms by (simp_all add: message_good_def)
  then have fb: "flag_byte m ?b" by (simp add: sendable_def)
  obtain m' g' where m': "publish_ready ?b ?m g = (m', g')" by fastforce
  note same = publish_len_ready [OF m', simplified]
  have l: "int (length (publish_wire ?b m')) = int (length (header_bytes ?b ?ml)) + ?ml"
    using same by (simp add: publish_wire_def) (simp add: publish_len_def publish_id_bytes_def)
  have s': "sendable ?b ?ml m'"
    using m' s v assign_packetId_sendable [of ?m g m' g' ?b ?ml]
    by (auto simp: publish_ready_def views_ok_def split: if_splits)
  then have fb': "mtypeflags_bytes m' = [?b]" by (simp add: sendable_def)
  then have w: "message_wire (MPublish m') = publish_wire ?b m'" by simp
  have c: "content (MPublish m') = fst (sent (MPublish m) g)" "g' = snd (sent (MPublish m) g)"
    using assign_packetId_value [of ?m g m' g'] m' same fb'
    by (auto simp: sent_def publish_ready_def split: if_splits)
  show ?thesis
  proof (rule exI [of _ ?m], rule exI [of _ m'], intro conjI allI impI)
    show "message_ok (MPublish m')" using assms s' same fb' by (simp add: message_good_def)
    show "content (MPublish m') = fst (sent (MPublish m) g)" by (rule c)
    have "views_ok ?m" using v by (simp add: views_ok_def split: bview.split)
    then have "views_ok m'" using m' assign_packetId_spec(7) [of ?m g m' g'] by (auto simp: publish_ready_def split: if_splits)
    then show "encodable (MPublish m')" using assms same by (simp add: message_good_def)
    show "PacketId m' \<noteq> 0" if "qos_of ?b \<noteq> 0"
      using m' that assign_packetId_spec(1) [of ?m g m' g'] by (simp add: publish_ready_def)
    show "publish_Len m = Some (int (length (message_wire (MPublish m'))), ?m)"
      using s publish_msglen_ok [OF fb] l unfolding w
      by (simp add: publish_Len_def sendable_def packet_Len_sendable [OF s])
    show "publish_Encode ?m dst g = Some ((m', fill dst (message_wire (MPublish m')),
        int (length (message_wire (MPublish m'))), None), snd (sent (MPublish m) g))"
      if "wf_slice dst" "length (message_wire (MPublish m')) \<le> sl_len dst" for dst
      unfolding w c(2) [symmetric] using that [unfolded w] assms s
      by (intro publish_Encode_ok [OF _ _ _ _ _ m']) (auto simp: message_good_def ValidTopic_def)
  qed
qed

lemma encodes_publish: assumes "message_good (MPublish m)" shows "encodes (MPublish m)"
  unfolding encodes_def
proof
  fix g
  obtain m1 m' where m': "message_ok (MPublish m')" "content (MPublish m') = fst (sent (MPublish m) g)"
    "publish_Len m = Some (int (length (message_wire (MPublish m'))), m1)"
    "\<forall>dst. wf_slice dst \<longrightarrow> length (message_wire (MPublish m')) \<le> sl_len dst \<longrightarrow>
      publish_Encode m1 dst g =
        Some ((m', fill dst (message_wire (MPublish m')), int (length (message_wire (MPublish m'))), None),
              snd (sent (MPublish m) g))"
    using publish_encodes [OF assms, of g] by blast
  let ?n = "int (length (message_wire (MPublish m')))"
  show "\<exists>n m1 m2. message_Len (MPublish m) = Some (n, m1)
      \<and> message_Encode m1 (make_bytes n) g = Some ((m2, slice_of (message_wire m2), n, None), snd (sent (MPublish m) g))
      \<and> message_ok m2 \<and> content m2 = fst (sent (MPublish m) g) \<and> kind m2 = kind (MPublish m)
      \<and> n = int (length (message_wire m2))"
  proof (rule exI [of _ ?n], rule exI [of _ "MPublish m1"], rule exI [of _ "MPublish m'"], intro conjI)
    show "message_Encode (MPublish m1) (make_bytes ?n) g =
        Some ((MPublish m', slice_of (message_wire (MPublish m')), ?n, None), snd (sent (MPublish m) g))"
      using m'(4) [rule_format, of "make_bytes ?n"] fill_make_bytes [of ?n "message_wire (MPublish m')"]
      by (simp del: message_wire.simps)
  qed (use m' in simp_all)
qed

text \<open>A new message has the first byte of its type.\<close>

lemma New_flag_byte:
  "flag_byte NewConnectMessage (type_byte CONNECT)" "flag_byte NewConnackMessage (type_byte CONNACK)"
  "flag_byte NewPublishMessage (type_byte PUBLISH)" "flag_byte NewPubackMessage (type_byte PUBACK)"
  "flag_byte NewPubrecMessage (type_byte PUBREC)" "flag_byte NewPubrelMessage (type_byte PUBREL)"
  "flag_byte NewPubcompMessage (type_byte PUBCOMP)" "flag_byte NewSubscribeMessage (type_byte SUBSCRIBE)"
  "flag_byte NewSubackMessage (type_byte SUBACK)" "flag_byte NewUnsubscribeMessage (type_byte UNSUBSCRIBE)"
  "flag_byte NewUnsubackMessage (type_byte UNSUBACK)" "flag_byte NewPingreqMessage (type_byte PINGREQ)"
  "flag_byte NewPingrespMessage (type_byte PINGRESP)" "flag_byte NewDisconnectMessage (type_byte DISCONNECT)"
  unfolding NewConnectMessage_def NewConnackMessage_def NewPublishMessage_def NewPubackMessage_def
    NewPubrecMessage_def NewPubrelMessage_def NewPubcompMessage_def NewSubscribeMessage_def
    NewSubackMessage_def NewUnsubscribeMessage_def NewUnsubackMessage_def NewPingreqMessage_def
    NewPingrespMessage_def NewDisconnectMessage_def
  by (rule SetType_spec [THEN conjunct2]; simp add: MessageType_Valid_iff)+

lemma New_empty:
  "sub_topics NewSubscribeMessage = []" "sub_qos NewSubscribeMessage = []" "unsub_topics NewUnsubscribeMessage = []"
  by (simp_all add: NewSubscribeMessage_def NewUnsubscribeMessage_def SetType_def MessageType_Valid_iff
      header.extend_def header0_def write_mtypeflags_def ensure_mtypeflags_def)

definition decodes :: "message \<Rightarrow> message \<Rightarrow> bool" where
  "decodes m m0 \<longleftrightarrow>
     (\<exists>m' k. message_Decode m0 (slice_of (message_wire m)) = Some (m', k, None) \<and> content m' = content m)"

lemma decodes_connect: "message_ok (MConnect m) \<Longrightarrow> decodes (MConnect m) (MConnect NewConnectMessage)"
proof -
  assume a: "message_ok (MConnect m)"
  let ?b = "type_byte CONNECT"
  have fl: "WillFlag (connect_fields m x\<lparr>dirty := False\<rparr>) = WillFlag m"
    "UsernameFlag (connect_fields m x\<lparr>dirty := False\<rparr>) = UsernameFlag m"
    "PasswordFlag (connect_fields m x\<lparr>dirty := False\<rparr>) = PasswordFlag m" for x
    by (rule connect_flags_cong; simp add: connect_fields_def)+
  show ?thesis
    using connect_Decode_ok [OF _ New_flag_byte(1), of ?b m "slice_of (connect_wire ?b m)" "[]"] a
    by (simp add: decodes_def fl) (simp add: connect_fields_def)
qed

lemma decodes_connack: "message_ok (MConnack m) \<Longrightarrow> decodes (MConnack m) (MConnack NewConnackMessage)"
  using connack_Decode_ok [OF _ New_flag_byte(2), of "type_byte CONNACK" m "slice_of (connack_wire (type_byte CONNACK) 0 m)" "[]"]
  by (simp add: decodes_def)

lemma decodes_publish: "message_ok (MPublish m) \<Longrightarrow> decodes (MPublish m) (MPublish NewPublishMessage)"
proof -
  assume a: "message_ok (MPublish m)"
  let ?b = "mtypeflags_bytes m ! 0"
  let ?src = "slice_of (publish_wire ?b m)"
  have t: "drop_bit 4 (type_byte PUBLISH) = PUBLISH"
    by (rule type_byte_type) (simp add: MessageType_Valid_iff)
  have "publish_Decode NewPublishMessage ?src =
      Some (publish_received ?b m NewPublishMessage ?src, int (length (publish_wire ?b m)), None)"
    using publish_Decode_ok [OF _ New_flag_byte(3), of ?b m ?src "[]"] a t by simp
  with publish_received_fields [of ?src ?b m "[]" NewPublishMessage] show ?thesis
    by (auto simp: decodes_def)
qed

lemma decodes_acks:
  "message_ok (MPuback h) \<Longrightarrow> decodes (MPuback h) (MPuback NewPubackMessage)"
  "message_ok (MPubrec h) \<Longrightarrow> decodes (MPubrec h) (MPubrec NewPubrecMessage)"
  "message_ok (MPubrel h) \<Longrightarrow> decodes (MPubrel h) (MPubrel NewPubrelMessage)"
  "message_ok (MPubcomp h) \<Longrightarrow> decodes (MPubcomp h) (MPubcomp NewPubcompMessage)"
  "message_ok (MUnsuback h) \<Longrightarrow> decodes (MUnsuback h) (MUnsuback NewUnsubackMessage)"
proof -
  have d: "\<exists>m' k. puback_Decode h0 (slice_of (puback_wire b h)) = Some (m', k, None) \<and> PacketId m' = PacketId h"
    if "sendable b 2 h" "flag_byte h0 b" for b h0
    using puback_Decode_ok [OF that refl, of "slice_of (puback_wire b h)" "[]"]
      PacketId_ack_decoded [of "slice_of (puback_wire b h)" "header_bytes b 2" h "[]" h0 2]
    by (simp add: puback_wire_def)
  show "message_ok (MPuback h) \<Longrightarrow> decodes (MPuback h) (MPuback NewPubackMessage)"
    using d [OF _ New_flag_byte(4)] by (fastforce simp: decodes_def)
  show "message_ok (MPubrec h) \<Longrightarrow> decodes (MPubrec h) (MPubrec NewPubrecMessage)"
    using d [OF _ New_flag_byte(5)] by (fastforce simp: decodes_def)
  show "message_ok (MPubrel h) \<Longrightarrow> decodes (MPubrel h) (MPubrel NewPubrelMessage)"
    using d [OF _ New_flag_byte(6)] by (fastforce simp: decodes_def)
  show "message_ok (MPubcomp h) \<Longrightarrow> decodes (MPubcomp h) (MPubcomp NewPubcompMessage)"
    using d [OF _ New_flag_byte(7)] by (fastforce simp: decodes_def)
  show "message_ok (MUnsuback h) \<Longrightarrow> decodes (MUnsuback h) (MUnsuback NewUnsubackMessage)"
    using d [OF _ New_flag_byte(11)] by (fastforce simp: decodes_def)
qed

lemma decodes_subscribe: "message_ok (MSubscribe m) \<Longrightarrow> decodes (MSubscribe m) (MSubscribe NewSubscribeMessage)"
proof -
  assume a: "message_ok (MSubscribe m)"
  let ?b = "type_byte SUBSCRIBE"
  let ?src = "slice_of (subscribe_wire ?b m)"
  show ?thesis
    using subscribe_Decode_ok [OF _ New_flag_byte(8), of ?b m ?src "[]"] a
    by (simp add: decodes_def New_empty) (rule PacketId_be, simp add: decoded_def assign_dbuf_def subscribe_wire_def)
qed

lemma decodes_suback: "message_ok (MSuback m) \<Longrightarrow> decodes (MSuback m) (MSuback NewSubackMessage)"
proof -
  assume a: "message_ok (MSuback m)"
  let ?b = "type_byte SUBACK"
  let ?src = "slice_of (suback_wire ?b m)"
  show ?thesis
    using suback_Decode_ok [OF _ New_flag_byte(9), of ?b m ?src "[]"] a
    by (simp add: decodes_def)
       (rule PacketId_be, simp add: decoded_def assign_dbuf_def suback_wire_def ack_id_bytes_PacketId)
qed

lemma decodes_unsubscribe:
  "message_ok (MUnsubscribe m) \<Longrightarrow> decodes (MUnsubscribe m) (MUnsubscribe NewUnsubscribeMessage)"
proof -
  assume a: "message_ok (MUnsubscribe m)"
  let ?b = "type_byte UNSUBSCRIBE"
  let ?src = "slice_of (unsubscribe_wire ?b m)"
  have "unsub_seen 0 (unsub_topics m) = unsub_topics m" using a by (simp add: unsub_seen_all)
  then obtain n where "unsubscribe_Decode NewUnsubscribeMessage ?src =
      Some ((decoded NewUnsubscribeMessage ?src (unsubscribe_msglen m))
              \<lparr>packetId := InDbuf (length (header_bytes ?b (unsubscribe_msglen m))) 2,
               unsub_topics := unsub_topics m, dirty := False\<rparr>, n, None)"
    using unsubscribe_Decode_ok [OF _ New_flag_byte(10), of ?b m ?src "[]"] a by (auto simp: New_empty)
  then show ?thesis
    by (simp add: decodes_def) (rule PacketId_be, simp add: decoded_def assign_dbuf_def unsubscribe_wire_def)
qed

lemma decodes_plain:
  "message_ok (MPingreq h) \<Longrightarrow> decodes (MPingreq h) (MPingreq NewPingreqMessage)"
  "message_ok (MPingresp h) \<Longrightarrow> decodes (MPingresp h) (MPingresp NewPingrespMessage)"
  "message_ok (MDisconnect h) \<Longrightarrow> decodes (MDisconnect h) (MDisconnect NewDisconnectMessage)"
  using disconnect_Decode_ok [OF _ New_flag_byte(12), of _ h "slice_of (header_bytes (type_byte PINGREQ) 0)" "[]"]
    disconnect_Decode_ok [OF _ New_flag_byte(13), of _ h "slice_of (header_bytes (type_byte PINGRESP) 0)" "[]"]
    disconnect_Decode_ok [OF _ New_flag_byte(14), of _ h "slice_of (header_bytes (type_byte DISCONNECT) 0)" "[]"]
  by (auto simp: decodes_def)

text \<open>Every packet is framed: its fixed header announces the length of what follows.\<close>

lemma valid_type: "0 < unat (t :: MessageType) \<Longrightarrow> unat t < 15 \<Longrightarrow> drop_bit 4 (type_byte t) = t"
  by (rule type_byte_type) (simp add: MessageType_Valid_iff)

definition framed :: "MessageType \<Rightarrow> bytes \<Rightarrow> bool" where
  "framed t w \<longleftrightarrow>
     (\<exists>b body. w = header_bytes b (int (length body)) @ body \<and> int (length body) \<le> maxRemainingLength
        \<and> drop_bit 4 b = t)"

lemma framedI:
  "n = int (length body) \<Longrightarrow> n \<le> maxRemainingLength \<Longrightarrow> drop_bit 4 b = t \<Longrightarrow> framed t (header_bytes b n @ body)"
  by (auto simp: framed_def)

lemma message_framed: "message_ok m \<Longrightarrow> framed (kind m) (message_wire m)"
proof (cases m)
  case (MConnect c)
  assume "message_ok m"
  with MConnect show ?thesis
    by (auto simp: connect_wire_def sendable_def connect_msglen_body valid_type intro!: framedI)
next
  case (MPublish p)
  assume "message_ok m"
  with MPublish show ?thesis
    by (auto simp: publish_wire_def sendable_def publish_len_def intro!: framedI)
next
  case (MSubscribe c)
  assume "message_ok m"
  with MSubscribe show ?thesis
    by (auto simp: subscribe_wire_def sendable_def subscribe_msglen_body valid_type intro!: framedI)
next
  case (MUnsubscribe c)
  assume "message_ok m"
  with MUnsubscribe show ?thesis
    by (auto simp: unsubscribe_wire_def sendable_def unsubscribe_msglen_body valid_type intro!: framedI)
next
  case (MSuback c)
  assume "message_ok m"
  with MSuback show ?thesis
    by (auto simp: suback_wire_def sendable_def suback_msglen_def valid_type intro!: framedI)
qed (auto simp: connack_wire_def puback_wire_def valid_type intro!: framedI framedI [where body = "[]", simplified])

lemma message_encodes: "message_good m \<Longrightarrow> encodes m"
  by (cases m) (auto intro: encodes_connect encodes_connack encodes_publish encodes_acks encodes_subscribe
      encodes_suback encodes_unsubscribe encodes_plain)

lemma message_decodes: "message_ok m \<Longrightarrow> message_New (kind m) = Inr m0 \<Longrightarrow> decodes m m0"
  by (cases m) (auto simp: message_New_def simp del: message_ok.simps intro: decodes_connect decodes_connack
      decodes_publish decodes_acks decodes_subscribe decodes_suback decodes_unsubscribe decodes_plain)

interpretation mq: packet_codec message_Len message_Encode message_Decode message_New message_good message_ok
  kind message_wire content sent
proof unfold_locales
  fix m :: message
  assume "message_good m"
  then show "\<exists>n m1. message_Len m = Some (n, m1)"
    using message_encodes [of m] by (auto simp: encodes_def)
next
  fix m n m1 g
  assume "message_good m" and "message_Len m = Some (n, m1)"
  then show "\<exists>m2. message_Encode m1 (make_bytes n) g = Some ((m2, slice_of (message_wire m2), n, None), snd (sent m g))
      \<and> message_ok m2 \<and> content m2 = fst (sent m g) \<and> kind m2 = kind m \<and> n = int (length (message_wire m2))"
    using message_encodes [of m] by (fastforce simp: encodes_def)
next
  fix m :: message
  show "\<exists>m0. message_New (kind m) = Inr m0" by (cases m) (simp_all add: message_New_def)
next
  fix m m0
  assume "message_ok m" and "message_New (kind m) = Inr m0"
  then show "\<exists>m' k. message_Decode m0 (slice_of (message_wire m)) = Some (m', k, None) \<and> content m' = content m"
    using message_decodes [of m m0] by (auto simp: decodes_def)
next
  fix m
  assume "message_ok m"
  then show "\<exists>b body. message_wire m = header_bytes b (int (length body)) @ body
      \<and> int (length body) \<le> maxRemainingLength \<and> drop_bit 4 b = kind m"
    using message_framed [of m] by (auto simp: framed_def)
qed

end
