(* ===== verification/Ret_Tree.thy ===== *)
theory Ret_Tree
  imports Level_Maps Messages "HOL-Library.Sublist"
begin

text \<open>
  The tree of retained messages of \<open>src/topics/memtopics.go\<close>: \<open>rnode\<close> with \<open>rinsert\<close>, \<open>rremove\<close>,
  \<open>rmatch\<close> and \<open>allRetained\<close>.  Maps are association lists with distinct keys, as in \<open>Sub_Tree\<close>.
\<close>

section \<open>Data and operations\<close>

datatype rnode =
  RNode (rmsg: "PublishMessage option") (rbuf: gslice) (rnodes: "(level \<times> rnode) list")

definition newRNode :: rnode where
  "newRNode = RNode None (slice_of []) []"

text \<open>
  \<open>rinsert\<close> at the node of the topic: the message is encoded into the node's buffer and decoded again
  into the node's message.  A buffer that is large enough is used again; the old message looks into that
  buffer, so it sees the new bytes.
\<close>

definition reuse_buf :: "gslice \<Rightarrow> int \<Rightarrow> gslice option" where
  "reuse_buf buf l = (if go_cap buf < l then Some (make_bytes l) else slice_range buf 0 l)"

definition reuse_msg :: "bool \<Rightarrow> gslice \<Rightarrow> PublishMessage option \<Rightarrow> PublishMessage option" where
  "reuse_msg same buf m =
     map_option (\<lambda>m. if same then m\<lparr>dbuf := (dbuf m)\<lparr>sl_arr := sl_arr buf\<rparr>\<rparr> else m) m"

definition rinsert_here ::
    "rnode \<Rightarrow> PublishMessage \<Rightarrow> uint64 \<Rightarrow> ((rnode \<times> PublishMessage \<times> error option) \<times> uint64) option" where
  "rinsert_here this msg g =
     (case this of RNode m buf ns \<Rightarrow>
        do { (l, msg) \<leftarrow> publish_Len msg;
             buf' \<leftarrow> reuse_buf buf l;
             ((msg, buf', _, err), g) \<leftarrow> publish_Encode msg buf' g;
             let m = reuse_msg (l \<le> go_cap buf) buf' m;
             if err \<noteq> None then Some ((RNode m buf' ns, msg, err), g)
             else do {
               (m', _, err) \<leftarrow> publish_Decode (case m of None \<Rightarrow> NewPublishMessage | Some m \<Rightarrow> m) buf';
               Some ((RNode (Some m') buf' ns, msg, err), g)
             } })"

function rinsert ::
    "rnode \<Rightarrow> bytes \<Rightarrow> PublishMessage \<Rightarrow> uint64 \<Rightarrow> ((rnode \<times> PublishMessage \<times> error option) \<times> uint64) option" where
  "rinsert this tpc msg g =
     (if tpc = [] then rinsert_here this msg g
      else
        (case nextTopicLevel tpc of
           (ntl, rem, Some err) \<Rightarrow> Some ((this, msg, Some err), g)
         | (ntl, rem, None) \<Rightarrow>
             (case this of RNode m buf ns \<Rightarrow>
                do { ((n, msg, err), g) \<leftarrow>
                       rinsert (case map_of ns ntl of Some n \<Rightarrow> n | None \<Rightarrow> newRNode) rem msg g;
                     Some ((RNode m buf (AList.update ntl n ns), msg, err), g) })))"
  by pat_completeness auto
termination
  by (relation "measure (\<lambda>(this, tpc, msg, g). length tpc)")
     (auto dest: nextTopicLevel_shorter [OF sym])

declare rinsert.simps [simp del]

text \<open>A node without children is removed from its parent's map, whether it holds a message or not.\<close>

function rremove :: "rnode \<Rightarrow> bytes \<Rightarrow> rnode \<times> error option" where
  "rremove this tpc =
     (case this of RNode m buf ns \<Rightarrow>
        if tpc = [] then (RNode None (slice_of []) ns, None)
        else
          (case nextTopicLevel tpc of
             (ntl, rem, Some err) \<Rightarrow> (this, Some err)
           | (ntl, rem, None) \<Rightarrow>
               (case map_of ns ntl of
                  None \<Rightarrow> (this, Some (Errorf ''memtopics/rremove: No topic found'' []))
                | Some n \<Rightarrow>
                    (case rremove n rem of
                       (n, Some err) \<Rightarrow> (RNode m buf (AList.update ntl n ns), Some err)
                     | (n, None) \<Rightarrow>
                         (RNode m buf (if length (rnodes n) = 0 then AList.delete ntl ns
                                       else AList.update ntl n ns), None)))))"
  by pat_completeness auto
termination
  by (relation "measure (\<lambda>(this, tpc). length tpc)") (auto dest: nextTopicLevel_shorter [OF sym])

declare rremove.simps [simp del]

fun allRetained :: "rnode \<Rightarrow> PublishMessage list" where
  "allRetained (RNode m buf ns) =
     (case m of Some m \<Rightarrow> [m] | None \<Rightarrow> []) @ concat (map (\<lambda>kn. allRetained (snd kn)) ns)"

text \<open>The loop over all children stops at the first error, with what was found so far.\<close>

function rmatch :: "rnode \<Rightarrow> bytes \<Rightarrow> PublishMessage list \<times> error option"
  and rmatch_nodes :: "(level \<times> rnode) list \<Rightarrow> bytes \<Rightarrow> PublishMessage list \<times> error option" where
  "rmatch this tpc =
     (if tpc = [] then (case rmsg this of Some m \<Rightarrow> ([m], None) | None \<Rightarrow> ([], None))
      else
        (case nextTopicLevel tpc of
           (level, rem, Some err) \<Rightarrow> ([], Some err)
         | (level, rem, None) \<Rightarrow>
             (if level = MWC then (allRetained this, None)
              else if level = SWC then rmatch_nodes (rnodes this) rem
              else
                (case map_of (rnodes this) level of
                   Some n \<Rightarrow> rmatch n rem
                 | None \<Rightarrow> ([], None)))))"
| "rmatch_nodes [] rem = ([], None)"
| "rmatch_nodes (kn # ns) rem =
     (case rmatch (snd kn) rem of
        (ms, Some err) \<Rightarrow> (ms, Some err)
      | (ms, None) \<Rightarrow> (case rmatch_nodes ns rem of (ms', err) \<Rightarrow> (ms @ ms', err)))"
  by pat_completeness auto
termination
  by (relation "measures [\<lambda>x. case x of Inl (this, tpc) \<Rightarrow> length tpc | Inr (ns, rem) \<Rightarrow> length rem,
                          \<lambda>x. case x of Inl _ \<Rightarrow> 0 | Inr (ns, rem) \<Rightarrow> Suc (length ns)]")
     (auto dest: nextTopicLevel_shorter [OF sym])

declare rmatch.simps [simp del]

section \<open>What a tree retains\<close>

fun retained_at :: "rnode \<Rightarrow> level list \<Rightarrow> PublishMessage option" where
  "retained_at n [] = rmsg n"
| "retained_at n (l # ls) = (case map_of (rnodes n) l of None \<Rightarrow> None | Some m \<Rightarrow> retained_at m ls)"

text \<open>A retained message is a PUBLISH whose first byte lies at the start of its buffer.\<close>

definition wf_rmsg :: "PublishMessage \<Rightarrow> bool" where
  "wf_rmsg m \<longleftrightarrow> mtypeflags m = InDbuf 0 1 \<and> (case mtypeflags_bytes m of [b] \<Rightarrow> drop_bit 4 b = PUBLISH | _ \<Rightarrow> False)"

fun wf_rnode :: "rnode \<Rightarrow> bool" where
  "wf_rnode (RNode m buf ns) \<longleftrightarrow>
     (case m of None \<Rightarrow> True | Some m \<Rightarrow> wf_rmsg m) \<and> wf_slice buf \<and> distinct (map fst ns)
     \<and> (\<forall>kn \<in> set ns. wf_rnode (snd kn))"

lemma wf_newRNode [simp]: "wf_rnode newRNode"
  by (simp add: newRNode_def)

lemma retained_new [simp]: "retained_at newRNode ls = None"
  by (cases ls) (simp_all add: newRNode_def)

lemma retained_update_child:
  "retained_at (RNode m buf (AList.update l n ns)) =
     (\<lambda>p. case p of [] \<Rightarrow> m | k # p' \<Rightarrow> if k = l then retained_at n p' else retained_at (RNode m buf ns) p)"
  by (rule ext) (auto simp: update_conv' split: list.split option.split)

lemma retained_delete_child:
  "retained_at (RNode m buf (AList.delete l ns)) =
     (\<lambda>p. case p of [] \<Rightarrow> m | k # p' \<Rightarrow> if k = l then None else retained_at (RNode m buf ns) p)"
  by (rule ext) (auto simp: delete_conv' split: list.split option.split)

lemma wf_rnode_update:
  "wf_rnode (RNode m buf ns) \<Longrightarrow> wf_rnode n \<Longrightarrow> wf_rnode (RNode m buf (AList.update l n ns))"
  by (auto simp: distinct_update dest!: set_update_snd)

lemma wf_rnode_delete: "wf_rnode (RNode m buf ns) \<Longrightarrow> wf_rnode (RNode m buf (AList.delete l ns))"
  by (auto simp: AList.delete_eq intro: distinct_map_filter)

lemma wf_rnode_child: "wf_rnode (RNode m buf ns) \<Longrightarrow> map_of ns l = Some n \<Longrightarrow> wf_rnode n"
  by (auto dest: map_of_SomeD)

section \<open>Inserting\<close>

text \<open>
  \<open>m\<close> transmits \<open>p\<close>: \<open>Len\<close> announces and \<open>Encode\<close> writes, into any buffer of that length, the bytes of
  an acceptable PUBLISH with content \<open>p\<close>.
\<close>

definition transmits :: "PublishMessage \<Rightarrow> uint64 \<Rightarrow> packet \<Rightarrow> uint64 \<Rightarrow> bool" where
  "transmits m g p g' \<longleftrightarrow>
     (\<exists>m1 m2 w. message_ok (MPublish w) \<and> content (MPublish w) = p
        \<and> publish_Len m = Some (int (length (message_wire (MPublish w))), m1)
        \<and> (\<forall>dst. wf_slice dst \<longrightarrow> sl_len dst = length (message_wire (MPublish w)) \<longrightarrow>
             publish_Encode m1 dst g =
               Some ((m2, fill dst (message_wire (MPublish w)), int (length (message_wire (MPublish w))), None), g')))"

text \<open>A message that was changed and can be sent transmits its content, with an identifier.\<close>

lemma transmits_good: "message_good (MPublish m) \<Longrightarrow> transmits m g (fst (sent (MPublish m) g)) (snd (sent (MPublish m) g))"
  using publish_encodes [of m g] unfolding transmits_def by (metis order_refl)

text \<open>A message that was decoded and not changed since transmits the bytes it was decoded from.\<close>

lemma transmits_clean:
  assumes "\<not> dirty m" and "dbuf m = slice_of (message_wire (MPublish w))" and "message_ok (MPublish w)"
  shows "transmits m g (content (MPublish w)) g"
proof -
  let ?w = "message_wire (MPublish w)"
  have "publish_Len m = Some (int (length ?w), m)" using assms by (simp add: publish_Len_def)
  moreover have "publish_Encode m dst g = Some ((m, fill dst ?w, int (length ?w), None), g)"
    if "wf_slice dst" "sl_len dst = length ?w" for dst
    using assms that slice_copy_fit [of ?w dst]
    by (cases dst) (simp add: publish_Encode_def encode_clean_def go_len_def)
  ultimately show ?thesis unfolding transmits_def using assms(3) by blast
qed

lemma reuse_buf_ok:
  assumes "wf_slice buf"
  shows "\<exists>dst. reuse_buf buf (int n) = Some dst \<and> wf_slice dst \<and> sl_len dst = n"
  using assms by (auto simp: reuse_buf_def slice_range_def go_cap_def wf_slice_def)

lemma rinsert_here_ok:
  assumes wf: "wf_rnode n" and t: "transmits msg g p g'"
  shows "\<exists>m buf msg'. rinsert_here n msg g = Some ((RNode (Some m) buf (rnodes n), msg', None), g')
           \<and> wf_rnode (RNode (Some m) buf (rnodes n)) \<and> content (MPublish m) = p"
proof -
  obtain m0 buf ns where n: "n = RNode m0 buf ns" by (cases n)
  obtain m1 m2 w where w: "message_ok (MPublish w)" "content (MPublish w) = p"
    "publish_Len msg = Some (int (length (message_wire (MPublish w))), m1)"
    "\<And>dst. wf_slice dst \<Longrightarrow> sl_len dst = length (message_wire (MPublish w)) \<Longrightarrow>
       publish_Encode m1 dst g =
         Some ((m2, fill dst (message_wire (MPublish w)), int (length (message_wire (MPublish w))), None), g')"
    using t unfolding transmits_def by blast
  let ?b = "mtypeflags_bytes w ! 0" and ?w = "message_wire (MPublish w)"
  have ww: "?w = publish_wire ?b w" by simp
  obtain dst where dst: "reuse_buf buf (int (length ?w)) = Some dst" "wf_slice dst" "sl_len dst = length ?w"
    using reuse_buf_ok [of buf "length ?w"] wf n by auto
  let ?buf = "fill dst ?w" and ?old = "case reuse_msg (int (length ?w) \<le> go_cap buf) (fill dst ?w) m0 of None \<Rightarrow> NewPublishMessage | Some m \<Rightarrow> m"
  have arr: "sl_arr ?buf = publish_wire ?b w @ drop (length ?w) (sl_arr dst)" by simp
  have wfb: "wf_slice ?buf" using dst by (simp add: wf_slice_def)
  have fb: "\<exists>b0. flag_byte ?old b0 \<and> drop_bit 4 b0 = drop_bit 4 ?b"
  proof (cases m0)
    case None
    then show ?thesis
      using New_flag_byte(3) valid_type [of PUBLISH] w(1) by (simp add: reuse_msg_def)
  next
    case (Some m)
    then have m: "wf_rmsg m" using wf n by simp
    show ?thesis
    proof (cases "int (length ?w) \<le> go_cap buf")
      case True
      with m Some have "flag_byte ?old ?b"
        by (simp add: reuse_msg_def wf_rmsg_def publish_wire_def header_bytes_def)
      then show ?thesis by blast
    next
      case False
      with m Some w(1) show ?thesis by (auto simp: reuse_msg_def wf_rmsg_def split: list.splits)
    qed
  qed
  then obtain b0 where b0: "flag_byte ?old b0" "drop_bit 4 b0 = drop_bit 4 ?b" by blast
  let ?m = "publish_received ?b w ?old ?buf"
  have "publish_Decode ?old ?buf = Some (?m, int (length (publish_wire ?b w)), None)"
    using publish_Decode_ok [OF _ b0 _ _ wfb arr] w(1) dst(3) by simp
  then have "rinsert_here n msg g = Some ((RNode (Some ?m) ?buf ns, m2, None), g')"
    using w(3) w(4) [OF dst(2,3)] dst(1) n by (simp add: rinsert_here_def Let_def)
  moreover have "content (MPublish ?m) = p"
    using publish_received_fields [OF arr, of ?old] by (simp flip: w(2))
  moreover have "wf_rmsg ?m"
    using publish_received_fields(3) [OF arr, of ?old] w(1)
    by (auto simp: wf_rmsg_def publish_received_def decoded_def Let_def)
  ultimately show ?thesis using wf wfb n by fastforce
qed

text \<open>The node that \<open>rinsert\<close> and \<open>rremove\<close> go to for a level.\<close>

lemma rchild_or_new:
  assumes "wf_rnode (RNode m buf ns)"
  shows "wf_rnode (case map_of ns l of Some n \<Rightarrow> n | None \<Rightarrow> newRNode)"
    and "retained_at (case map_of ns l of Some n \<Rightarrow> n | None \<Rightarrow> newRNode) q = retained_at (RNode m buf ns) (l # q)"
  using wf_rnode_child [OF assms, of l] by (simp_all split: option.split)

lemma rinsert_ok:
  assumes "wf_rnode n" and "levels tpc = Some ls" and "transmits msg g p g'"
  shows "\<exists>n' m msg'. rinsert n tpc msg g = Some ((n', msg', None), g') \<and> wf_rnode n'
           \<and> content (MPublish m) = p \<and> retained_at n' = (retained_at n)(ls \<mapsto> m)"
  using assms(1,2)
proof (induction ls arbitrary: n tpc)
  case Nil
  then have "tpc = []" using levels_step(2) by blast
  moreover obtain m buf msg' where "rinsert_here n msg g = Some ((RNode (Some m) buf (rnodes n), msg', None), g')"
      "wf_rnode (RNode (Some m) buf (rnodes n))" "content (MPublish m) = p"
    using rinsert_here_ok [OF Nil(1) assms(3)] by blast
  moreover have "retained_at (RNode (Some m) buf (rnodes n)) q = ((retained_at n)([] \<mapsto> m)) q" for q
    by (cases q) auto
  ultimately show ?case by (auto simp: rinsert.simps [of n] fun_eq_iff simp del: content.simps)
next
  case (Cons l ls)
  obtain m0 buf ns where n: "n = RNode m0 buf ns" by (cases n)
  have t: "tpc \<noteq> []" using Cons.prems by auto
  obtain r where r: "nextTopicLevel tpc = (l, r, None)" "levels r = Some ls"
    using Cons.prems(2) levels_step(1) [OF t] by blast
  define c where "c = (case map_of ns l of Some n \<Rightarrow> n | None \<Rightarrow> newRNode)"
  note c = rchild_or_new [OF Cons.prems(1) [unfolded n], of l, folded c_def, folded n]
  obtain c' m msg' where c': "rinsert c r msg g = Some ((c', msg', None), g')" "wf_rnode c'"
      "content (MPublish m) = p" "retained_at c' = (retained_at c)(ls \<mapsto> m)"
    using Cons.IH [OF c(1) r(2)] by blast
  let ?n = "RNode m0 buf (AList.update l c' ns)"
  have "rinsert n tpc msg g = Some ((?n, msg', None), g')"
    unfolding n using t r c'(1) by (subst rinsert.simps) (simp add: c_def)
  moreover have "wf_rnode ?n" using Cons.prems(1) c'(2) unfolding n by (rule wf_rnode_update)
  moreover have "retained_at ?n q = ((retained_at n)(l # ls \<mapsto> m)) q" for q
    unfolding retained_update_child by (cases q) (auto simp: c'(4) c(2), auto simp: n)
  ultimately show ?case using c'(3) by blast
qed

text \<open>A refused topic changes nothing that is retained.\<close>

lemma rinsert_refused:
  assumes "wf_rnode n" and "levels tpc = None"
  shows "\<exists>n' e. rinsert n tpc msg g = Some ((n', msg, Some e), g) \<and> wf_rnode n' \<and> retained_at n' = retained_at n"
  using assms
proof (induction "length tpc" arbitrary: n tpc rule: less_induct)
  case less
  obtain m0 buf ns where n: "n = RNode m0 buf ns" by (cases n)
  have t: "tpc \<noteq> []" using less.prems by auto
  obtain l r e where r: "nextTopicLevel tpc = (l, r, e)" by (cases "nextTopicLevel tpc") auto
  show ?case
  proof (cases e)
    case (Some e')
    with t r less.prems show ?thesis by (auto simp: rinsert.simps [of n])
  next
    case None
    have lr: "levels r = None" using less.prems(2) t r None by (simp add: levels.simps [of tpc])
    define c where "c = (case map_of ns l of Some n \<Rightarrow> n | None \<Rightarrow> newRNode)"
    note c = rchild_or_new [OF less.prems(1) [unfolded n], of l, folded c_def, folded n]
    have "length r < length tpc" using r None nextTopicLevel_shorter t by simp
    then obtain c' e' where c': "rinsert c r msg g = Some ((c', msg, Some e'), g)" "wf_rnode c'"
        "retained_at c' = retained_at c"
      using less.hyps [OF _ c(1) lr] by blast
    let ?n = "RNode m0 buf (AList.update l c' ns)"
    have "rinsert n tpc msg g = Some ((?n, msg, Some e'), g)"
      unfolding n using t r None c'(1) by (subst rinsert.simps) (simp add: c_def)
    moreover have "wf_rnode ?n" using less.prems(1) c'(2) unfolding n by (rule wf_rnode_update)
    moreover have "retained_at ?n q = retained_at n q" for q
      unfolding retained_update_child by (cases q) (auto simp: c'(3) c(2), auto simp: n)
    ultimately show ?thesis by blast
  qed
qed

section \<open>Removing\<close>

text \<open>
  Removing takes away the message under the levels and keeps every message whose levels are not a
  nonempty prefix of them, whatever the result.
\<close>

lemma retained_leaf: "rnodes n = [] \<Longrightarrow> q \<noteq> [] \<Longrightarrow> retained_at n q = None"
  by (cases q) simp_all

lemma rremove_ok:
  assumes "wf_rnode n" and "levels tpc = Some ls"
  shows "\<exists>n' e. rremove n tpc = (n', e) \<and> wf_rnode n' \<and> retained_at n' ls = None
           \<and> (\<forall>p. p = [] \<and> ls \<noteq> [] \<or> \<not> prefix p ls \<longrightarrow> retained_at n' p = retained_at n p)"
  using assms
proof (induction ls arbitrary: n tpc)
  case Nil
  obtain m0 buf ns where n: "n = RNode m0 buf ns" by (cases n)
  have "tpc = []" using Nil levels_step(2) by blast
  then have "rremove n tpc = (RNode None (slice_of []) ns, None)" unfolding n by (subst rremove.simps) simp
  moreover have "retained_at (RNode None (slice_of []) ns) p = retained_at n p" if "p \<noteq> []" for p
    using that n by (cases p) auto
  moreover have "wf_rnode (RNode None (slice_of []) ns)" using Nil(1) n by simp
  ultimately show ?case by simp
next
  case (Cons l ls)
  obtain m0 buf ns where n: "n = RNode m0 buf ns" by (cases n)
  have t: "tpc \<noteq> []" using Cons.prems by auto
  obtain r where r: "nextTopicLevel tpc = (l, r, None)" "levels r = Some ls"
    using Cons.prems(2) levels_step(1) [OF t] by blast
  show ?case
  proof (cases "map_of ns l")
    case None
    then have "rremove n tpc = (n, Some (Errorf ''memtopics/rremove: No topic found'' []))"
      unfolding n using t r by (subst rremove.simps) simp
    with n None Cons.prems(1) show ?thesis by simp
  next
    case (Some c)
    obtain c' e where c': "rremove c r = (c', e)" "wf_rnode c'" "retained_at c' ls = None"
        "\<And>p. p = [] \<and> ls \<noteq> [] \<or> \<not> prefix p ls \<Longrightarrow> retained_at c' p = retained_at c p"
      using Cons.IH [OF wf_rnode_child [OF Cons.prems(1) [unfolded n] Some] r(2)] by blast
    let ?u = "RNode m0 buf (AList.update l c' ns)" and ?d = "RNode m0 buf (AList.delete l ns)"
    have u1: "retained_at ?u (l # ls) = None" unfolding retained_update_child using c'(3) by simp
    have u: "retained_at ?u p = retained_at n p" if "p = [] \<or> \<not> prefix p (l # ls)" for p
    proof (cases p)
      case (Cons k q)
      with that c'(4) [of q] Some show ?thesis unfolding retained_update_child by (auto simp: n)
    qed (simp add: n)
    have d: "retained_at ?d p = retained_at ?u p" if "rnodes c' = []" "p \<noteq> [l]" for p
      unfolding retained_update_child retained_delete_child using that
      by (cases p) (auto simp: retained_leaf)
    have d1: "retained_at ?d (l # ls) = None" unfolding retained_delete_child by simp
    have wu: "wf_rnode ?u" using Cons.prems(1) c'(2) unfolding n by (rule wf_rnode_update)
    have wd: "wf_rnode ?d" using Cons.prems(1) unfolding n by (rule wf_rnode_delete)
    have "rremove n tpc = (if e = None \<and> rnodes c' = [] then ?d else ?u, e)"
      unfolding n using t r Some c'(1) by (subst rremove.simps) (simp split: option.split)
    moreover have "retained_at (if e = None \<and> rnodes c' = [] then ?d else ?u) p = retained_at n p"
      if "p = [] \<and> l # ls \<noteq> [] \<or> \<not> prefix p (l # ls)" for p
      using that u [of p] d [of p] by (cases "p = [l]") auto
    moreover have "retained_at (if e = None \<and> rnodes c' = [] then ?d else ?u) (l # ls) = None"
      using u1 d1 by simp
    moreover have "wf_rnode (if e = None \<and> rnodes c' = [] then ?d else ?u)" using wu wd by simp
    ultimately show ?thesis by blast
  qed
qed

text \<open>Whatever the topic, the tree stays well formed.\<close>

lemma rremove_wf: "wf_rnode n \<Longrightarrow> wf_rnode (fst (rremove n tpc))"
proof (induction "length tpc" arbitrary: n tpc rule: less_induct)
  case less
  obtain m buf ns where n: "n = RNode m buf ns" by (cases n)
  obtain l r e where r: "nextTopicLevel tpc = (l, r, e)" by (cases "nextTopicLevel tpc") auto
  consider "tpc = []" | "tpc \<noteq> []" "e \<noteq> None \<or> map_of ns l = None" | c where "tpc \<noteq> []" "e = None" "map_of ns l = Some c" by auto
  then show ?case
  proof cases
    case 3
    have "length r < length tpc" using nextTopicLevel_shorter [of tpc l r] r 3 by simp
    then have wf: "wf_rnode (fst (rremove c r))"
      using less.hyps wf_rnode_child [OF less.prems [unfolded n] 3(3)] by blast
    obtain c' e' where c': "rremove c r = (c', e')" by (cases "rremove c r")
    have "rremove n tpc = (if e' = None \<and> rnodes c' = [] then RNode m buf (AList.delete l ns)
        else RNode m buf (AList.update l c' ns), e')"
      unfolding n using 3 r c' by (subst rremove.simps) (simp split: option.split)
    with wf c' wf_rnode_update [OF less.prems [unfolded n]] wf_rnode_delete [OF less.prems [unfolded n]]
    show ?thesis by (simp del: wf_rnode.simps)
  qed (use less.prems n r in \<open>auto simp: rremove.simps [of "RNode m buf ns"] split: option.split\<close>)
qed

section \<open>Matching a filter\<close>

text \<open>
  Which topics a filter selects, by levels: \<open>+\<close> stands for one level, \<open>#\<close> for any number of levels, the
  parent level included.
\<close>

fun rmatches :: "level list \<Rightarrow> level list \<Rightarrow> bool" where
  "rmatches [] p \<longleftrightarrow> p = []"
| "rmatches (f # fs) p \<longleftrightarrow>
     f = MWC \<or> (case p of [] \<Rightarrow> False | t # ts \<Rightarrow> (f = SWC \<or> f = t) \<and> rmatches fs ts)"

text \<open>All retained messages, with the levels under which they are stored.\<close>

fun rentries :: "rnode \<Rightarrow> (level list \<times> PublishMessage) list" where
  "rentries (RNode m buf ns) =
     map (Pair []) (case m of Some m \<Rightarrow> [m] | None \<Rightarrow> [])
     @ concat (map (\<lambda>kn. map (apfst ((#) (fst kn))) (rentries (snd kn))) ns)"

lemma allRetained_entries: "allRetained n = map snd (rentries n)"
proof (induction n rule: rentries.induct)
  case (1 m buf ns)
  have "map (\<lambda>kn. allRetained (snd kn)) ns = map (\<lambda>kn. map snd (rentries (snd kn))) ns"
    using 1 by (simp cong: map_cong)
  then show ?case by (simp add: map_concat comp_def del: map_eq_conv)
qed

lemma rentries_retained: "wf_rnode n \<Longrightarrow> (p, m) \<in> set (rentries n) \<longleftrightarrow> retained_at n p = Some m"
proof (induction p arbitrary: n)
  case Nil
  show ?case by (cases n) (auto split: option.splits)
next
  case (Cons k p)
  obtain m0 buf ns where n: "n = RNode m0 buf ns" by (cases n)
  have d: "distinct (map fst ns)" using Cons.prems n by simp
  show ?case
  proof (cases "map_of ns k")
    case None
    then have "\<And>m. (k, m) \<notin> set ns" by (force simp: map_of_eq_None_iff)
    with None n show ?thesis by (auto simp: child_paths_mem here_path_mem simp del: set_concat set_map)
  next
    case (Some c)
    have "(k # p, m) \<in> set (rentries n) \<longleftrightarrow> (p, m) \<in> set (rentries c)"
      unfolding n using child_unique [OF d Some] by (auto simp: child_paths_mem here_path_mem simp del: set_concat set_map)
    with Cons.IH [OF wf_rnode_child [OF Cons.prems [unfolded n] Some]] Some n show ?thesis by simp
  qed
qed

abbreviation selected :: "level list \<Rightarrow> rnode \<Rightarrow> PublishMessage list" where
  "selected fs n \<equiv> map snd (filter (\<lambda>e. rmatches fs (fst e)) (rentries n))"

lemma rmatch_nodes_all:
  "(\<And>kn. kn \<in> set ns \<Longrightarrow> rmatch (snd kn) rem = (f kn, None)) \<Longrightarrow>
   rmatch_nodes ns rem = (concat (map f ns), None)"
  by (induction ns) auto

lemma concat_map_key:
  "distinct (map fst ns) \<Longrightarrow>
   concat (map (\<lambda>kn. if fst kn = k then f (snd kn) else []) ns) =
     (case map_of ns k of Some n \<Rightarrow> f n | None \<Rightarrow> [])"
proof (induction ns)
  case (Cons kn ns)
  have "concat (map (\<lambda>kn. if fst kn = k then f (snd kn) else []) ns) = []" if "fst kn = k"
    using Cons.prems that by (auto simp: image_iff)
  with Cons show ?case by (cases kn) auto
qed simp

lemma rmatch_ok: "wf_rnode n \<Longrightarrow> levels tpc = Some fs \<Longrightarrow> rmatch n tpc = (selected fs n, None)"
proof (induction fs arbitrary: n tpc)
  case Nil
  then have "tpc = []" using levels_step(2) by blast
  moreover have "selected [] n = (case rmsg n of Some m \<Rightarrow> [m] | None \<Rightarrow> [])"
    by (cases n) (simp add: filter_child_paths [where P = "\<lambda>p. p = []"] split: option.split)
  ultimately show ?case by (simp add: rmatch.simps [of n] split: option.split)
next
  case (Cons f fs)
  obtain m0 buf ns where n: "n = RNode m0 buf ns" by (cases n)
  have t: "tpc \<noteq> []" using Cons.prems by auto
  obtain r where r: "nextTopicLevel tpc = (f, r, None)" "levels r = Some fs"
    using Cons.prems(2) levels_step(1) [OF t] by blast
  have IH: "rmatch (snd kn) r = (selected fs (snd kn), None)" if "kn \<in> set ns" for kn
    using Cons.IH [OF _ r(2)] Cons.prems(1) n that by auto
  have sel: "selected (f # fs) n =
      concat (map (\<lambda>kn. if f = SWC \<or> f = fst kn then selected fs (snd kn) else []) ns)" if "f \<noteq> MWC"
  proof -
    have "selected (f # fs) n =
        concat (map (\<lambda>kn. map snd (filter (\<lambda>e. rmatches (f # fs) (fst kn # fst e)) (rentries (snd kn)))) ns)"
      unfolding n rentries.simps filter_append map_append filter_child_paths map_concat
      using that by (simp add: comp_def split: option.split)
    also have "\<dots> = concat (map (\<lambda>kn. if f = SWC \<or> f = fst kn then selected fs (snd kn) else []) ns)"
      using that by (intro arg_cong [where f = concat] map_cong refl) auto
    finally show ?thesis .
  qed
  consider "f = MWC" | "f \<noteq> MWC" "f = SWC" | "f \<noteq> MWC" "f \<noteq> SWC" by blast
  then show ?case
  proof cases
    case 1
    then show ?thesis using t r by (simp add: rmatch.simps [of n] allRetained_entries)
  next
    case 2
    have "rmatch n tpc = rmatch_nodes ns r" using t r 2 by (subst rmatch.simps) (simp add: n)
    moreover have "rmatch_nodes ns r = (concat (map (\<lambda>kn. selected fs (snd kn)) ns), None)"
      using IH by (rule rmatch_nodes_all)
    ultimately show ?thesis using sel [OF 2(1)] 2(2) by (simp del: rmatches.simps)
  next
    case 3
    have "selected (f # fs) n = (case map_of ns f of Some c \<Rightarrow> selected fs c | None \<Rightarrow> [])"
      using sel [OF 3(1)] 3(2) concat_map_key [of ns f "selected fs"] Cons.prems(1) n
      by (simp add: eq_commute [of f] del: rmatches.simps)
    moreover have "rmatch n tpc = (case map_of ns f of Some c \<Rightarrow> rmatch c r | None \<Rightarrow> ([], None))"
      using t r 3 by (subst rmatch.simps) (simp add: n)
    ultimately show ?thesis using IH by (cases "map_of ns f") (auto dest!: map_of_SomeD simp del: rmatches.simps)
  qed
qed

end
