(* ===== verification/Mem_Topics.thy ===== *)
theory Mem_Topics
  imports Sub_Tree Ret_Tree
begin

text \<open>
  The in-memory topics provider of \<open>src/topics/memtopics.go\<close> (\<open>memTopics\<close>: \<open>Subscribe\<close>, \<open>Unsubscribe\<close>,
  \<open>Subscribers\<close>, \<open>Retain\<close>, \<open>Retained\<close>, \<open>Close\<close>) and the registry and manager of \<open>src/topics/topics.go\<close>.  What a
  client may rely on is the locale \<open>subscription_store\<close>; the provider and the manager are instances of it.
\<close>

section \<open>The provider\<close>

record memTopics =
  sroot :: "snode option"
  rroot :: "rnode option"

abbreviation MaxQosAllowed :: byte where
  "MaxQosAllowed \<equiv> QosExactlyOnce"

definition NewMemProvider :: memTopics where
  "NewMemProvider = \<lparr>sroot = Some newSNode, rroot = Some newRNode\<rparr>"

text \<open>
  A method of a node on a nil pointer: the topic is looked at before the node is, so an unacceptable
  first level is still reported; anything else panics.
\<close>

definition nil_node :: "bytes \<Rightarrow> error option" where
  "nil_node tpc = (if tpc = [] then None else case nextTopicLevel tpc of (l, r, e) \<Rightarrow> e)"

definition Subscribe ::
    "memTopics \<Rightarrow> bytes \<Rightarrow> byte \<Rightarrow> subscriber option \<Rightarrow> (memTopics \<times> byte \<times> error option) option" where
  "Subscribe this tpc qos sub =
     (if \<not> ValidQos qos then Some (this, QosFailure, Some (Errorf ''Invalid QoS %d'' [FInt (uint qos)]))
      else
        (case sub of
           None \<Rightarrow> Some (this, QosFailure, Some (Errorf ''Subscriber cannot be nil'' []))
         | Some sub \<Rightarrow>
             (let qos = (if MaxQosAllowed < qos then MaxQosAllowed else qos);
                  (grp, tpc) = getGroupName tpc
              in case sroot this of
                   None \<Rightarrow> map_option (\<lambda>err. (this, QosFailure, Some err)) (nil_node tpc)
                 | Some n \<Rightarrow>
                     do { (n, err) \<leftarrow> sinsert n grp tpc qos sub;
                          if err \<noteq> None then Some (this\<lparr>sroot := Some n\<rparr>, QosFailure, err)
                          else Some (this\<lparr>sroot := Some n\<rparr>, qos, None) })))"

definition Unsubscribe :: "memTopics \<Rightarrow> bytes \<Rightarrow> subscriber option \<Rightarrow> (memTopics \<times> error option) option" where
  "Unsubscribe this tpc sub =
     (let (grp, tpc) = getGroupName tpc
      in case sroot this of
           None \<Rightarrow> map_option (\<lambda>err. (this, Some err)) (nil_node tpc)
         | Some n \<Rightarrow> map_option (\<lambda>(n, err). (this\<lparr>sroot := Some n\<rparr>, err)) (sremove n grp tpc sub))"

definition Subscribers :: "memTopics \<Rightarrow> bytes \<Rightarrow> byte \<Rightarrow> matches \<Rightarrow> (matches \<times> error option) option" where
  "Subscribers this tpc qos acc =
     (if \<not> ValidQos qos then Some (acc, Some (Errorf ''Invalid QoS %d'' [FInt (uint qos)]))
      else
        (let acc = ([], [], snd (snd acc))
         in case sroot this of
              None \<Rightarrow> map_option (\<lambda>err. (acc, Some err)) (nil_node tpc)
            | Some n \<Rightarrow> smatch n tpc qos acc))"

text \<open>An empty payload deletes the retained message of the topic.\<close>

definition topics_Retain ::
    "memTopics \<Rightarrow> PublishMessage \<Rightarrow> uint64 \<Rightarrow> ((memTopics \<times> PublishMessage \<times> error option) \<times> uint64) option" where
  "topics_Retain this msg g =
     (case rroot this of
        None \<Rightarrow> map_option (\<lambda>err. ((this, msg, Some err), g)) (nil_node (topic msg))
      | Some n \<Rightarrow>
          (if length (payload msg) = 0 then
             (case rremove n (topic msg) of (n, err) \<Rightarrow> Some ((this\<lparr>rroot := Some n\<rparr>, msg, err), g))
           else
             map_option (\<lambda>((n, msg, err), g). ((this\<lparr>rroot := Some n\<rparr>, msg, err), g)) (rinsert n (topic msg) msg g)))"

definition Retained :: "memTopics \<Rightarrow> bytes \<Rightarrow> PublishMessage list \<Rightarrow> (PublishMessage list \<times> error option) option" where
  "Retained this tpc msgs =
     (case rroot this of
        None \<Rightarrow> map_option (\<lambda>err. (msgs, Some err)) (nil_node tpc)
      | Some n \<Rightarrow> (case rmatch n tpc of (ms, err) \<Rightarrow> Some (msgs @ ms, err)))"

definition topics_Close :: "memTopics \<Rightarrow> memTopics \<times> error option" where
  "topics_Close this = (this\<lparr>sroot := None, rroot := None\<rparr>, None)"

section \<open>The registry and the manager\<close>

text \<open>
  Providers are shared through interface values: \<open>providers\<close> maps a name to a place in \<open>objects\<close>, and a
  manager holds such a place.
\<close>

record topics_pkg =
  providers :: "(string \<times> nat) list"
  objects :: "memTopics list"

definition Register :: "topics_pkg \<Rightarrow> string \<Rightarrow> nat option \<Rightarrow> topics_pkg option" where
  "Register pkg name provider =
     (case provider of
        None \<Rightarrow> None
      | Some p \<Rightarrow>
          (if map_of (providers pkg) name \<noteq> None then None
           else Some (pkg\<lparr>providers := (name, p) # providers pkg\<rparr>)))"

definition Unregister :: "topics_pkg \<Rightarrow> string \<Rightarrow> topics_pkg" where
  "Unregister pkg name = pkg\<lparr>providers := AList.delete name (providers pkg)\<rparr>"

definition topics_init :: "topics_pkg \<Rightarrow> topics_pkg option" where
  "topics_init pkg = Register (pkg\<lparr>objects := objects pkg @ [NewMemProvider]\<rparr>) ''mem'' (Some (length (objects pkg)))"

definition NewManager :: "topics_pkg \<Rightarrow> string \<Rightarrow> nat option \<times> error option" where
  "NewManager pkg providerName =
     (case map_of (providers pkg) providerName of
        None \<Rightarrow> (None, Some (Errorf ''session: unknown provider %q'' [FStr providerName]))
      | Some p \<Rightarrow> (Some p, None))"

text \<open>A method call on the provider of a manager.\<close>

definition on_provider :: "topics_pkg \<Rightarrow> nat \<Rightarrow> (memTopics \<Rightarrow> (memTopics \<times> 'r) option) \<Rightarrow> (topics_pkg \<times> 'r) option" where
  "on_provider pkg p f =
     (if p < length (objects pkg) then
        do { (t, r) \<leftarrow> f (objects pkg ! p); Some (pkg\<lparr>objects := (objects pkg)[p := t]\<rparr>, r) }
      else None)"

definition Manager_Subscribe ::
    "nat \<Rightarrow> topics_pkg \<Rightarrow> bytes \<Rightarrow> byte \<Rightarrow> subscriber option \<Rightarrow> (topics_pkg \<times> byte \<times> error option) option" where
  "Manager_Subscribe this pkg tpc qos subscriber = on_provider pkg this (\<lambda>p. Subscribe p tpc qos subscriber)"

definition Manager_Unsubscribe ::
    "nat \<Rightarrow> topics_pkg \<Rightarrow> bytes \<Rightarrow> subscriber option \<Rightarrow> (topics_pkg \<times> error option) option" where
  "Manager_Unsubscribe this pkg tpc subscriber = on_provider pkg this (\<lambda>p. Unsubscribe p tpc subscriber)"

definition Manager_Subscribers ::
    "nat \<Rightarrow> topics_pkg \<Rightarrow> bytes \<Rightarrow> byte \<Rightarrow> matches \<Rightarrow> (matches \<times> error option) option" where
  "Manager_Subscribers this pkg tpc qos acc =
     map_option snd (on_provider pkg this (\<lambda>p. map_option (Pair p) (Subscribers p tpc qos acc)))"

definition Manager_Retain ::
    "nat \<Rightarrow> topics_pkg \<Rightarrow> PublishMessage \<Rightarrow> uint64 \<Rightarrow> (topics_pkg \<times> (PublishMessage \<times> error option) \<times> uint64) option" where
  "Manager_Retain this pkg msg g =
     on_provider pkg this (\<lambda>p. map_option (\<lambda>((p, msg, err), g). (p, (msg, err), g)) (topics_Retain p msg g))"

definition Manager_Retained ::
    "nat \<Rightarrow> topics_pkg \<Rightarrow> bytes \<Rightarrow> PublishMessage list \<Rightarrow> (PublishMessage list \<times> error option) option" where
  "Manager_Retained this pkg tpc msgs =
     map_option snd (on_provider pkg this (\<lambda>p. map_option (Pair p) (Retained p tpc msgs)))"

definition Manager_Close :: "nat \<Rightarrow> topics_pkg \<Rightarrow> (topics_pkg \<times> error option) option" where
  "Manager_Close this pkg = on_provider pkg this (\<lambda>p. Some (topics_Close p))"

section \<open>What a client relies on\<close>

text \<open>A subscriber with a QoS, or the members of a group, stored under the levels of a filter.\<close>

abbreviation stored_sub :: "(level list \<Rightarrow> sub_content) \<Rightarrow> level list \<Rightarrow> subscriber \<Rightarrow> byte \<Rightarrow> bool" where
  "stored_sub c p s q \<equiv> (s, q) \<in> set (zip (fst (c p)) (fst (snd (c p))))"

abbreviation stored_group :: "(level list \<Rightarrow> sub_content) \<Rightarrow> level list \<Rightarrow> subscriber list \<Rightarrow> bool" where
  "stored_group c p ms \<equiv> ms \<in> snd ` set (snd (snd (c p)))"

text \<open>
  The subscribers \<open>sl\<close> with the QoS values \<open>ql\<close> are handed a publication with QoS \<open>q\<close> to the levels \<open>ls\<close>:
  exactly the subscribers of the matching filters, with the smaller QoS, and a member of every group of
  a matching filter, with QoS 1.
\<close>

definition handed ::
    "(level list \<Rightarrow> sub_content) \<Rightarrow> byte \<Rightarrow> level list \<Rightarrow> subscriber list \<Rightarrow> byte list \<Rightarrow> bool" where
  "handed c q ls sl ql \<longleftrightarrow>
     length sl = length ql
     \<and> (\<forall>s r. (s, r) \<in> set (zip sl ql) \<longrightarrow>
          (\<exists>p r'. matches p ls \<and> stored_sub c p s r' \<and> r = min q r')
          \<or> (\<exists>p ms. matches p ls \<and> stored_group c p ms \<and> s \<in> set ms \<and> r = 1))
     \<and> (\<forall>p s r. matches p ls \<longrightarrow> stored_sub c p s r \<longrightarrow> (s, min q r) \<in> set (zip sl ql))
     \<and> (\<forall>p ms. matches p ls \<longrightarrow> stored_group c p ms \<longrightarrow> (\<exists>s \<in> set ms. (s, 1) \<in> set (zip sl ql)))"

locale subscription_store =
  fixes inv :: "'t \<Rightarrow> bool"
    and stored :: "'t \<Rightarrow> level list \<Rightarrow> sub_content"
    and subscribe :: "'t \<Rightarrow> bytes \<Rightarrow> byte \<Rightarrow> subscriber option \<Rightarrow> ('t \<times> byte \<times> error option) option"
    and unsubscribe :: "'t \<Rightarrow> bytes \<Rightarrow> subscriber option \<Rightarrow> ('t \<times> error option) option"
    and subscribers :: "'t \<Rightarrow> bytes \<Rightarrow> byte \<Rightarrow> matches \<Rightarrow> (matches \<times> error option) option"
  assumes subscribe_law:
      "\<And>t f g f' fs q s. inv t \<Longrightarrow> ValidQos q \<Longrightarrow> getGroupName f = (g, f') \<Longrightarrow> levels f' = Some fs \<Longrightarrow>
         \<exists>t'. subscribe t f q (Some s) = Some (t', q, None) \<and> inv t'
            \<and> stored t' = (stored t)(fs := ins_content g q s (stored t fs))"
    and unsubscribe_law:
      "\<And>t f g f' fs s. inv t \<Longrightarrow> getGroupName f = (g, f') \<Longrightarrow> levels f' = Some fs \<Longrightarrow>
         case rem_content g s (stored t fs) of
           Some c \<Rightarrow> \<exists>t'. unsubscribe t f (Some s) = Some (t', None) \<and> inv t' \<and> stored t' = (stored t)(fs := c)
         | None \<Rightarrow> \<exists>t' e. unsubscribe t f (Some s) = Some (t', Some e) \<and> inv t' \<and> stored t' = stored t"
    and subscribers_law:
      "\<And>t tpc ls q acc. inv t \<Longrightarrow> ValidQos q \<Longrightarrow> levels tpc = Some ls \<Longrightarrow>
         \<exists>sl ql ds. subscribers t tpc q acc = Some ((sl, ql, ds), None) \<and> handed (stored t) q ls sl ql"
    and stored_law: "\<And>t fs. inv t \<Longrightarrow> wf_content (stored t fs)"

lemma equal_sub_eq: "equal_sub a b \<Longrightarrow> a = b"
  by (cases a; cases b) auto

lemma equal_sub_refl: "equal_sub a a \<longleftrightarrow> (\<forall>f. a \<noteq> FuncSub f)"
  by (cases a) auto

lemma sub_index_nth: "sub_index ss s = Some i \<Longrightarrow> ss ! i = s"
  by (induction ss arbitrary: i) (auto simp: equal_sub_eq split: if_splits)

lemma sub_index_snoc: "sub_index ss s = None \<Longrightarrow> equal_sub s s \<Longrightarrow> sub_index (ss @ [s]) s = Some (length ss)"
  by (induction ss) (auto split: if_splits)

text \<open>Inserting stores the subscriber; removing what was not there before the insertion restores the content.\<close>

lemma ins_content_stored:
  assumes "wf_content c"
  shows "(s, q) \<in> set (zip (fst (ins_content [] q s c)) (fst (snd (ins_content [] q s c))))"
proof -
  obtain ss qs gs where c: "c = (ss, qs, gs)" by (cases c)
  show ?thesis
  proof (cases "sub_index ss s")
    case (Some i)
    then have "i < length ss" "ss ! i = s" "length qs = length ss"
      using assms c sub_index_less sub_index_nth by (auto simp: wf_content_def)
    with Some c show ?thesis by (auto simp: ins_content_def set_zip intro!: exI [of _ i])
  next
    case None
    with assms c show ?thesis by (simp add: ins_content_def wf_content_def)
  qed
qed

text \<open>\<open>s\<close> is not stored, on its own or in the group \<open>g\<close>.\<close>

definition absent :: "bytes \<Rightarrow> subscriber \<Rightarrow> sub_content \<Rightarrow> bool" where
  "absent g s c \<longleftrightarrow> sub_index (if g = [] then fst c else case map_of (snd (snd c)) g of Some l \<Rightarrow> l | None \<Rightarrow> []) s = None"

lemma remove_at_snoc: "remove_at (length xs) (xs @ [x]) = xs"
  by (simp add: remove_at_def)

lemma rem_ins_content:
  assumes "wf_content c" and "absent g s c" and "\<forall>f. s \<noteq> FuncSub f"
  shows "rem_content g s (ins_content g q s c) = Some c"
proof -
  obtain ss qs gs where c: "c = (ss, qs, gs)" by (cases c)
  have s: "equal_sub s s" using assms(3) by (simp add: equal_sub_refl)
  show ?thesis
  proof (cases "g = []")
    case True
    with assms c s show ?thesis
      by (simp add: absent_def ins_content_def rem_content_def wf_content_def sub_index_snoc remove_at_snoc)
         (metis remove_at_snoc)
  next
    case False
    show ?thesis
    proof (cases "map_of gs g")
      case None
      with False c s show ?thesis by (simp add: ins_content_def rem_content_def alist_delete_new update_conv')
    next
      case (Some l)
      with assms c False have "sub_index (l @ [s]) s = Some (length l)" "l \<noteq> []" "distinct (map fst gs)"
        using sub_index_snoc [OF _ s] map_of_SomeD [OF Some] by (auto simp: absent_def wf_content_def)
      with Some False c show ?thesis
        by (simp add: ins_content_def rem_content_def remove_at_snoc alist_update_twice alist_update_same update_conv')
    qed
  qed
qed

lemma ins_content_group:
  assumes "g \<noteq> []"
  shows "(case map_of (snd (snd c)) g of Some l \<Rightarrow> l | None \<Rightarrow> []) @ [s] \<in> snd ` set (snd (snd (ins_content g q s c)))"
proof -
  obtain ss qs gs where c: "c = (ss, qs, gs)" by (cases c)
  have "map_of (AList.update g v gs) g = Some v" for v by (simp add: update_conv')
  from map_of_SomeD [OF this] assms c show ?thesis by (force simp: ins_content_def)
qed

lemma handed_cong:
  assumes c: "\<And>p. matches p ls \<Longrightarrow> c p = d p"
  shows "handed c q ls sl ql \<longleftrightarrow> handed d q ls sl ql"
proof -
  have "(matches p ls \<and> stored_sub c p s r) = (matches p ls \<and> stored_sub d p s r)"
    "(matches p ls \<and> stored_group c p ms) = (matches p ls \<and> stored_group d p ms)" for p s r ms
    using c [of p] by auto
  then show ?thesis
    unfolding handed_def conj_assoc [symmetric] imp_conjL [symmetric] by presburger
qed

context subscription_store
begin

text \<open>A subscription is honoured by the next publication to a topic that its filter matches.\<close>

lemma subscribe_publish:
  assumes "inv t" and "ValidQos r" and "ValidQos q" and f: "getGroupName f = ([], f')" "levels f' = Some fs"
    and l: "levels tpc = Some ls" and m: "matches fs ls"
  shows "\<exists>t' sl ql ds. subscribe t f r (Some s) = Some (t', r, None) \<and> inv t'
           \<and> subscribers t' tpc q acc = Some ((sl, ql, ds), None) \<and> (s, min q r) \<in> set (zip sl ql)"
proof -
  obtain t' where t': "subscribe t f r (Some s) = Some (t', r, None)" "inv t'"
      "stored t' = (stored t)(fs := ins_content [] r s (stored t fs))"
    using subscribe_law [OF assms(1,2) f] by blast
  obtain sl ql ds where s: "subscribers t' tpc q acc = Some ((sl, ql, ds), None)" "handed (stored t') q ls sl ql"
    using subscribers_law [OF t'(2) assms(3) l] by blast
  have "stored_sub (stored t') fs s r"
    unfolding t'(3) using ins_content_stored [OF stored_law [OF assms(1)]] by simp
  with s(2) m have "(s, min q r) \<in> set (zip sl ql)" unfolding handed_def by blast
  with t' s(1) show ?thesis by blast
qed

text \<open>A group subscription: one member of the group is handed the publication.\<close>

lemma subscribe_group_publish:
  assumes "inv t" and "ValidQos r" and "ValidQos q" and f: "getGroupName f = (g, f')" "levels f' = Some fs"
    and l: "levels tpc = Some ls" and m: "matches fs ls" and "g \<noteq> []"
  shows "\<exists>t' sl ql ds. subscribe t f r (Some s) = Some (t', r, None) \<and> inv t'
           \<and> subscribers t' tpc q acc = Some ((sl, ql, ds), None)
           \<and> (\<exists>s' \<in> set ((case map_of (snd (snd (stored t fs))) g of Some l \<Rightarrow> l | None \<Rightarrow> []) @ [s]).
                (s', 1) \<in> set (zip sl ql))"
proof -
  obtain t' where t': "subscribe t f r (Some s) = Some (t', r, None)" "inv t'"
      "stored t' = (stored t)(fs := ins_content g r s (stored t fs))"
    using subscribe_law [OF assms(1,2) f] by blast
  obtain sl ql ds where s: "subscribers t' tpc q acc = Some ((sl, ql, ds), None)" "handed (stored t') q ls sl ql"
    using subscribers_law [OF t'(2) assms(3) l] by blast
  have "stored_group (stored t') fs ((case map_of (snd (snd (stored t fs))) g of Some l \<Rightarrow> l | None \<Rightarrow> []) @ [s])"
    unfolding t'(3) using ins_content_group [OF assms(8)] by simp
  with s(2) m have "\<exists>s' \<in> set ((case map_of (snd (snd (stored t fs))) g of Some l \<Rightarrow> l | None \<Rightarrow> []) @ [s]).
      (s', 1) \<in> set (zip sl ql)" unfolding handed_def by blast
  with t' s(1) show ?thesis by blast
qed

text \<open>Cancelling a subscription that was new takes the store back to where it was.\<close>

lemma subscribe_unsubscribe:
  assumes "inv t" and "ValidQos r" and f: "getGroupName f = (g, f')" "levels f' = Some fs"
    and "absent g s (stored t fs)" and "\<forall>a. s \<noteq> FuncSub a"
  shows "\<exists>t1 t2. subscribe t f r (Some s) = Some (t1, r, None) \<and> unsubscribe t1 f (Some s) = Some (t2, None)
           \<and> inv t2 \<and> stored t2 = stored t"
proof -
  obtain t1 where t1: "subscribe t f r (Some s) = Some (t1, r, None)" "inv t1"
      "stored t1 = (stored t)(fs := ins_content g r s (stored t fs))"
    using subscribe_law [OF assms(1,2) f] by blast
  have "rem_content g s (stored t1 fs) = Some (stored t fs)"
    unfolding t1(3) using rem_ins_content [OF stored_law [OF assms(1)] assms(5,6)] by simp
  with unsubscribe_law [OF t1(2) f, of s] obtain t2 where
    "unsubscribe t1 f (Some s) = Some (t2, None)" "inv t2" "stored t2 = (stored t1)(fs := stored t fs)" by auto
  with t1 show ?thesis by auto
qed

end

section \<open>The provider and the manager honour it\<close>

definition mem_ok :: "memTopics \<Rightarrow> bool" where
  "mem_ok t \<longleftrightarrow> (case sroot t of Some n \<Rightarrow> wf_snode n | None \<Rightarrow> False) \<and> (case rroot t of Some n \<Rightarrow> wf_rnode n | None \<Rightarrow> False)"

definition subs_at :: "memTopics \<Rightarrow> level list \<Rightarrow> sub_content" where
  "subs_at t = (case sroot t of Some n \<Rightarrow> content_at n | None \<Rightarrow> (\<lambda>_. no_content))"

definition msgs_at :: "memTopics \<Rightarrow> level list \<Rightarrow> PublishMessage option" where
  "msgs_at t = (case rroot t of Some n \<Rightarrow> retained_at n | None \<Rightarrow> (\<lambda>_. None))"

lemma mem_okE:
  assumes "mem_ok t"
  obtains n m where "sroot t = Some n" "rroot t = Some m" "wf_snode n" "wf_rnode m"
    "subs_at t = content_at n" "msgs_at t = retained_at m"
  using assms unfolding mem_ok_def by (auto simp: subs_at_def msgs_at_def split: option.splits)

lemma mem_ok_new: "mem_ok NewMemProvider" "subs_at NewMemProvider = (\<lambda>_. no_content)" "msgs_at NewMemProvider = (\<lambda>_. None)"
  by (auto simp: mem_ok_def NewMemProvider_def subs_at_def msgs_at_def)

lemma wf_content_at: "wf_snode n \<Longrightarrow> wf_content (content_at n p)"
proof (induction p arbitrary: n)
  case Nil
  then show ?case by (simp add: wf_snode_iff [of n])
next
  case (Cons l p)
  show ?case
  proof (cases "map_of (snodes n) l")
    case None
    then show ?thesis by (simp add: wf_content_def)
  next
    case (Some m)
    with Cons.prems have "wf_snode m" by (cases n) (simp add: wf_snode_child del: wf_snode.simps)
    with Some Cons.IH show ?thesis by simp
  qed
qed

lemma ValidQos_max: "ValidQos q \<Longrightarrow> \<not> MaxQosAllowed < q"
  by (auto simp: ValidQos_def)

lemma delivers_handed:
  assumes "wf_snode n" and "delivers q (matching ls (entries n)) (matching ls (gentries n)) sl ql"
  shows "handed (content_at n) q ls sl ql"
  unfolding handed_def
proof (intro conjI allI impI)
  show "length sl = length ql" using assms(2) by (simp add: delivers_def)
next
  fix s r assume "(s, r) \<in> set (zip sl ql)"
  from delivers_sound [OF assms(2) this]
  show "(\<exists>p r'. matches p ls \<and> stored_sub (content_at n) p s r' \<and> r = min q r')
      \<or> (\<exists>p ms. matches p ls \<and> stored_group (content_at n) p ms \<and> s \<in> set ms \<and> r = 1)"
  proof
    assume "\<exists>p q'. (p, s, q') \<in> set (matching ls (entries n)) \<and> r = min q q'"
    then show ?thesis using entries_content [OF assms(1)] by auto
  next
    assume "\<exists>g \<in> set (matching ls (gentries n)). s \<in> set (snd g) \<and> r = 1"
    then obtain p ms where p: "(p, ms) \<in> set (gentries n)" "matches p ls" "s \<in> set ms" "r = 1" by auto
    then have "stored_group (content_at n) p ms" using gentries_content [OF assms(1), of p ms] by simp
    with p(2-4) show ?thesis by (intro disjI2 exI conjI)
  qed
next
  fix p s r assume "matches p ls" "stored_sub (content_at n) p s r"
  then have "(p, s, r) \<in> set (matching ls (entries n))" using entries_content [OF assms(1)] by simp
  then show "(s, min q r) \<in> set (zip sl ql)" by (rule delivers_complete [OF assms(2)])
next
  fix p ms assume "matches p ls" "stored_group (content_at n) p ms"
  then have "(p, ms) \<in> set (matching ls (gentries n))" using gentries_content [OF assms(1)] by simp
  from delivers_group [OF assms(2) this] show "\<exists>s \<in> set ms. (s, 1) \<in> set (zip sl ql)" by simp
qed

lemma Subscribe_ok:
  assumes "mem_ok t" and q: "ValidQos q" and f: "getGroupName f = (g, f')" "levels f' = Some fs"
  shows "\<exists>t'. Subscribe t f q (Some s) = Some (t', q, None) \<and> mem_ok t'
           \<and> subs_at t' = (subs_at t)(fs := ins_content g q s (subs_at t fs)) \<and> rroot t' = rroot t"
proof -
  obtain n m where t: "sroot t = Some n" "rroot t = Some m" "wf_snode n" "wf_rnode m" "subs_at t = content_at n"
    using assms(1) by (rule mem_okE)
  obtain n' where n': "sinsert n g f' q s = Some (n', None)" "wf_snode n'"
      "content_at n' = (content_at n)(fs := ins_content g q s (content_at n fs))"
    using sinsert_ok [OF t(3) f(2)] by blast
  let ?t = "t\<lparr>sroot := Some n'\<rparr>"
  have "Subscribe t f q (Some s) = Some (?t, q, None)"
    using q ValidQos_max [OF q] t(1) f(1) n'(1) by (simp add: Subscribe_def)
  moreover have "mem_ok ?t" "subs_at ?t = content_at n'" using t n'(2) by (simp_all add: mem_ok_def subs_at_def)
  ultimately show ?thesis using t(5) n'(3) by auto
qed

lemma Unsubscribe_ok:
  assumes "mem_ok t" and f: "getGroupName f = (g, f')" "levels f' = Some fs"
  shows "case rem_content g s (subs_at t fs) of
           Some c \<Rightarrow> \<exists>t'. Unsubscribe t f (Some s) = Some (t', None) \<and> mem_ok t' \<and> subs_at t' = (subs_at t)(fs := c)
         | None \<Rightarrow> \<exists>t' e. Unsubscribe t f (Some s) = Some (t', Some e) \<and> mem_ok t' \<and> subs_at t' = subs_at t"
proof -
  obtain n m where t: "sroot t = Some n" "rroot t = Some m" "wf_snode n" "wf_rnode m" "subs_at t = content_at n"
    using assms(1) by (rule mem_okE)
  have ok: "mem_ok (t\<lparr>sroot := Some n'\<rparr>) \<longleftrightarrow> wf_snode n'" "subs_at (t\<lparr>sroot := Some n'\<rparr>) = content_at n'" for n'
    using t by (simp_all add: mem_ok_def subs_at_def)
  show ?thesis
  proof (cases "rem_content g s (subs_at t fs)")
    case None
    with sremove_ok [OF t(3) f(2), of g s] t(5) obtain n' e where
      "sremove n g f' (Some s) = Some (n', Some e)" "wf_snode n'" "content_at n' = content_at n" by auto
    with None t(1,5) f(1) ok show ?thesis by (simp add: Unsubscribe_def)
  next
    case (Some c)
    with sremove_ok [OF t(3) f(2), of g s] t(5) obtain n' where
      "sremove n g f' (Some s) = Some (n', None)" "wf_snode n'" "content_at n' = (content_at n)(fs := c)" by auto
    with Some t(1,5) f(1) ok show ?thesis by (simp add: Unsubscribe_def)
  qed
qed

lemma Subscribers_ok:
  assumes "mem_ok t" and q: "ValidQos q" and l: "levels tpc = Some ls"
  shows "\<exists>sl ql ds. Subscribers t tpc q acc = Some ((sl, ql, ds), None) \<and> handed (subs_at t) q ls sl ql"
proof -
  obtain n m where t: "sroot t = Some n" "wf_snode n" "subs_at t = content_at n"
    using assms(1) by (rule mem_okE)
  obtain sl ql ds where "smatch n tpc q ([], [], snd (snd acc)) = Some ((sl, ql, ds), None)"
      "delivers q (matching ls (entries n)) (matching ls (gentries n)) sl ql"
    using smatch_delivers [OF t(2) l, of q "([], [], snd (snd acc))"] by auto
  with t q delivers_handed [OF t(2)] show ?thesis by (auto simp: Subscribers_def Let_def)
qed

interpretation mt: subscription_store mem_ok subs_at Subscribe Unsubscribe Subscribers
proof unfold_locales
  show "wf_content (subs_at t fs)" if "mem_ok t" for t fs
    using that by (auto elim!: mem_okE simp: wf_content_at)
qed (use Subscribe_ok in blast, rule Unsubscribe_ok, assumption+, rule Subscribers_ok)

definition mgr_ok :: "nat \<Rightarrow> topics_pkg \<Rightarrow> bool" where
  "mgr_ok p pkg \<longleftrightarrow> p < length (objects pkg) \<and> mem_ok (objects pkg ! p)"

definition mgr_subs :: "nat \<Rightarrow> topics_pkg \<Rightarrow> level list \<Rightarrow> sub_content" where
  "mgr_subs p pkg = subs_at (objects pkg ! p)"

interpretation mg: subscription_store "mgr_ok p" "mgr_subs p" "Manager_Subscribe p" "Manager_Unsubscribe p"
    "Manager_Subscribers p" for p
proof unfold_locales
  fix t f g f' fs q s
  assume a: "mgr_ok p t" "ValidQos q" "getGroupName f = (g, f')" "levels f' = Some fs"
  then have "mem_ok (objects t ! p)" by (simp add: mgr_ok_def)
  from mt.subscribe_law [OF this a(2-4), of s] a(1)
  show "\<exists>t'. Manager_Subscribe p t f q (Some s) = Some (t', q, None) \<and> mgr_ok p t'
          \<and> mgr_subs p t' = (mgr_subs p t)(fs := ins_content g q s (mgr_subs p t fs))"
    by (auto simp: Manager_Subscribe_def on_provider_def mgr_ok_def mgr_subs_def simp del: fun_upd_apply)
next
  fix t f g f' fs s
  assume a: "mgr_ok p t" "getGroupName f = (g, f')" "levels f' = Some fs"
  then have "mem_ok (objects t ! p)" by (simp add: mgr_ok_def)
  from mt.unsubscribe_law [OF this a(2,3), of s] a(1)
  show "case rem_content g s (mgr_subs p t fs) of
          Some c \<Rightarrow> \<exists>t'. Manager_Unsubscribe p t f (Some s) = Some (t', None) \<and> mgr_ok p t' \<and> mgr_subs p t' = (mgr_subs p t)(fs := c)
        | None \<Rightarrow> \<exists>t' e. Manager_Unsubscribe p t f (Some s) = Some (t', Some e) \<and> mgr_ok p t' \<and> mgr_subs p t' = mgr_subs p t"
    by (cases "rem_content g s (subs_at (objects t ! p) fs)")
       (auto simp: Manager_Unsubscribe_def on_provider_def mgr_ok_def mgr_subs_def simp del: fun_upd_apply)
next
  fix t tpc ls q acc
  assume a: "mgr_ok p t" "ValidQos q" "levels tpc = Some ls"
  then have "mem_ok (objects t ! p)" by (simp add: mgr_ok_def)
  from mt.subscribers_law [OF this a(2,3), of acc] a(1)
  show "\<exists>sl ql ds. Manager_Subscribers p t tpc q acc = Some ((sl, ql, ds), None) \<and> handed (mgr_subs p t) q ls sl ql"
    by (auto simp: Manager_Subscribers_def on_provider_def mgr_ok_def mgr_subs_def)
next
  show "wf_content (mgr_subs p t fs)" if "mgr_ok p t" for t fs
    using that mt.stored_law by (simp add: mgr_ok_def mgr_subs_def)
qed

section \<open>Retained messages\<close>


lemma topics_Retain_ok:
  assumes "mem_ok t" and "payload msg \<noteq> []" and "levels (topic msg) = Some ls" and "transmits msg g p g'"
  shows "\<exists>t' m msg'. topics_Retain t msg g = Some ((t', msg', None), g') \<and> mem_ok t' \<and> content (MPublish m) = p
           \<and> msgs_at t' = (msgs_at t)(ls \<mapsto> m) \<and> sroot t' = sroot t"
proof -
  obtain n r where t: "sroot t = Some n" "rroot t = Some r" "wf_snode n" "wf_rnode r" "msgs_at t = retained_at r"
    using assms(1) by (rule mem_okE)
  obtain r' m msg' where r': "rinsert r (topic msg) msg g = Some ((r', msg', None), g')" "wf_rnode r'"
      "content (MPublish m) = p" "retained_at r' = (retained_at r)(ls \<mapsto> m)"
    using rinsert_ok [OF t(4) assms(3,4)] by blast
  let ?t = "t\<lparr>rroot := Some r'\<rparr>"
  have "topics_Retain t msg g = Some ((?t, msg', None), g')" using assms(2) t(2) r'(1) by (simp add: topics_Retain_def)
  moreover have "mem_ok ?t" "msgs_at ?t = (msgs_at t)(ls \<mapsto> m)"
    using t r'(2,4) by (simp_all add: mem_ok_def msgs_at_def)
  ultimately show ?thesis using r'(3) by fastforce
qed


lemma Retained_ok:
  assumes "mem_ok t" and "levels f = Some fs"
  shows "\<exists>ms. Retained t f acc = Some (acc @ ms, None) \<and> (\<forall>m. m \<in> set ms \<longleftrightarrow> (\<exists>p. rmatches fs p \<and> msgs_at t p = Some m))"
proof -
  obtain n r where t: "rroot t = Some r" "wf_rnode r" "msgs_at t = retained_at r"
    using assms(1) by (rule mem_okE)
  have "m \<in> set (selected fs r) \<longleftrightarrow> (\<exists>p. rmatches fs p \<and> msgs_at t p = Some m)" for m
    using rentries_retained [OF t(2)] t(3) by (auto simp: image_iff)
  then show ?thesis using t(1) rmatch_ok [OF t(2) assms(2)] by (auto simp: Retained_def)
qed

section \<open>Sequences of calls\<close>









section \<open>Properties\<close>


text \<open>The package after its \<open>init\<close>, and some topics: \<open>a/b\<close>, \<open>a/+\<close>, \<open>$group/g/a\<close>.\<close>

definition fresh_pkg :: topics_pkg where
  "fresh_pkg = \<lparr>providers = [(''mem'', 0)], objects = [NewMemProvider]\<rparr>"

lemma fresh_pkg_ok:
  "mgr_ok 0 fresh_pkg" "mgr_subs 0 fresh_pkg = (\<lambda>_. no_content)"
  "topics_init \<lparr>providers = [], objects = []\<rparr> = Some fresh_pkg"
  by (simp_all add: mgr_ok_def mgr_subs_def fresh_pkg_def mem_ok_new topics_init_def Register_def)

lemma example_topics:
  "levels [97] = Some [[97]]" "levels [97, 47, 98] = Some [[97], [98]]" "levels [97, 47, 43] = Some [[97], SWC]"
  "levels [97, 47, 35] = Some [[97], MWC]" "levels [47, 97] = Some [SWC, [97]]"
  "getGroupName [97, 47, 43] = ([], [97, 47, 43])"
  by code_simp+











text \<open>
  C27: a retained message is kept: \<open>Retain\<close> of a message that is to be sent stores it, with the identifier it
  gets, under its topic; then \<open>Retained\<close> returns, for every filter, the messages of the topics the filter
  selects, the new one included, and the messages of all other topics as before.
\<close>

theorem retained_returned:
  assumes "mem_ok t" and "message_good (MPublish msg)" and "payload msg \<noteq> []" and "levels (topic msg) = Some ls"
  shows "\<exists>t' m msg'. topics_Retain t msg g = Some ((t', msg', None), snd (sent (MPublish msg) g)) \<and> mem_ok t'
           \<and> content (MPublish m) = fst (sent (MPublish msg) g)
           \<and> (\<forall>f fs. levels f = Some fs \<longrightarrow>
                (\<exists>ms. Retained t' f [] = Some (ms, None)
                   \<and> set ms = {x. \<exists>p. rmatches fs p \<and> ((msgs_at t)(ls \<mapsto> m)) p = Some x}))"
proof -
  obtain t' m msg' where t': "topics_Retain t msg g = Some ((t', msg', None), snd (sent (MPublish msg) g))" "mem_ok t'"
      "content (MPublish m) = fst (sent (MPublish msg) g)" "msgs_at t' = (msgs_at t)(ls \<mapsto> m)"
    using topics_Retain_ok [OF assms(1,3,4) transmits_good [OF assms(2)]] by blast
  moreover have "\<exists>ms. Retained t' f [] = Some (ms, None)
      \<and> set ms = {x. \<exists>p. rmatches fs p \<and> ((msgs_at t)(ls \<mapsto> m)) p = Some x}" if "levels f = Some fs" for f fs
    using Retained_ok [OF t'(2) that, of "[]"] unfolding t'(4) set_eq_iff mem_Collect_eq append_Nil .
  ultimately show ?thesis by blast
qed

definition retain_example :: PublishMessage where
  "retain_example =
     \<lparr>remlen = 0, mtypeflags = Own [0x31], packetId = Own [], dbuf = slice_of [], dirty = True,
      topic = [97, 47, 98], payload = [1, 2, 3]\<rparr>"

lemma retain_example_good: "message_good (MPublish retain_example)"
  by (simp add: message_good_def retain_example_def MessageType_Valid_iff sendable_def flags_ok_def
      ValidQos_def publish_len_def publish_id_bytes_def ValidTopic_def views_ok_def qos_of_def)

theorem retained_returned_witness:
  "\<exists>t' m msg'. topics_Retain NewMemProvider retain_example 5 = Some ((t', msg', None), snd (sent (MPublish retain_example) 5)) \<and> mem_ok t'
     \<and> content (MPublish m) = fst (sent (MPublish retain_example) 5)
     \<and> (\<forall>f fs. levels f = Some fs \<longrightarrow>
          (\<exists>ms. Retained t' f [] = Some (ms, None)
             \<and> set ms = {x. \<exists>p. rmatches fs p \<and> ((msgs_at NewMemProvider)([[97], [98]] \<mapsto> m)) p = Some x}))"
  by (rule retained_returned [OF mem_ok_new(1) retain_example_good])
     (simp_all add: retain_example_def example_topics)

text \<open>
  C38: a filter that starts with the separator selects too much: its empty first level is read as \<open>+\<close>, so the
  subscriber of \<open>/f\<close> is handed the publications to \<open>x/t\<close> for every level \<open>x\<close>, when \<open>f\<close> matches \<open>t\<close>.
\<close>

theorem leading_separator_any_level:
  assumes "mgr_ok p pkg" and "ValidQos r" and "ValidQos q"
    and "levels f = Some fs" and "levels tpc = Some (x # ls)" and "matches fs ls"
  shows "\<exists>pkg' sl ql ds. Manager_Subscribe p pkg (SEP # f) r (Some s) = Some (pkg', r, None) \<and> mgr_ok p pkg'
           \<and> Manager_Subscribers p pkg' tpc q acc = Some ((sl, ql, ds), None) \<and> (s, min q r) \<in> set (zip sl ql)"
proof -
  have "levels (SEP # f) = Some (SWC # fs)" using assms(4) by (simp add: levels.simps [of "SEP # f"] nextTopicLevel_def)
  moreover have "getGroupName (SEP # f) = ([], SEP # f)" by (simp add: getGroupName_def GroupPrefix_def)
  ultimately show ?thesis using mg.subscribe_publish [OF assms(1-3) _ _ assms(5)] assms(6) by simp
qed

theorem leading_separator_any_level_witness:
  "\<exists>pkg' sl ql ds. Manager_Subscribe 0 fresh_pkg (SEP # [97]) 1 (Some (PtrSub 7)) = Some (pkg', 1, None) \<and> mgr_ok 0 pkg'
     \<and> Manager_Subscribers 0 pkg' [97, 47, 97] 1 ([], [], []) = Some ((sl, ql, ds), None) \<and> (PtrSub 7, min 1 1) \<in> set (zip sl ql)"
proof -
  have "levels [97, 47, 97] = Some [[97], [97]]" by code_simp
  then show ?thesis
    by (intro leading_separator_any_level [where fs = "[[97]]" and x = "[97]" and ls = "[[97]]"])
       (simp_all add: fresh_pkg_ok example_topics ValidQos_def)
qed

lemma matches_parent: "MWC \<notin> set ls \<Longrightarrow> \<not> matches (ls @ [MWC]) ls" "rmatches (ls @ [MWC]) ls"
  by (induction ls) auto

lemma handed_none:
  assumes h: "handed c q ls sl ql" and c: "\<And>p. matches p ls \<Longrightarrow> c p = no_content"
  shows "sl = [] \<and> ql = []"
proof -
  have "(s, r) \<notin> set (zip sl ql)" for s r
  proof
    assume "(s, r) \<in> set (zip sl ql)"
    with h consider p r' where "matches p ls" "stored_sub c p s r'" | p ms where "matches p ls" "stored_group c p ms"
      unfolding handed_def by meson
    then show False by cases (simp_all add: c)
  qed
  then have "zip sl ql = []" by (cases "zip sl ql") fastforce+
  moreover have "length sl = length ql" using h by (simp add: handed_def)
  ultimately show ?thesis by (cases sl; cases ql) auto
qed

text \<open>Messages for \<open>a\<close> and \<open>a/b\<close>, retained in this order.\<close>

definition kept_message :: "bytes \<Rightarrow> PublishMessage" where
  "kept_message tpc =
     \<lparr>remlen = 4, mtypeflags = InDbuf 0 1, packetId = Own [], dbuf = slice_of [0x31], dirty = False,
      topic = tpc, payload = [1]\<rparr>"

definition two_retained :: memTopics where
  "two_retained =
     \<lparr>sroot = Some newSNode,
      rroot = Some (RNode None (slice_of [])
        [([97], RNode (Some (kept_message [97])) (slice_of [0x31])
           [([98], RNode (Some (kept_message [97, 47, 98])) (slice_of [0x31]) [])])])\<rparr>"

lemma two_retained_ok: "mem_ok two_retained" "msgs_at two_retained [[97]] = Some (kept_message [97])"
  by (simp_all add: two_retained_def mem_ok_def wf_rmsg_def kept_message_def msgs_at_def)

text \<open>
  C37: the two trees read \<open>#\<close> differently: a subscriber of \<open>f/#\<close> alone is handed nothing that is published to the
  parent \<open>f\<close>, whereas the retained message of \<open>f\<close> is returned for the filter \<open>f/#\<close>.
\<close>

theorem hash_and_parent:
  assumes "levels f = Some (ls @ [MWC])" and "levels tpc = Some ls" and "MWC \<notin> set ls" and "getGroupName f = ([], f)"
    and "ValidQos r" and "ValidQos q" and "mem_ok u" and "msgs_at u ls = Some m"
  shows "(\<exists>t ds. Subscribe NewMemProvider f r (Some s) = Some (t, r, None)
            \<and> Subscribers t tpc q acc = Some (([], [], ds), None))
    \<and> (\<exists>ms. Retained u f [] = Some (ms, None) \<and> m \<in> set ms)"
proof (intro conjI)
  obtain t where t: "Subscribe NewMemProvider f r (Some s) = Some (t, r, None)" "mem_ok t"
      "subs_at t = (\<lambda>_. no_content)(ls @ [MWC] := ins_content [] r s no_content)"
    using Subscribe_ok [OF mem_ok_new(1) assms(5,4,1)] unfolding mem_ok_new(2) by blast
  obtain sl ql ds where s: "Subscribers t tpc q acc = Some ((sl, ql, ds), None)" "handed (subs_at t) q ls sl ql"
    using Subscribers_ok [OF t(2) assms(6,2)] by blast
  have "subs_at t p = no_content" if "matches p ls" for p
    using that matches_parent(1) [OF assms(3)] unfolding t(3) by auto
  with handed_none [OF s(2)] have "sl = [] \<and> ql = []" by blast
  with t(1) s(1) show "\<exists>t ds. Subscribe NewMemProvider f r (Some s) = Some (t, r, None)
      \<and> Subscribers t tpc q acc = Some (([], [], ds), None)" by auto
next
  show "\<exists>ms. Retained u f [] = Some (ms, None) \<and> m \<in> set ms"
    using Retained_ok [OF assms(7,1), of "[]"] assms(8) matches_parent(2) [of ls] by auto
qed

theorem hash_and_parent_witness:
  "(\<exists>t ds. Subscribe NewMemProvider [97, 47, 35] 1 (Some (PtrSub 7)) = Some (t, 1, None)
      \<and> Subscribers t [97] 1 ([], [], []) = Some (([], [], ds), None))
   \<and> (\<exists>ms. Retained two_retained [97, 47, 35] [] = Some (ms, None) \<and> kept_message [97] \<in> set ms)"
proof -
  have "getGroupName [97, 47, 35] = ([], [97, 47, 35])" by code_simp
  then show ?thesis
    by (intro hash_and_parent [where ls = "[[97]]"]) (simp_all add: example_topics ValidQos_def two_retained_ok)
qed

text \<open>
  C36: clearing a retained message may lose another one: when the topic \<open>k/l\<close> is the only topic below \<open>k\<close>,
  retaining an empty payload for it removes the node of \<open>k\<close> as well, with the message retained for \<open>k\<close>.
\<close>

theorem clearing_loses_parent:
  assumes "mem_ok t" and "rroot t = Some (RNode m0 buf ns)" and "map_of ns k = Some (RNode (Some m) kbuf [(l, leaf)])"
    and "rnodes leaf = []" and "payload msg = []" and "levels (topic msg) = Some [k, l]"
  shows "msgs_at t [k] = Some m
    \<and> (\<exists>t'. topics_Retain t msg g = Some ((t', msg, None), g) \<and> mem_ok t' \<and> msgs_at t' [k] = None)"
proof -
  have ne: "topic msg \<noteq> []" using assms(6) by auto
  then obtain r where r: "nextTopicLevel (topic msg) = (k, r, None)" "levels r = Some [l]"
    using assms(6) levels_step(1) by blast
  have "r \<noteq> []" using r(2) by auto
  moreover then obtain r2 where r2: "nextTopicLevel r = (l, r2, None)" "levels r2 = Some []"
    using r(2) levels_step(1) by blast
  moreover have "r2 = []" using r2(2) levels_step(2) by blast
  moreover obtain lm lbuf where leaf: "leaf = RNode lm lbuf []" using assms(4) by (cases leaf) auto
  ultimately have "rremove (RNode (Some m) kbuf [(l, leaf)]) r = (RNode (Some m) kbuf [], None)"
    by (subst rremove.simps) (simp add: rremove.simps [of "RNode lm lbuf []"])
  then have rr: "rremove (RNode m0 buf ns) (topic msg) = (RNode m0 buf (AList.delete k ns), None)"
    using ne r(1) assms(3) by (subst rremove.simps) simp
  let ?t = "t\<lparr>rroot := Some (RNode m0 buf (AList.delete k ns))\<rparr>"
  have "topics_Retain t msg g = Some ((?t, msg, None), g)" using assms(2,5) rr by (simp add: topics_Retain_def)
  moreover have "mem_ok ?t"
    using assms(1,2) wf_rnode_delete [of m0 buf ns k] by (simp add: mem_ok_def del: wf_rnode.simps)
  moreover have "msgs_at ?t [k] = None" by (simp add: msgs_at_def delete_conv')
  moreover have "msgs_at t [k] = Some m" using assms(2,3) by (simp add: msgs_at_def)
  ultimately show ?thesis by blast
qed

text \<open>A message without payload for \<open>a/b\<close>.\<close>

definition clear_message :: PublishMessage where
  "clear_message = retain_example\<lparr>payload := []\<rparr>"

theorem clearing_loses_parent_witness:
  "msgs_at two_retained [[97]] = Some (kept_message [97])
   \<and> (\<exists>t'. topics_Retain two_retained clear_message 0 = Some ((t', clear_message, None), 0) \<and> mem_ok t' \<and> msgs_at t' [[97]] = None)"
  by (rule clearing_loses_parent [where l = "[98]" and kbuf = "slice_of [0x31]" and ns = "rnodes (the (rroot two_retained))"
        and leaf = "RNode (Some (kept_message [97, 47, 98])) (slice_of [0x31]) []", OF two_retained_ok(1)])
    (simp_all add: two_retained_def clear_message_def retain_example_def example_topics)

end
