(* ===== verification/Go_Effects.thy ===== *)
theory Go_Effects
  imports Go_Prelude
begin

text \<open>
  Go code with effects on shared objects, for the parts of the broker where a panic is recovered and what was
  done before it stays.  An action takes the state of the program to its outcome and the state afterwards; the
  outcome is a value, a panic, or that the goroutine blocks for ever.  The rest of the theory has the few
  functions of \<open>strings\<close>, \<open>strconv\<close> and \<open>fmt\<close> that the broker calls.
\<close>

section \<open>Actions\<close>

datatype 'a outcome = Done 'a | Panicked | Stuck

type_synonym ('a, 'w) act = "'w \<Rightarrow> 'a outcome \<times> 'w"

named_theorems act_simps \<open>evaluation of actions\<close>

definition yield :: "'a \<Rightarrow> ('a, 'w) act" where
  "yield a w = (Done a, w)"

definition panicking :: "('a, 'w) act" where
  "panicking w = (Panicked, w)"

definition blocked :: "('a, 'w) act" where
  "blocked w = (Stuck, w)"

definition andThen :: "('a, 'w) act \<Rightarrow> ('a \<Rightarrow> ('b, 'w) act) \<Rightarrow> ('b, 'w) act" where
  "andThen m f w =
     (case m w of (Done a, w) \<Rightarrow> f a w | (Panicked, w) \<Rightarrow> (Panicked, w) | (Stuck, w) \<Rightarrow> (Stuck, w))"

definition gets :: "('w \<Rightarrow> 'a) \<Rightarrow> ('a, 'w) act" where
  "gets f w = (Done (f w), w)"

definition modify :: "('w \<Rightarrow> 'w) \<Rightarrow> (unit, 'w) act" where
  "modify f w = (Done (), f w)"

text \<open>A function without effects on the state, whose panic is \<open>None\<close>.\<close>

definition lift_opt :: "'a option \<Rightarrow> ('a, 'w) act" where
  "lift_opt r = (case r of None \<Rightarrow> panicking | Some a \<Rightarrow> yield a)"

primrec each :: "('x \<Rightarrow> (unit, 'w) act) \<Rightarrow> 'x list \<Rightarrow> (unit, 'w) act" where
  "each f [] = yield ()"
| "each f (x # xs) = andThen (f x) (\<lambda>_. each f xs)"

text \<open>\<open>defer recover.PanicHandler()\<close>; the dump that it writes to a file is not modelled.\<close>

definition PanicHandler :: "(unit, 'w) act \<Rightarrow> (unit, 'w) act" where
  "PanicHandler m w = (case m w of (Panicked, w) \<Rightarrow> (Done (), w) | r \<Rightarrow> r)"

lemma act_eval [act_simps]:
  "yield a w = (Done a, w)" "panicking w = (Panicked, w)" "blocked w = (Stuck, w)"
  "gets f w = (Done (f w), w)" "modify h w = (Done (), h w)"
  "lift_opt None w = (Panicked, w)" "lift_opt (Some a) w = (Done a, w)"
  by (simp_all add: yield_def panicking_def blocked_def gets_def modify_def lift_opt_def)

lemma andThen_Done [act_simps]: "m w = (Done a, w') \<Longrightarrow> andThen m f w = f a w'"
  by (simp add: andThen_def)

lemma andThen_Panicked [act_simps]: "m w = (Panicked, w') \<Longrightarrow> andThen m f w = (Panicked, w')"
  by (simp add: andThen_def)

lemma andThen_Stuck: "m w = (Stuck, w') \<Longrightarrow> andThen m f w = (Stuck, w')"
  by (simp add: andThen_def)

lemma PanicHandler_eval [act_simps]:
  "m w = (Done a, w') \<Longrightarrow> PanicHandler m w = (Done a, w')" "m w = (Panicked, w') \<Longrightarrow> PanicHandler m w = (Done (), w')"
  by (simp_all add: PanicHandler_def)

text \<open>An action ends in a value exactly if its parts do.\<close>

lemma andThen_DoneE:
  assumes "andThen m f w = (Done b, w'')"
  obtains a w' where "m w = (Done a, w')" "f a w' = (Done b, w'')"
  using assms by (auto simp: andThen_def split: prod.splits outcome.splits)

section \<open>Strings\<close>

text \<open>A Go string is its bytes; \<open>str\<close> is a literal.\<close>

definition str :: "string \<Rightarrow> bytes" where
  "str s = map of_char s"

text \<open>\<open>strings.Split\<close> with a separator of one byte, and \<open>strings.Join\<close>.\<close>

fun go_split :: "byte \<Rightarrow> bytes \<Rightarrow> bytes list" where
  "go_split sep [] = [[]]"
| "go_split sep (b # bs) =
     (if b = sep then [] # go_split sep bs
      else (case go_split sep bs of [] \<Rightarrow> [[b]] | p # ps \<Rightarrow> (b # p) # ps))"

fun go_join :: "bytes list \<Rightarrow> bytes \<Rightarrow> bytes" where
  "go_join [] sep = []"
| "go_join [p] sep = p"
| "go_join (p # ps) sep = p @ sep @ go_join ps sep"

text \<open>\<open>strings.Contains\<close>\<close>

fun go_prefix :: "bytes \<Rightarrow> bytes \<Rightarrow> bool" where
  "go_prefix [] s \<longleftrightarrow> True"
| "go_prefix (x # xs) [] \<longleftrightarrow> False"
| "go_prefix (x # xs) (y # ys) \<longleftrightarrow> x = y \<and> go_prefix xs ys"

fun go_contains :: "bytes \<Rightarrow> bytes \<Rightarrow> bool" where
  "go_contains [] sub \<longleftrightarrow> sub = []"
| "go_contains (b # bs) sub \<longleftrightarrow> go_prefix sub (b # bs) \<or> go_contains bs sub"

text \<open>Decimal numbers: \<open>%d\<close>, and \<open>strconv.Atoi\<close> on 64 bits.\<close>

fun decimal :: "nat \<Rightarrow> bytes" where
  "decimal n = (if n < 10 then [] else decimal (n div 10)) @ [48 + of_nat (n mod 10)]"

declare decimal.simps [simp del]

definition go_itoa :: "int \<Rightarrow> bytes" where
  "go_itoa i = (if i < 0 then 45 # decimal (nat (- i)) else decimal (nat i))"

fun digits :: "bytes \<Rightarrow> int \<Rightarrow> int option" where
  "digits [] acc = Some acc"
| "digits (b # bs) acc = (if 48 \<le> b \<and> b \<le> 57 then digits bs (10 * acc + (uint b - 48)) else None)"

definition Atoi :: "bytes \<Rightarrow> error + int" where
  "Atoi s =
     (let (neg, ds) = (case s of b # r \<Rightarrow> if b = 45 then (True, r) else if b = 43 then (False, r) else (False, s) | [] \<Rightarrow> (False, []))
      in if ds = [] then Inl (Errorf ''strconv.Atoi: parsing %q: invalid syntax'' [FBytes s])
         else case digits ds 0 of
           None \<Rightarrow> Inl (Errorf ''strconv.Atoi: parsing %q: invalid syntax'' [FBytes s])
         | Some n \<Rightarrow>
             (let i = (if neg then - n else n)
              in if i < - (2 ^ 63) \<or> 2 ^ 63 \<le> i then Inl (Errorf ''strconv.Atoi: parsing %q: value out of range'' [FBytes s])
                 else Inr i))"

text \<open>
  The text of an error.  A verb is replaced by the text of its argument; the quotes of \<open>%q\<close> are kept and its escapes
  left out.
\<close>

definition arg_text :: "fmtarg \<Rightarrow> bytes" where
  "arg_text a =
     (case a of FInt i \<Rightarrow> go_itoa i | FBytes b \<Rightarrow> b | FStr s \<Rightarrow> str s | FBool b \<Rightarrow> str (if b then ''true'' else ''false''))"

fun sprintf :: "string \<Rightarrow> fmtarg list \<Rightarrow> bytes" where
  "sprintf [] as = []"
| "sprintf [c] as = [of_char c]"
| "sprintf (c # d # s) as =
     (if c = CHR ''%'' then
        (case as of
           [] \<Rightarrow> of_char c # of_char d # sprintf s []
         | a # as \<Rightarrow> (if d = CHR ''q'' then 34 # arg_text a @ 34 # sprintf s as else arg_text a @ sprintf s as))
      else of_char c # sprintf (d # s) as)"

lemma go_split_ne [simp]: "go_split sep s \<noteq> []"
  by (induction s) (auto split: list.splits)

lemma go_split_none: "sep \<notin> set s \<Longrightarrow> go_split sep s = [s]"
  by (induction s) auto

lemma go_split_append: "sep \<notin> set p \<Longrightarrow> go_split sep (p @ sep # s) = p # go_split sep s"
  by (induction p) auto

lemma go_join_split: "go_join (go_split sep s) [sep] = s"
proof (induction s)
  case (Cons b bs)
  then show ?case by (cases "go_split sep bs"; cases "tl (go_split sep bs)") auto
qed simp

lemma go_split_last2:
  assumes "sep \<notin> set p" and "sep \<notin> set q"
  shows "\<exists>r rs. go_split sep (s @ sep # p @ sep # q) = (r # rs) @ [p, q]"
proof (induction s)
  case Nil
  show ?case using assms go_split_append [of sep p q] by (simp add: go_split_none)
next
  case (Cons b s)
  then obtain r rs where "go_split sep (s @ sep # p @ sep # q) = (r # rs) @ [p, q]" by blast
  then show ?case by (cases "b = sep") auto
qed

end
