(* ===== verification/Go_Bits.thy ===== *)
theory Go_Bits
  imports Go_Prelude
begin

unbundle bit_operations_syntax

text \<open>
  The arithmetic of ring buffers whose size is a power of two, shared by \<open>src/sessions/ackqueue.go\<close> and
  \<open>src/service/buffer.go\<close>: the test for a power of two, rounding up to one, and \<open>n & mask\<close> as remainder.
\<close>

section \<open>Powers of two\<close>

text \<open>\<open>int64\<close> values are kept at their width; \<open>>>\<close> on them is arithmetic.\<close>

type_synonym int64 = "64 word"

definition powerOfTwo64 :: "int64 \<Rightarrow> bool" where
  "powerOfTwo64 n \<longleftrightarrow> n \<noteq> 0 \<and> n AND (n - 1) = 0"

definition roundUpPowerOfTwo64 :: "int64 \<Rightarrow> int64" where
  "roundUpPowerOfTwo64 n =
     (let n = n - 1;
          n = n OR signed_drop_bit 1 n;
          n = n OR signed_drop_bit 2 n;
          n = n OR signed_drop_bit 4 n;
          n = n OR signed_drop_bit 8 n;
          n = n OR signed_drop_bit 16 n;
          n = n OR signed_drop_bit 32 n
      in n + 1)"

lemma and_pred_nat: "0 < x \<Longrightarrow> x AND (x - 1) = 0 \<longleftrightarrow> (\<exists>k. x = 2 ^ k)" for x :: nat
proof (induction x rule: less_induct)
  case (less x)
  show ?case
  proof (cases "even x")
    case True
    then obtain y where y: "x = 2 * y" by blast
    with less.prems have "0 < y" by simp
    have "x AND (x - 1) = 2 * (y AND (y - 1))"
      using y \<open>0 < y\<close> by (subst and_nat_rec) (cases y, auto)
    moreover have "(\<exists>k. x = 2 ^ k) \<longleftrightarrow> (\<exists>k. y = 2 ^ k)"
    proof
      assume "\<exists>k. x = 2 ^ k"
      then obtain k where k: "x = 2 ^ k" by blast
      with True have "k \<noteq> 0" by (cases k) auto
      with k y show "\<exists>k. y = 2 ^ k" by (cases k) auto
    next
      assume "\<exists>k. y = 2 ^ k"
      then show "\<exists>k. x = 2 ^ k" using y by (auto intro: exI [of _ "Suc _"])
    qed
    ultimately show ?thesis using less.IH [of y] \<open>0 < y\<close> y by simp
  next
    case False
    then obtain y where y: "x = 2 * y + 1" by (rule oddE)
    have "x AND (x - 1) = 2 * y" using y by (subst and_nat_rec) simp
    moreover have "(\<exists>k. x = 2 ^ k) \<longleftrightarrow> y = 0"
    proof
      assume "\<exists>k. x = 2 ^ k"
      then obtain k where "x = 2 ^ k" by blast
      with False have "k = 0" by (cases k) auto
      with \<open>x = 2 ^ k\<close> y show "y = 0" by simp
    qed (use y in \<open>auto intro: exI [of _ 0]\<close>)
    ultimately show ?thesis by simp
  qed
qed

lemma powerOfTwo64_iff: "powerOfTwo64 n \<longleftrightarrow> (\<exists>k. unat n = 2 ^ k)"
proof (cases "n = 0")
  case False
  then have "unat (n - 1) = unat n - 1" by (simp add: unat_minus_one)
  then have "unat (n AND (n - 1)) = unat n AND (unat n - 1)" by (simp add: unsigned_and_eq)
  moreover have "0 < unat n" using False by (simp add: unat_gt_0)
  ultimately show ?thesis using False and_pred_nat [of "unat n"] by (simp add: powerOfTwo64_def unat_eq_0 [symmetric])
qed (simp add: powerOfTwo64_def)

text \<open>One round of the smearing: every bit is copied to the \<open>w\<close> positions below those it already covers.\<close>

definition covers :: "int64 \<Rightarrow> nat \<Rightarrow> int64 \<Rightarrow> bool" where
  "covers x w y \<longleftrightarrow> (\<forall>i. bit y i \<longleftrightarrow> (\<exists>j < w. bit x (i + j)))"

lemma smear_round:
  assumes "covers x w y" and "\<not> bit x 63" and "v = w + w" and "0 < w"
  shows "covers x v (y OR signed_drop_bit w y)"
proof -
  have y: "bit y i \<longleftrightarrow> (\<exists>j < w. bit x (i + j))" for i using assms(1) by (simp add: covers_def)
  have hi: "\<not> bit x m" if "63 \<le> m" for m
    using assms(2) that bit_imp_le_length [of x m] by (cases "m = 63") auto
  have "bit (signed_drop_bit w y) i \<longleftrightarrow> bit y (w + i)" for i
    using hi by (auto simp: bit_signed_drop_bit_iff y)
  moreover have "(\<exists>j < w + w. bit x (i + j)) \<longleftrightarrow> (\<exists>j < w. bit x (i + j)) \<or> (\<exists>j < w. bit x (w + i + j))" for i
  proof
    assume "\<exists>j < w + w. bit x (i + j)"
    then obtain j where j: "j < w + w" "bit x (i + j)" by blast
    show "(\<exists>j < w. bit x (i + j)) \<or> (\<exists>j < w. bit x (w + i + j))"
    proof (cases "j < w")
      case False
      with j have "j - w < w" "bit x (w + i + (j - w))" by (auto simp: algebra_simps)
      then show ?thesis by blast
    qed (use j in blast)
  next
    assume "(\<exists>j < w. bit x (i + j)) \<or> (\<exists>j < w. bit x (w + i + j))"
    then show "\<exists>j < w + w. bit x (i + j)"
    proof
      assume "\<exists>j < w. bit x (w + i + j)"
      then obtain j where "j < w" "bit x (w + i + j)" by blast
      then show ?thesis by (intro exI [of _ "w + j"]) (simp add: algebra_simps)
    qed (auto intro: trans_less_add1)
  qed
  ultimately show ?thesis unfolding covers_def assms(3) by (simp add: bit_or_iff y)
qed

definition smear :: "int64 \<Rightarrow> int64" where
  "smear n =
     (let n = n OR signed_drop_bit 1 n; n = n OR signed_drop_bit 2 n; n = n OR signed_drop_bit 4 n;
          n = n OR signed_drop_bit 8 n; n = n OR signed_drop_bit 16 n
      in n OR signed_drop_bit 32 n)"

lemma bit_smear:
  assumes "\<not> bit x 63"
  shows "bit (smear x) i \<longleftrightarrow> (\<exists>j < 64. bit x (i + j))"
proof -
  note r = smear_round [OF _ assms]
  have "covers x 1 x" by (simp add: covers_def)
  from r [of 32 _ 64, OF r [of 16, OF r [of 8, OF r [of 4, OF r [of 2, OF r [of 1, OF this]]]]]]
  have "covers x 64 (smear x)" unfolding smear_def Let_def by simp
  then show ?thesis by (simp add: covers_def)
qed

lemma top_bit:
  fixes x :: int64
  assumes "x \<noteq> 0"
  obtains t where "bit x t" and "\<And>i. bit x i \<Longrightarrow> i \<le> t"
proof
  let ?S = "{i. bit x i}"
  have fin: "finite ?S" by (rule finite_subset [of _ "{..<64}"]) (auto dest: bit_imp_le_length)
  moreover have "?S \<noteq> {}" using assms by (auto simp: bit_eq_iff)
  ultimately show "bit x (Max ?S)" using Max_in by blast
  show "i \<le> Max ?S" if "bit x i" for i using fin that by simp
qed

lemma unat_small: "n < 2 ^ 64 \<Longrightarrow> unat (of_nat n :: int64) = n"
  by (simp add: unat_of_nat)

lemma unat_exp:
  assumes "k < 64"
  shows "unat ((2 :: int64) ^ k) = 2 ^ k"
proof -
  have "(2 :: nat) ^ k < 2 ^ 64" using assms by (intro power_strict_increasing) simp_all
  then have "unat (of_nat (2 ^ k) :: int64) = 2 ^ k" using unat_of_nat [of "2 ^ k", where 'a = 64] by (simp del: of_nat_power)
  then show ?thesis by simp
qed

lemma bit_nat_ge: "bit (x :: nat) t \<Longrightarrow> 2 ^ t \<le> x"
proof (rule ccontr)
  assume "bit x t" and "\<not> 2 ^ t \<le> x"
  then have "x div 2 ^ t = 0" by simp
  with \<open>bit x t\<close> show False by (simp add: bit_iff_odd)
qed

lemma roundUpPowerOfTwo64_spec:
  assumes "1 \<le> n" and "n \<le> 2 ^ 62"
  shows "\<exists>k \<le> 62. unat (roundUpPowerOfTwo64 (of_nat n)) = 2 ^ k \<and> n \<le> 2 ^ k \<and> 2 ^ k < 2 * n"
proof -
  define x :: int64 where "x = of_nat n - 1"
  have un: "unat (of_nat n :: int64) = n" using assms by (simp add: unat_of_nat)
  then have "(of_nat n :: int64) \<noteq> 0" using assms(1) by (metis unat_0 not_one_le_zero)
  then have x: "unat x = n - 1" by (simp add: x_def unat_minus_one un)
  have r: "roundUpPowerOfTwo64 (of_nat n) = smear x + 1" by (simp add: roundUpPowerOfTwo64_def smear_def x_def Let_def)
  show ?thesis
  proof (cases "x = 0")
    case True
    then have "n = 1" using x assms(1) by simp
    then show ?thesis unfolding r True by (intro exI [of _ 0]) (simp add: smear_def)
  next
    case False
    then obtain t where t: "bit x t" "\<And>i. bit x i \<Longrightarrow> i \<le> t" by (rule top_bit) blast
    have lt: "unat x < 2 ^ 62" using x assms by simp
    have "t < 62"
    proof (rule ccontr)
      assume "\<not> t < 62"
      have "bit (unat x) t" using t(1) by (simp add: bit_unsigned_iff)
      moreover have "take_bit 62 (unat x) = unat x" using lt by (simp add: take_bit_nat_eq_self)
      ultimately show False using \<open>\<not> t < 62\<close> by (metis bit_take_bit_iff)
    qed
    then have "\<not> bit x 63" using t(2) [of 63] by auto
    then have "bit (smear x) i \<longleftrightarrow> bit (mask (Suc t) :: int64) i" for i
    proof (subst bit_smear)
      show "(\<exists>j < 64. bit x (i + j)) \<longleftrightarrow> bit (mask (Suc t) :: int64) i"
      proof
        assume "\<exists>j < 64. bit x (i + j)"
        then obtain j where "bit x (i + j)" by blast
        from t(2) [OF this] \<open>t < 62\<close> show "bit (mask (Suc t) :: int64) i" by (simp add: bit_mask_iff)
      next
        assume "bit (mask (Suc t) :: int64) i"
        then have "i \<le> t" by (simp add: bit_mask_iff)
        with t(1) \<open>t < 62\<close> show "\<exists>j < 64. bit x (i + j)" by (intro exI [of _ "t - i"]) simp
      qed
    qed
    then have sm: "smear x = mask (Suc t)" by (intro bit_eqI) simp
    have "unat (smear x + 1) = 2 ^ Suc t"
      unfolding sm mask_eq_exp_minus_1 diff_add_cancel using \<open>t < 62\<close> by (intro unat_exp) simp
    moreover have "unat x < 2 ^ Suc t" "2 ^ t \<le> unat x"
    proof -
      have "bit (unat x) i \<Longrightarrow> i < Suc t" for i using t(2) [of i] by (simp add: bit_unsigned_iff)
      then have "take_bit (Suc t) (unat x) = unat x" by (intro bit_eqI) (auto simp: bit_take_bit_iff)
      then show "unat x < 2 ^ Suc t" by (metis take_bit_nat_less_exp)
      have "bit (unat x) t" using t(1) by (simp add: bit_unsigned_iff)
      then show "2 ^ t \<le> unat x" by (rule bit_nat_ge)
    qed
    ultimately show ?thesis unfolding r x using assms(1) \<open>t < 62\<close> by (intro exI [of _ "Suc t"]) auto
  qed
qed

section \<open>The position in the ring\<close>

lemma and_mask_int: "(n :: int) AND (2 ^ k - 1) = n mod 2 ^ k"
  by (simp add: take_bit_eq_mask [symmetric] mask_eq_exp_minus_1 [symmetric] take_bit_eq_mod)

end
