(* ===== verification/Conn_Misc.thy ===== *)
theory Conn_Misc
  imports Messages
begin

text \<open>
  \<open>src/service/misc.go\<close>: whole packets read from and written to a network connection before the
  connection's own reader and writer run.

  A connection is the bytes that will arrive (\<open>incoming\<close>), the bytes that were written
  (\<open>outgoing\<close>), and the sizes in which the network delivers (\<open>chunks\<close>): \<open>Read\<close> returns at most the
  next chunk, possibly nothing, and everything that fits once the list is used up.  At the end of the
  stream \<open>Read\<close> returns \<open>read_err\<close>: \<open>io.EOF\<close>, or the error by which the network ends it (a deadline, a reset).
  \<open>write_err\<close> is the error of the network for writes, if any.  A connection that the program closed fails.
\<close>

section \<open>Connections\<close>

abbreviation (input) ErrInvalidConnectionType :: error where
  "ErrInvalidConnectionType \<equiv> ErrNew ''service: Invalid connection type''"

record conn =
  incoming :: bytes
  outgoing :: bytes
  chunks :: "nat list"
  closed :: bool
  read_err :: error
  write_err :: "error option"

abbreviation net_ErrClosed :: error where
  "net_ErrClosed \<equiv> ErrNew ''use of closed network connection''"

definition conn_Read :: "conn \<Rightarrow> nat \<Rightarrow> bytes \<times> error option \<times> conn" where
  "conn_Read c sz =
     (if closed c then ([], Some net_ErrClosed, c)
      else if incoming c = [] then ([], Some (read_err c), c)
      else
        (let n = (case chunks c of [] \<Rightarrow> sz | k # _ \<Rightarrow> min k sz)
         in (take n (incoming c), None, c\<lparr>incoming := drop n (incoming c), chunks := tl (chunks c)\<rparr>)))"

definition conn_Write :: "conn \<Rightarrow> bytes \<Rightarrow> error option \<times> conn" where
  "conn_Write c b =
     (if closed c then (Some net_ErrClosed, c)
      else if write_err c \<noteq> None then (write_err c, c)
      else (None, c\<lparr>outgoing := outgoing c @ b\<rparr>))"

definition conn_Close :: "conn \<Rightarrow> conn" where
  "conn_Close c = c\<lparr>closed := True\<rparr>"

definition writable :: "conn \<Rightarrow> bool" where
  "writable c \<longleftrightarrow> \<not> closed c \<and> write_err c = None"

abbreviation wrote :: "conn \<Rightarrow> bytes \<Rightarrow> conn" where
  "wrote c b \<equiv> c\<lparr>outgoing := outgoing c @ b\<rparr>"

lemma conn_Write_ok [simp]: "writable c \<Longrightarrow> conn_Write c b = (None, wrote c b)"
  by (simp add: writable_def conn_Write_def)

lemma writable_wrote [simp]: "writable (wrote c b) = writable c"
  by (simp add: writable_def)

text \<open>A connection of which everything before \<open>rest\<close> was read.\<close>

definition read_upto :: "conn \<Rightarrow> bytes \<Rightarrow> conn \<Rightarrow> bool" where
  "read_upto c rest c' \<longleftrightarrow> (\<exists>ks. c' = c\<lparr>incoming := rest, chunks := ks\<rparr>)"

lemma read_upto_trans: "read_upto c r c' \<Longrightarrow> read_upto c' r' c'' \<Longrightarrow> read_upto c r' c''"
  by (auto simp: read_upto_def)

lemma read_upto_simps [simp]:
  "read_upto (c\<lparr>incoming := x\<rparr>) rest c' = read_upto c rest c'" "incoming c = rest \<Longrightarrow> read_upto c rest c"
  "read_upto (c\<lparr>chunks := ks\<rparr>) rest c' = read_upto c rest c'"
  "read_upto c rest (c\<lparr>incoming := rest, chunks := ks\<rparr>)"
  by (auto simp: read_upto_def intro: exI [of _ "chunks c"])

lemma read_upto_fields:
  "read_upto c rest c' \<Longrightarrow> incoming c' = rest" "read_upto c rest c' \<Longrightarrow> outgoing c' = outgoing c"
  "read_upto c rest c' \<Longrightarrow> closed c' = closed c" "read_upto c rest c' \<Longrightarrow> read_err c' = read_err c"
  "read_upto c rest c' \<Longrightarrow> write_err c' = write_err c"
  by (auto simp: read_upto_def)

abbreviation conn_left :: "conn \<Rightarrow> nat" where
  "conn_left c \<equiv> length (incoming c) + length (chunks c)"

lemma conn_Read_left:
  assumes "conn_Read c sz = (bs, None, c')" and "0 < sz"
  shows "conn_left c' < conn_left c"
  using assms
  by (cases "chunks c"; cases "incoming c") (auto simp: conn_Read_def Let_def split: if_splits)

section \<open>Reading a packet\<close>

text \<open>
  The first loop of \<open>getMessageBuffer\<close> reads the packet type and the remaining length, a byte at a time.
  The length \<open>l\<close> of what was read is checked against 5 before every read.
\<close>

function read_header :: "conn \<Rightarrow> bytes \<Rightarrow> (error + bytes) \<times> conn" where
  "read_header c buf =
     (if 5 < length buf then
        (Inl (Errorf ''connect/getMessage: 4th byte of remaining length has continuation bit set'' []), c)
      else
        (case conn_Read c 1 of
           (b, Some err, c') \<Rightarrow> (Inl err, c')
         | (b, None, c') \<Rightarrow>
             (if b = [] then read_header c' buf
              else
                (let buf' = buf @ b
                 in if 1 < length buf' \<and> hd b < 0x80 then (Inr buf', c') else read_header c' buf'))))"
  by pat_completeness auto
termination
  by (relation "measure (\<lambda>(c, buf). conn_left c)") (auto dest!: conn_Read_left [OF sym])

declare read_header.simps [simp del]

text \<open>The second loop reads \<open>n\<close> more bytes, in whatever portions the network delivers.\<close>

function read_body :: "conn \<Rightarrow> bytes \<Rightarrow> nat \<Rightarrow> (error + bytes) \<times> conn" where
  "read_body c buf n =
     (if n = 0 then (Inr buf, c)
      else
        (case conn_Read c n of
           (b, Some err, c') \<Rightarrow> (Inl err, c')
         | (b, None, c') \<Rightarrow> read_body c' (buf @ b) (n - length b)))"
  by pat_completeness auto
termination
  by (relation "measure (\<lambda>(c, buf, n). conn_left c)") (auto dest!: conn_Read_left [OF sym])

declare read_body.simps [simp del]

text \<open>A connection that is nil or not a \<open>net.Conn\<close> is \<open>None\<close>.\<close>

definition getMessageBuffer :: "conn option \<Rightarrow> (error + bytes) \<times> conn option" where
  "getMessageBuffer c =
     (case c of
        None \<Rightarrow> (Inl ErrInvalidConnectionType, None)
      | Some c \<Rightarrow>
          (case read_header c [] of
             (Inl err, c) \<Rightarrow> (Inl err, Some c)
           | (Inr buf, c) \<Rightarrow>
               (let (rl, _) = Uvarint (slice_of (tl buf)); (r, c) = read_body c buf (unat rl) in (r, Some c))))"

text \<open>\<open>None\<close> inside the result is a panic of \<open>Decode\<close>.\<close>

definition getConnectMessage :: "conn option \<Rightarrow> (error + (ConnectMessage \<times> error option) option) \<times> conn option" where
  "getConnectMessage c =
     (case getMessageBuffer c of
        (Inl err, c) \<Rightarrow> (Inl err, c)
      | (Inr buf, c) \<Rightarrow>
          (Inr (map_option (\<lambda>(msg, _, err). (msg, err)) (connect_Decode NewConnectMessage (slice_of buf))), c))"

definition getConnackMessage :: "conn option \<Rightarrow> (error + (ConnackMessage \<times> error option) option) \<times> conn option" where
  "getConnackMessage c =
     (case getMessageBuffer c of
        (Inl err, c) \<Rightarrow> (Inl err, c)
      | (Inr buf, c) \<Rightarrow>
          (Inr (map_option (\<lambda>(msg, _, err). (msg, err)) (connack_Decode NewConnackMessage (slice_of buf))), c))"

section \<open>Writing a packet\<close>

text \<open>\<open>writeMessage\<close> ignores the number of bytes that \<open>Encode\<close> reports and writes the whole buffer.\<close>

definition writeMessageBuffer :: "conn option \<Rightarrow> bytes \<Rightarrow> error option \<times> conn option" where
  "writeMessageBuffer c b =
     (case c of None \<Rightarrow> (Some ErrInvalidConnectionType, None) | Some c \<Rightarrow> (let (err, c) = conn_Write c b in (err, Some c)))"

definition writeMessage ::
    "conn option \<Rightarrow> message \<Rightarrow> uint64 \<Rightarrow> ((error option \<times> message \<times> conn option) \<times> uint64) option" where
  "writeMessage c msg g =
     do { (n, msg) \<leftarrow> message_Len msg;
          ((msg, buf, _, err), g) \<leftarrow> message_Encode msg (make_bytes n) g;
          if err \<noteq> None then Some ((err, msg, c), g)
          else (let (err, c) = writeMessageBuffer c (slice_bytes buf) in Some ((err, msg, c), g)) }"

section \<open>Framing\<close>

text \<open>The second loop gets exactly the bytes it asks for, however the network cuts them.\<close>

lemma read_body_exact:
  assumes "\<not> closed c" and "incoming c = body @ rest" and "length body = n"
  shows "\<exists>c'. read_body c buf n = (Inr (buf @ body), c') \<and> read_upto c rest c'"
  using assms
proof (induction c buf n arbitrary: body rule: read_body.induct)
  case (1 c buf n)
  show ?case
  proof (cases "n = 0")
    case True
    with "1.prems" show ?thesis by (simp add: read_body.simps)
  next
    case False
    define k where "k = (case chunks c of [] \<Rightarrow> n | k # _ \<Rightarrow> min k n)"
    define c' where "c' = c\<lparr>incoming := drop k (incoming c), chunks := tl (chunks c)\<rparr>"
    have k: "k \<le> n" by (simp add: k_def split: list.split)
    have r: "conn_Read c n = (take k body, None, c')"
      using "1.prems" False k by (auto simp: conn_Read_def Let_def k_def [symmetric] c'_def)
    have "\<exists>c''. read_body c' (buf @ take k body) (n - length (take k body)) = (Inr ((buf @ take k body) @ drop k body), c'')
        \<and> read_upto c' rest c''"
      by (rule "1.IH" [OF False r [symmetric]]) (use "1.prems" k in \<open>auto simp: c'_def\<close>)
    then show ?thesis
      using False r by (subst read_body.simps) (auto simp: c'_def)
  qed
qed

text \<open>The bytes of a varint: a continuation bit on all but the last.\<close>

definition varint_ok :: "bytes \<Rightarrow> bool" where
  "varint_ok vs \<longleftrightarrow> vs \<noteq> [] \<and> (\<forall>x \<in> set (butlast vs). \<not> x < 0x80) \<and> last vs < 0x80"

lemma varint_ok_Cons: "varint_ok (v # vs) \<longleftrightarrow> (if v < 0x80 then vs = [] else varint_ok vs)"
  by (auto simp: varint_ok_def)

lemma read_header_exact:
  assumes "\<not> closed c" and "incoming c = vs @ rest" and "varint_ok vs" and "buf \<noteq> []" and "length buf + length vs \<le> 6"
  shows "\<exists>c'. read_header c buf = (Inr (buf @ vs), c') \<and> read_upto c rest c'"
  using assms
proof (induction c buf arbitrary: vs rule: read_header.induct)
  case (1 c buf)
  obtain v vs' where vs: "vs = v # vs'" using "1.prems" by (cases vs) (auto simp: varint_ok_def)
  then have l: "\<not> 5 < length buf" using "1.prems" by auto
  define k where "k = (case chunks c of [] \<Rightarrow> 1 | k # _ \<Rightarrow> min k (1 :: nat))"
  define c' where "c' = c\<lparr>incoming := drop k (incoming c), chunks := tl (chunks c)\<rparr>"
  have k: "k = 0 \<or> k = 1" by (auto simp: k_def split: list.split)
  have "conn_Read c 1 = (take k (incoming c), None, c')"
    using "1.prems" vs by (simp add: conn_Read_def Let_def k_def c'_def split: list.split)
  then have r: "conn_Read c 1 = (take k [v], None, c')" using "1.prems" k vs by auto
  show ?case
  proof (cases "k = 0")
    case True
    have "\<exists>c''. read_header c' buf = (Inr (buf @ vs), c'') \<and> read_upto c' rest c''"
      by (rule "1.IH"(1) [OF l r [symmetric] refl]) (use "1.prems" True in \<open>auto simp: c'_def\<close>)
    then show ?thesis using r l True by (subst read_header.simps) (auto simp: c'_def)
  next
    case False
    with k have k1: "k = 1" by simp
    show ?thesis
    proof (cases "v < 0x80")
      case True
      with "1.prems" vs have "vs' = []" by (simp add: varint_ok_Cons)
      with True r l k1 "1.prems" vs show ?thesis
        by (subst read_header.simps) (auto simp: c'_def Let_def)
    next
      case False
      have "\<exists>c''. read_header c' (buf @ [v]) = (Inr ((buf @ [v]) @ vs'), c'') \<and> read_upto c' rest c''"
        by (rule "1.IH"(2) [OF l r [symmetric] refl]) (use "1.prems" False k1 vs in \<open>auto simp: c'_def varint_ok_Cons\<close>)
      with False r l k1 vs "1.prems" show ?thesis
        by (subst read_header.simps) (auto simp: c'_def Let_def)
    qed
  qed
qed

lemma uvarint_bytes_ok: "varint_ok (uvarint_bytes v)"
proof (induction v rule: uvarint_bytes.induct)
  case (1 v)
  show ?case
  proof (cases "128 \<le> v")
    case True
    with 1 show ?thesis by (subst uvarint_bytes.simps) (simp add: varint_ok_Cons continuation_byte)
  next
    case False
    then have "unat (ucast v :: byte) < 128" by (simp add: word_le_nat_alt final_byte)
    then have "(ucast v :: byte) < 128" by (simp add: word_less_nat_alt)
    with False show ?thesis by (subst uvarint_bytes.simps) (simp add: varint_ok_def)
  qed
qed

lemma read_header_first:
  assumes "\<not> closed c" and "incoming c = b # vs @ rest" and "varint_ok vs" and "length vs \<le> 5"
  shows "\<exists>c'. read_header c [] = (Inr (b # vs), c') \<and> read_upto c rest c'"
  using assms(1,2)
proof (induction "length (chunks c)" arbitrary: c rule: less_induct)
  case less
  show ?case
  proof (cases "chunks c")
    case Nil
    with less.prems show ?thesis
      using read_header_exact [of "c\<lparr>incoming := vs @ rest, chunks := []\<rparr>" vs rest "[b]"] assms(3,4)
      by (subst read_header.simps) (simp add: conn_Read_def)
  next
    case (Cons k ks)
    show ?thesis
    proof (cases "k = 0")
      case True
      with less.prems Cons less.hyps [of "c\<lparr>incoming := b # vs @ rest, chunks := ks\<rparr>"] show ?thesis
        by (subst read_header.simps) (simp add: conn_Read_def)
    next
      case False
      then have "min k (Suc 0) = 1" by simp
      with less.prems Cons show ?thesis
        using read_header_exact [of "c\<lparr>incoming := vs @ rest, chunks := ks\<rparr>" vs rest "[b]"] assms(3,4)
        by (subst read_header.simps) (simp add: conn_Read_def)
    qed
  qed
qed

text \<open>A framed packet is read whole, and nothing after it is touched, however the network cuts the stream.\<close>

lemma getMessageBuffer_framed:
  assumes "\<not> closed c" and "framed t w" and "incoming c = w @ rest"
  shows "\<exists>c'. getMessageBuffer (Some c) = (Inr w, Some c') \<and> read_upto c rest c'"
proof -
  from assms(2) obtain b body where w: "w = header_bytes b (int (length body)) @ body"
    and len: "int (length body) \<le> maxRemainingLength" by (auto simp: framed_def)
  let ?v = "word_of_int (int (length body)) :: uint64"
  have v: "unat ?v = length body" using len by (subst unat_remlen) auto
  have "length (uvarint_bytes ?v) \<le> 4" using len v by (subst length_uvarint_bytes) auto
  then obtain c' where h: "read_header c [] = (Inr (b # uvarint_bytes ?v), c')"
      "read_upto c (body @ rest) c'"
    using read_header_first [of c b "uvarint_bytes ?v" "body @ rest"] assms(1,3) w uvarint_bytes_ok [of ?v]
    by (auto simp: header_bytes_def)
  obtain c'' where "read_body c' (b # uvarint_bytes ?v) (length body) = (Inr ((b # uvarint_bytes ?v) @ body), c'')"
      "read_upto c' rest c''"
    using read_body_exact [OF _ read_upto_fields(1) [OF h(2)] refl] read_upto_fields(3) [OF h(2)] assms(1) by blast
  moreover have "Uvarint (slice_of (uvarint_bytes ?v)) = (?v, int (length (uvarint_bytes ?v)))"
    by (rule Uvarint_PutUvarint [where rest = "[]"]) simp
  ultimately show ?thesis
    using h v w read_upto_trans by (auto simp: getMessageBuffer_def header_bytes_def)
qed

section \<open>Two ends of a connection\<close>

text \<open>
  The packets that a peer reads from a stream, one \<open>getMessageBuffer\<close> per packet, each decoded into a new
  message of the type its first byte names.  \<open>None\<close> is an error or a panic.
\<close>

fun receive_packets :: "nat \<Rightarrow> conn \<Rightarrow> packet list option" where
  "receive_packets 0 c = Some []"
| "receive_packets (Suc n) c =
     (case getMessageBuffer (Some c) of
        (Inr buf, Some c') \<Rightarrow>
          (case message_New (drop_bit 4 (hd buf)) of
             Inr m0 \<Rightarrow>
               (case message_Decode m0 (slice_of buf) of
                  Some (m, _, None) \<Rightarrow> map_option ((#) (content m)) (receive_packets n c')
                | _ \<Rightarrow> None)
           | Inl _ \<Rightarrow> None)
      | _ \<Rightarrow> None)"

text \<open>A sequence of \<open>writeMessage\<close> on one connection; the messages share the identifier counter.\<close>

fun write_messages :: "message list \<Rightarrow> conn \<Rightarrow> uint64 \<Rightarrow> (conn \<times> uint64) option" where
  "write_messages [] c g = Some (c, g)"
| "write_messages (m # ms) c g =
     (case writeMessage (Some c) m g of
        Some ((None, _, Some c'), g') \<Rightarrow> write_messages ms c' g'
      | _ \<Rightarrow> None)"

text \<open>The contents that the sender's messages stand for.\<close>

fun sent_all :: "message list \<Rightarrow> uint64 \<Rightarrow> packet list" where
  "sent_all [] g = []"
| "sent_all (m # ms) g = fst (sent m g) # sent_all ms (snd (sent m g))"

lemma writeMessage_good:
  assumes "message_good m" and "writable c"
  obtains m2 w m0 m' k b body
  where "writeMessage (Some c) m g = Some ((None, m2, Some (wrote c w)), snd (sent m g))"
    and "framed (drop_bit 4 b) w" and "hd w = b"
    and "message_New (drop_bit 4 b) = Inr m0" and "message_Decode m0 (slice_of w) = Some (m', k, None)"
    and "content m' = fst (sent m g)"
proof (rule mq.transfer [OF assms(1), of g])
  fix n m1 m2 w m0 m' k b body
  assume "message_Len m = Some (n, m1)"
    and "message_Encode m1 (make_bytes n) g = Some ((m2, slice_of w, n, None), snd (sent m g))"
    and w: "w = header_bytes b (int (length body)) @ body" "int (length body) \<le> maxRemainingLength"
    and d: "message_New (drop_bit 4 b) = Inr m0" "message_Decode m0 (slice_of w) = Some (m', k, None)"
      "content m' = fst (sent m g)"
  then have "writeMessage (Some c) m g = Some ((None, m2, Some (wrote c w)), snd (sent m g))"
    using assms(2) by (simp add: writeMessage_def writeMessageBuffer_def)
  moreover have "framed (drop_bit 4 b) w" using w by (auto simp: framed_def)
  moreover have "hd w = b" using w by (simp add: header_bytes_def)
  ultimately show thesis using that d by blast
qed

lemma write_receive:
  assumes "\<forall>m \<in> set ms. message_good m" and "writable c"
  shows "\<exists>ws c' g'. write_messages ms c g = Some (c', g') \<and> outgoing c' = outgoing c @ ws
           \<and> (\<forall>r rest. incoming r = ws @ rest \<and> \<not> closed r \<longrightarrow> receive_packets (length ms) r = Some (sent_all ms g))"
  using assms
proof (induction ms arbitrary: c g)
  case (Cons m ms)
  then have "message_good m" "writable c" by simp_all
  then obtain m2 w m0 m' k b where 1:
      "writeMessage (Some c) m g = Some ((None, m2, Some (wrote c w)), snd (sent m g))"
      "framed (drop_bit 4 b) w" "hd w = b" "message_New (drop_bit 4 b) = Inr m0"
      "message_Decode m0 (slice_of w) = Some (m', k, None)" "content m' = fst (sent m g)"
    by (rule writeMessage_good [where g = g])
  from Cons.IH [of "wrote c w"] Cons.prems obtain ws c' g' where 2: "write_messages ms (wrote c w) (snd (sent m g)) = Some (c', g')"
      "outgoing c' = outgoing (wrote c w) @ ws"
      "\<forall>r rest. incoming r = ws @ rest \<and> \<not> closed r \<longrightarrow> receive_packets (length ms) r = Some (sent_all ms (snd (sent m g)))"
    by fastforce
  have "receive_packets (length (m # ms)) r = Some (sent_all (m # ms) g)" if r: "incoming r = (w @ ws) @ rest \<and> \<not> closed r" for r rest
  proof -
    obtain r' where r': "getMessageBuffer (Some r) = (Inr w, Some r')" "read_upto r (ws @ rest) r'"
      using getMessageBuffer_framed [OF _ 1(2), of r "ws @ rest"] r by auto
    with 1 2(3) r read_upto_fields [OF r'(2)] show ?thesis by simp
  qed
  with 1(1) 2(1,2) show ?case
    by (intro exI [of _ "w @ ws"] exI [of _ c'] exI [of _ g']) simp
qed simp

section \<open>Properties\<close>

text \<open>
  C1: for every sequence of packets a sender may send, of any of the fourteen types, the sequence of
  \<open>writeMessage\<close> calls succeeds; and a peer that receives the bytes written, in whatever portions the
  network delivers them and with whatever follows, reads packet by packet, each decoded by its own type,
  the contents that were sent, in order, new packet identifiers included.
\<close>

theorem packets_arrive:
  assumes "\<forall>m \<in> set ms. message_good m" and "writable c"
  shows "\<exists>ws c' g'. write_messages ms c g = Some (c', g') \<and> outgoing c' = outgoing c @ ws
           \<and> (\<forall>r rest. incoming r = ws @ rest \<and> \<not> closed r \<longrightarrow> receive_packets (length ms) r = Some (sent_all ms g))"
  by (rule write_receive [OF assms])

text \<open>A connection on which nothing was sent yet, a PUBLISH with QoS 1 that has no identifier yet, and a PINGREQ.\<close>

definition fresh_conn :: conn where
  "fresh_conn = \<lparr>incoming = [], outgoing = [], chunks = [], closed = False, read_err = io_EOF, write_err = None\<rparr>"


definition example_publish :: PublishMessage where
  "example_publish =
     \<lparr>remlen = 0, mtypeflags = Own [0x32], packetId = Own [], dbuf = slice_of [], dirty = True,
      topic = [97, 47, 98], payload = [1, 2, 3]\<rparr>"

lemma example_good: "message_good (MPublish example_publish)" "message_good (MPingreq NewPingreqMessage)"
  by (simp_all add: message_good_def example_publish_def MessageType_Valid_iff sendable_def flags_ok_def
      ValidQos_def publish_len_def publish_id_bytes_def ValidTopic_def views_ok_def qos_of_def
      NewPingreqMessage_def SetType_def header0_def write_mtypeflags_def ensure_mtypeflags_def type_byte_def
      DefaultFlags_def)

lemma example_sent:
  "sent_all [MPublish example_publish, MPingreq NewPingreqMessage] 0 =
     [PPublish 0x32 (Some 1) [97, 47, 98] [1, 2, 3], PPlain PINGREQ]"
  by (simp add: sent_def next_packetId_def example_publish_def PacketId_def qos_of_def Let_def)

theorem packets_arrive_witness:
  "\<exists>ws c' g'. write_messages [MPublish example_publish, MPingreq NewPingreqMessage]
        fresh_conn 0 = Some (c', g') \<and> outgoing c' = [] @ ws
      \<and> (\<forall>r rest. incoming r = ws @ rest \<and> \<not> closed r \<longrightarrow>
            receive_packets 2 r = Some [PPublish 0x32 (Some 1) [97, 47, 98] [1, 2, 3], PPlain PINGREQ])"
  using packets_arrive [of "[MPublish example_publish, MPingreq NewPingreqMessage]"
      "fresh_conn" 0] example_good example_sent
  by (simp add: numeral_2_eq_2 fresh_conn_def writable_def del: receive_packets.simps write_messages.simps sent_all.simps)

end
