(* ===== verification/Ring_Buffer.thy ===== *)
theory Ring_Buffer
  imports Go_Effects Go_Bits Conn_Misc
begin

unbundle bit_operations_syntax

text \<open>
  The ring buffer of \<open>src/service/buffer.go\<close>, between one goroutine that produces bytes and one that consumes them.  An
  operation is an action on the buffer.  Where the code waits on a condition variable, the action is \<open>Stuck\<close> in the state in
  which it waits; the loop that it takes up again when it is woken is a definition of its own (\<open>write_wait\<close>, \<open>data_wait\<close>).
\<close>

section \<open>The buffer\<close>

text \<open>Positions are never reduced to the ring; \<open>gate\<close> is the producer's last known position of the consumer.\<close>

record sequence =
  cursor :: int
  gate :: int

text \<open>\<open>pL\<close> and \<open>cL\<close> say whether the mutexes of the two condition variables are held.\<close>

record ringbuf =
  rb_id :: int64
  rb_buf :: bytes
  rb_tmp :: bytes
  rb_size :: int
  rb_mask :: int
  rb_done :: bool
  pseq :: sequence
  cseq :: sequence
  pL :: bool
  cL :: bool
  cwait :: int
  pwait :: int

abbreviation defaultBufferSize :: int where "defaultBufferSize \<equiv> 1024 * 256"
abbreviation defaultReadBlockSize :: int where "defaultReadBlockSize \<equiv> 8192"
abbreviation defaultWriteBlockSize :: int where "defaultWriteBlockSize \<equiv> 8192"

abbreviation bufio_ErrNegativeCount :: error where "bufio_ErrNegativeCount \<equiv> ErrNew ''bufio: negative count''"
abbreviation bufio_ErrBufferFull :: error where "bufio_ErrBufferFull \<equiv> ErrNew ''bufio: buffer full''"

abbreviation ErrBufferInsufficientData :: error where
  "ErrBufferInsufficientData \<equiv> ErrNew ''service: buffer has insufficient data''"

definition newSequence :: sequence where
  "newSequence = \<lparr>cursor = 0, gate = 0\<rparr>"

text \<open>The second result is the counter \<open>bufcnt\<close> of the package.\<close>

definition newBuffer :: "int \<Rightarrow> int64 \<Rightarrow> (error + ringbuf) \<times> int64" where
  "newBuffer sz bufcnt =
     (if sz < 0 then (Inl bufio_ErrNegativeCount, bufcnt)
      else
        (let sz = (if sz = 0 then defaultBufferSize else sz)
         in if \<not> powerOfTwo64 (word_of_int sz) then
              (Inl (Errorf ''Size must be power of two. Try %d.'' [FInt (sint (roundUpPowerOfTwo64 (word_of_int sz)))]), bufcnt)
            else if sz < 2 * defaultReadBlockSize then
              (Inl (Errorf ''Size must at least be %d. Try %d.'' [FInt (2 * defaultReadBlockSize), FInt (2 * defaultReadBlockSize)]), bufcnt)
            else
              (Inr \<lparr>rb_id = bufcnt + 1, rb_buf = replicate (nat sz) 0, rb_tmp = [], rb_size = sz, rb_mask = sz - 1, rb_done = False,
                    pseq = newSequence, cseq = newSequence, pL = False, cL = False, cwait = 0, pwait = 0\<rparr>, bufcnt + 1)))"

definition rb_ID :: "ringbuf \<Rightarrow> int64" where
  "rb_ID this = rb_id this"

text \<open>Positions are read and set through these two.\<close>

definition seq_get :: "sequence \<Rightarrow> int" where
  "seq_get this = cursor this"

definition seq_set :: "sequence \<Rightarrow> int \<Rightarrow> sequence" where
  "seq_set this seq = this\<lparr>cursor := seq\<rparr>"

definition rb_isDone :: "ringbuf \<Rightarrow> bool" where
  "rb_isDone this \<longleftrightarrow> rb_done this"

definition rb_Len :: "ringbuf \<Rightarrow> int" where
  "rb_Len this = seq_get (pseq this) - seq_get (cseq this)"

section \<open>Waiting and waking\<close>

text \<open>Locking a mutex that is held blocks.\<close>

definition lockP :: "(unit, ringbuf) act" where
  "lockP b = (if pL b then (Stuck, b) else (Done (), b\<lparr>pL := True\<rparr>))"

definition lockC :: "(unit, ringbuf) act" where
  "lockC b = (if cL b then (Stuck, b) else (Done (), b\<lparr>cL := True\<rparr>))"

text \<open>\<open>Lock\<close>, \<open>Broadcast\<close>, \<open>Unlock\<close>: whoever waits on the condition variable looks at the buffer again.\<close>

definition wakeP :: "(unit, ringbuf) act" where
  "wakeP = andThen lockP (\<lambda>_. modify (\<lambda>b. b\<lparr>pL := False\<rparr>))"

definition wakeC :: "(unit, ringbuf) act" where
  "wakeC = andThen lockC (\<lambda>_. modify (\<lambda>b. b\<lparr>cL := False\<rparr>))"

text \<open>The second broadcast, on \<open>ccond\<close>, is made under the mutex of \<open>pcond\<close> as well.\<close>

definition rb_Close :: "(error option, ringbuf) act" where
  "rb_Close =
     andThen (modify (\<lambda>b. b\<lparr>rb_done := True\<rparr>)) (\<lambda>_.
     andThen wakeP (\<lambda>_. andThen wakeP (\<lambda>_. yield None)))"

text \<open>
  The loop in \<open>waitForWriteSpace\<close>, entered with the mutex held: waiting gives the mutex back, and the return on a closed
  buffer does not.
\<close>

definition write_wait :: "int \<Rightarrow> int \<Rightarrow> int \<Rightarrow> (int \<times> int \<times> error option, ringbuf) act" where
  "write_wait ppos n wrap =
     andThen (gets (\<lambda>b. seq_get (cseq b))) (\<lambda>cpos.
     if cpos < wrap then
       andThen (gets rb_isDone) (\<lambda>d.
       if d then yield (0, 0, Some io_EOF)
       else andThen (modify (\<lambda>b. b\<lparr>pwait := pwait b + 1, pL := False\<rparr>)) (\<lambda>_. blocked))
     else
       andThen (modify (\<lambda>b. b\<lparr>pseq := (pseq b)\<lparr>gate := cpos\<rparr>, pL := False\<rparr>)) (\<lambda>_. yield (ppos, n, None)))"

definition waitForWriteSpace :: "int \<Rightarrow> (int \<times> int \<times> error option, ringbuf) act" where
  "waitForWriteSpace n =
     andThen (gets rb_isDone) (\<lambda>d.
     if d then yield (0, 0, Some io_EOF)
     else
       andThen (gets (\<lambda>b. (seq_get (pseq b), gate (pseq b), rb_size b))) (\<lambda>(ppos, gt, sz).
       let wrap = ppos + n - sz
       in if gt < wrap \<or> ppos < gt then andThen lockP (\<lambda>_. write_wait ppos n wrap)
          else yield (ppos, n, None)))"

text \<open>
  The loops in which the consumer waits until the producer is at \<open>least\<close> at a position, entered with the mutex held.  The
  result is the position of the producer, or \<open>None\<close> on a closed buffer, with the mutex still held; \<open>counted\<close> says whether the
  loop counts its waits.
\<close>

definition data_wait :: "bool \<Rightarrow> int \<Rightarrow> (int option, ringbuf) act" where
  "data_wait counted least =
     andThen (gets (\<lambda>b. seq_get (pseq b))) (\<lambda>ppos.
     if ppos < least then
       andThen (gets rb_isDone) (\<lambda>d.
       if d then yield None
       else andThen (modify (\<lambda>b. b\<lparr>cwait := (if counted then cwait b + 1 else cwait b), cL := False\<rparr>)) (\<lambda>_. blocked))
     else andThen (modify (\<lambda>b. b\<lparr>cL := False\<rparr>)) (\<lambda>_. yield (Some ppos)))"

section \<open>Reading\<close>

text \<open>\<open>xs[a:b]\<close>\<close>

definition cut :: "int \<Rightarrow> int \<Rightarrow> bytes \<Rightarrow> bytes option" where
  "cut a b xs = (if 0 \<le> a \<and> a \<le> b \<and> b \<le> int (length xs) then Some (take (nat (b - a)) (drop (nat a) xs)) else None)"

abbreviation cut_from :: "int \<Rightarrow> bytes \<Rightarrow> bytes option" where
  "cut_from a xs \<equiv> cut a (int (length xs)) xs"

text \<open>
  One pass of \<open>Read\<close> with data in the buffer: what is copied into a slice of \<open>pl\<close> bytes.
\<close>

definition read_take :: "nat \<Rightarrow> int \<Rightarrow> int \<Rightarrow> (bytes \<times> error option, ringbuf) act" where
  "read_take pl cpos ppos =
     andThen (gets (\<lambda>b. let cindex = cpos AND rb_mask b
                        in if cpos + int pl < ppos then cut_from cindex (rb_buf b)
                           else if cindex + (ppos - cpos) < rb_size b then cut cindex (cindex + (ppos - cpos)) (rb_buf b)
                           else cut_from cindex (rb_buf b))) (\<lambda>src.
     andThen (lift_opt src) (\<lambda>src.
     let p = take pl src
     in andThen (modify (\<lambda>b. b\<lparr>cseq := seq_set (cseq b) (cpos + int (length p))\<rparr>)) (\<lambda>_.
        andThen wakeP (\<lambda>_. yield (p, None)))))"

text \<open>After waiting, the next pass finds data, as the consumer alone moves its position.\<close>

definition rb_Read :: "nat \<Rightarrow> (bytes \<times> error option, ringbuf) act" where
  "rb_Read pl =
     andThen (gets (\<lambda>b. rb_isDone b \<and> rb_Len b = 0)) (\<lambda>e.
     if e then yield ([], Some io_EOF)
     else
       andThen (gets (\<lambda>b. (seq_get (cseq b), seq_get (pseq b)))) (\<lambda>(cpos, ppos).
       if cpos < ppos then read_take pl cpos ppos
       else
         andThen lockC (\<lambda>_.
         andThen (data_wait True (cpos + 1)) (\<lambda>r.
         case r of None \<Rightarrow> yield ([], Some io_EOF) | Some ppos \<Rightarrow> read_take pl cpos ppos))))"

text \<open>
  The bytes from \<open>cpos\<close> on: a part of the ring, or a copy in \<open>tmp\<close> if they wrap around.
\<close>

definition peek_bytes :: "int \<Rightarrow> int \<Rightarrow> (bytes, ringbuf) act" where
  "peek_bytes cpos m =
     andThen (gets (\<lambda>b. (cpos AND rb_mask b, rb_size b, rb_buf b))) (\<lambda>(cindex, sz, buf).
     if sz < cindex + m then
       andThen (lift_opt (cut_from cindex buf)) (\<lambda>x.
       andThen (lift_opt (cut 0 (m - int (length x)) buf)) (\<lambda>y.
       andThen (modify (\<lambda>b. b\<lparr>rb_tmp := x @ y\<rparr>)) (\<lambda>_. yield (x @ y))))
     else lift_opt (cut cindex (cindex + m) buf))"

definition ReadPeek :: "int \<Rightarrow> (bytes \<times> error option, ringbuf) act" where
  "ReadPeek n =
     andThen (gets rb_size) (\<lambda>sz.
     if sz < n then yield ([], Some bufio_ErrBufferFull)
     else if n < 0 then yield ([], Some bufio_ErrNegativeCount)
     else
       andThen (gets (\<lambda>b. seq_get (cseq b))) (\<lambda>cpos.
       andThen lockC (\<lambda>_.
       andThen (data_wait True (cpos + 1)) (\<lambda>r.
       case r of
         None \<Rightarrow> yield ([], Some io_EOF)
       | Some ppos \<Rightarrow>
           (let m = (if n \<le> ppos - cpos then n else ppos - cpos);
                err = (if n \<le> ppos - cpos then None else Some ErrBufferInsufficientData)
            in if cpos + m \<le> ppos then andThen (peek_bytes cpos m) (\<lambda>p. yield (p, err))
               else yield ([], Some ErrBufferInsufficientData))))))"

definition ReadWait :: "int \<Rightarrow> (bytes \<times> error option, ringbuf) act" where
  "ReadWait n =
     andThen (gets rb_size) (\<lambda>sz.
     if sz < n then yield ([], Some bufio_ErrBufferFull)
     else if n < 0 then yield ([], Some bufio_ErrNegativeCount)
     else
       andThen (gets (\<lambda>b. seq_get (cseq b))) (\<lambda>cpos.
       andThen lockC (\<lambda>_.
       andThen (data_wait False (cpos + n)) (\<lambda>r.
       case r of
         None \<Rightarrow> yield ([], Some io_EOF)
       | Some ppos \<Rightarrow> andThen (peek_bytes cpos n) (\<lambda>p. yield (p, None))))))"

definition ReadCommit :: "int \<Rightarrow> (int \<times> error option, ringbuf) act" where
  "ReadCommit n =
     andThen (gets rb_size) (\<lambda>sz.
     if sz < n then yield (0, Some bufio_ErrBufferFull)
     else if n < 0 then yield (0, Some bufio_ErrNegativeCount)
     else
       andThen (gets (\<lambda>b. (seq_get (cseq b), seq_get (pseq b)))) (\<lambda>(cpos, ppos).
       if cpos + n \<le> ppos then
         andThen (modify (\<lambda>b. b\<lparr>cseq := seq_set (cseq b) (cpos + n)\<rparr>)) (\<lambda>_.
         andThen wakeP (\<lambda>_. yield (n, None)))
       else yield (0, Some ErrBufferInsufficientData)))"

section \<open>Writing\<close>

text \<open>
  \<open>ringCopy\<close>: the loop with its variables.  The outer \<open>None\<close> is a loop that does not end, the inner one a slice out of range.
\<close>

partial_function (option) ring_copy_loop :: "bytes \<Rightarrow> bytes \<Rightarrow> int \<Rightarrow> nat \<Rightarrow> nat \<Rightarrow> (bytes \<times> nat) option option" where
  "ring_copy_loop dst src start i n =
     (if 0 < n then
        (if start < 0 \<or> int (length dst) < start \<or> length src < i then Some None
         else
           (let l = min (length dst - nat start) (length src - i);
                dst' = take (nat start) dst @ take l (drop i src) @ drop (nat start + l) dst
            in ring_copy_loop dst' src (if 0 < n - l then 0 else start) (i + l) (n - l)))
      else Some (Some (dst, i)))"

definition ringCopy :: "bytes \<Rightarrow> bytes \<Rightarrow> int \<Rightarrow> (bytes \<times> nat) option option" where
  "ringCopy dst src start = ring_copy_loop dst src start 0 (length src)"

definition rb_Write :: "bytes \<Rightarrow> (int \<times> error option, ringbuf) act" where
  "rb_Write p =
     andThen (gets rb_isDone) (\<lambda>d.
     if d then yield (0, Some io_EOF)
     else
       andThen (waitForWriteSpace (int (length p))) (\<lambda>(start, _, err).
       if err \<noteq> None then yield (0, err)
       else
         andThen (gets (\<lambda>b. ringCopy (rb_buf b) p (start AND rb_mask b))) (\<lambda>r.
         case r of
           None \<Rightarrow> blocked
         | Some r \<Rightarrow>
             andThen (lift_opt r) (\<lambda>(buf, n).
             andThen (modify (\<lambda>b. b\<lparr>rb_buf := buf, pseq := seq_set (pseq b) (start + int (length p))\<rparr>)) (\<lambda>_.
             andThen wakeC (\<lambda>_. yield (int n, None)))))))"

text \<open>The slice that \<open>WriteWait\<close> returns for the caller to fill: its place in the ring, and whether the space wraps around.\<close>

definition WriteWait :: "int \<Rightarrow> ((int \<times> int) option \<times> bool \<times> error option, ringbuf) act" where
  "WriteWait n =
     andThen (waitForWriteSpace n) (\<lambda>(start, c, err).
     if err \<noteq> None then yield (None, False, err)
     else
       andThen (gets (\<lambda>b. (start AND rb_mask b, rb_size b, int (length (rb_buf b))))) (\<lambda>(pstart, sz, len).
       if sz < pstart + c then (if 0 \<le> pstart \<and> pstart \<le> len then yield (Some (pstart, len), True, None) else panicking)
       else if 0 \<le> pstart \<and> pstart \<le> pstart + c \<and> pstart + c \<le> len then yield (Some (pstart, pstart + c), False, None)
       else panicking))"

definition WriteCommit :: "int \<Rightarrow> (int \<times> error option, ringbuf) act" where
  "WriteCommit n =
     andThen (waitForWriteSpace n) (\<lambda>(start, c, err).
     if err \<noteq> None then yield (0, err)
     else
       andThen (modify (\<lambda>b. b\<lparr>pseq := seq_set (pseq b) (start + c)\<rparr>)) (\<lambda>_.
       andThen wakeC (\<lambda>_. yield (c, None))))"

section \<open>From and to the network\<close>

text \<open>
  \<open>ReadFrom\<close> and \<open>WriteTo\<close> run until an error; both close the buffer at the end, unless they are blocked for ever.  The reads
  go through a \<open>timeoutReader\<close>, which adds a deadline.  A pass that changes nothing and goes on is a loop without end.
\<close>

definition deferred_Close :: "'r outcome \<times> conn \<times> ringbuf \<Rightarrow> 'r outcome \<times> conn \<times> ringbuf" where
  "deferred_Close x =
     (case x of (r, c, b) \<Rightarrow>
        if r = Stuck then x else (case rb_Close b of (Stuck, b) \<Rightarrow> (Stuck, c, b) | (_, b) \<Rightarrow> (r, c, b)))"

lemma conn_Read_less: "conn_Read c sz = (bs, None, c') \<Longrightarrow> bs \<noteq> [] \<or> 0 < sz \<Longrightarrow> conn_left c' < conn_left c"
  using conn_Read_left [of c sz bs c'] by (cases "sz = 0") (auto simp: conn_Read_def Let_def split: if_splits list.splits)

function read_from_loop :: "int \<Rightarrow> conn \<Rightarrow> ringbuf \<Rightarrow> (int \<times> error option) outcome \<times> conn \<times> ringbuf" where
  "read_from_loop tot c b =
     (if rb_isDone b then (Done (tot, Some io_EOF), c, b)
      else case waitForWriteSpace defaultReadBlockSize b of
        (Done (start, n, Some err), b) \<Rightarrow> (Done (0, Some err), c, b)
      | (Done (start, n, None), b) \<Rightarrow>
          (let pstart = start AND rb_mask b; pend = min (pstart + n) (rb_size b)
           in if pstart < 0 \<or> pend < pstart \<or> int (length (rb_buf b)) < pend then (Panicked, c, b)
              else case conn_Read c (nat (pend - pstart)) of
                (bs, err, c') \<Rightarrow>
                  (let b = b\<lparr>rb_buf := take (nat pstart) (rb_buf b) @ bs @ drop (nat pstart + length bs) (rb_buf b)\<rparr>
                   in if bs \<noteq> [] then
                        (case WriteCommit (int (length bs)) b of
                           (Done (_, Some e), b) \<Rightarrow> (Done (tot + int (length bs), Some e), c', b)
                         | (Done (_, None), b) \<Rightarrow>
                             (case err of Some e \<Rightarrow> (Done (tot + int (length bs), Some e), c', b)
                              | None \<Rightarrow> read_from_loop (tot + int (length bs)) c' b)
                         | (Panicked, b) \<Rightarrow> (Panicked, c', b)
                         | (Stuck, b) \<Rightarrow> (Stuck, c', b))
                      else
                        (case err of Some e \<Rightarrow> (Done (tot, Some e), c', b)
                         | None \<Rightarrow> (if pstart = pend then (Stuck, c', b) else read_from_loop tot c' b))))
      | (Panicked, b) \<Rightarrow> (Panicked, c, b)
      | (Stuck, b) \<Rightarrow> (Stuck, c, b))"
  by pat_completeness auto
termination
  by (relation "measure (\<lambda>(tot, c, b). conn_left c)") (auto dest!: conn_Read_less [OF sym] simp: Let_def split: if_splits)

declare read_from_loop.simps [simp del]

definition rb_ReadFrom :: "conn \<Rightarrow> ringbuf \<Rightarrow> (int \<times> error option) outcome \<times> conn \<times> ringbuf" where
  "rb_ReadFrom c b = deferred_Close (read_from_loop 0 c b)"

text \<open>\<open>ReadPeek\<close> moves neither position, a successful \<open>ReadCommit\<close> moves the consumer.\<close>

lemma peek_bytes_pos: "peek_bytes cpos m b = (r, b') \<Longrightarrow> cseq b' = cseq b \<and> pseq b' = pseq b"
  by (auto simp: peek_bytes_def andThen_def gets_def lift_opt_def panicking_def yield_def modify_def
      split: if_splits option.splits prod.splits outcome.splits)

lemma data_wait_pos: "data_wait ct l b = (r, b') \<Longrightarrow> cseq b' = cseq b \<and> pseq b' = pseq b"
  by (auto simp: data_wait_def andThen_def gets_def yield_def modify_def blocked_def split: if_splits)

lemma ReadPeek_pos:
  assumes "ReadPeek n b = (Done r, b')"
  shows "cseq b' = cseq b \<and> pseq b' = pseq b"
proof -
  obtain r1 b1 where 1: "data_wait True (seq_get (cseq b) + 1) (b\<lparr>cL := True\<rparr>) = (r1, b1)"
    by (cases "data_wait True (seq_get (cseq b) + 1) (b\<lparr>cL := True\<rparr>)")
  note p1 = data_wait_pos [OF 1]
  show ?thesis using assms 1 p1
    by (auto simp: ReadPeek_def andThen_def gets_def yield_def lockC_def Let_def split: if_splits outcome.splits option.splits prod.splits
        dest!: peek_bytes_pos)
qed

lemma ReadCommit_less:
  assumes "ReadCommit n b = (Done (k, None), b')" and "0 < n"
  shows "nat (rb_Len b') < nat (rb_Len b)"
  using assms by (auto simp: ReadCommit_def andThen_def gets_def yield_def modify_def wakeP_def lockP_def rb_Len_def seq_get_def seq_set_def
      split: if_splits)

function write_to_loop :: "int \<Rightarrow> conn \<Rightarrow> ringbuf \<Rightarrow> (int \<times> error option) outcome \<times> conn \<times> ringbuf" where
  "write_to_loop tot c b =
     (if rb_isDone b then (Done (tot, Some io_EOF), c, b)
      else case ReadPeek defaultWriteBlockSize b of
        (Done (p, err), b) \<Rightarrow>
          (let leave = err \<noteq> None \<and> err \<noteq> Some ErrBufferInsufficientData
           in if p \<noteq> [] then
                (case conn_Write c p of
                   (Some e, c') \<Rightarrow> (Done (tot, Some e), c', b)
                 | (None, c') \<Rightarrow>
                     (case ReadCommit (int (length p)) b of
                        (Done (_, Some e), b) \<Rightarrow> (Done (tot + int (length p), Some e), c', b)
                      | (Done (_, None), b) \<Rightarrow>
                          (if leave then (Done (tot + int (length p), err), c', b) else write_to_loop (tot + int (length p)) c' b)
                      | (Panicked, b) \<Rightarrow> (Panicked, c', b)
                      | (Stuck, b) \<Rightarrow> (Stuck, c', b)))
              else if leave then (Done (tot, err), c, b)
              else (Stuck, c, b))
      | (Panicked, b) \<Rightarrow> (Panicked, c, b)
      | (Stuck, b) \<Rightarrow> (Stuck, c, b))"
  by pat_completeness auto
termination
proof (relation "measure (\<lambda>(tot, c, b). nat (rb_Len b))", simp, goal_cases)
  case (1 tot c b x b1 y p err leave z c' w b2 v k)
  then have r: "ReadPeek defaultWriteBlockSize b = (Done (p, err), b1)" "ReadCommit (int (length p)) b1 = (Done (k, None), b2)" "0 < int (length p)"
    by auto
  have "rb_Len b1 = rb_Len b" using ReadPeek_pos [OF r(1)] by (simp add: rb_Len_def)
  with ReadCommit_less [OF r(2,3)] show ?case by simp
qed

declare write_to_loop.simps [simp del]

definition rb_WriteTo :: "conn \<Rightarrow> ringbuf \<Rightarrow> (int \<times> error option) outcome \<times> conn \<times> ringbuf" where
  "rb_WriteTo c b = deferred_Close (write_to_loop 0 c b)"

end
