(* ===== verification/Ring_Props.thy ===== *)
theory Ring_Props
  imports Ring_Buffer
begin

unbundle bit_operations_syntax

text \<open>
  What the ring buffer promises: \<open>ringCopy\<close> ends and copies, the bytes between the two positions are a queue, and every
  operation keeps the buffer well-formed and acts on that queue.
\<close>

section \<open>Copying into the ring\<close>

lemma ring_copy_step:
  "0 < n \<Longrightarrow> start \<le> length dst \<Longrightarrow> i \<le> length src \<Longrightarrow> l = min (length dst - start) (length src - i) \<Longrightarrow>
   ring_copy_loop dst src (int start) i n =
     ring_copy_loop (take start dst @ take l (drop i src) @ drop (start + l) dst) src (if 0 < n - l then 0 else int start) (i + l) (n - l)"
  by (subst ring_copy_loop.simps) (simp add: Let_def)

lemma ring_copy_end: "ring_copy_loop dst src start i 0 = Some (Some (dst, i))"
  by (subst ring_copy_loop.simps) simp

lemma ring_copy_ends:
  assumes "dst \<noteq> []" and "start < length dst" and "i + n = length src"
  shows "\<exists>d. ring_copy_loop dst src (int start) i n = Some (Some (d, length src)) \<and> length d = length dst"
  using assms
proof (induction n arbitrary: dst start i rule: less_induct)
  case (less n)
  show ?case
  proof (cases n)
    case 0
    with less.prems show ?thesis by (simp add: ring_copy_end)
  next
    case (Suc k)
    define l where "l = min (length dst - start) (length src - i)"
    let ?d = "take start dst @ take l (drop i src) @ drop (start + l) dst"
    have l: "0 < l" "l \<le> n" "l \<le> length src - i" "start + l \<le> length dst" using less.prems Suc by (auto simp: l_def)
    have len: "length ?d = length dst" using l less.prems(2) by simp
    have st: "(if 0 < n - l then 0 else int start) = int (if 0 < n - l then 0 else start)" by simp
    have "\<exists>d. ring_copy_loop ?d src (int (if 0 < n - l then 0 else start)) (i + l) (n - l) = Some (Some (d, length src)) \<and> length d = length ?d"
      using less.IH [of "n - l" ?d "if 0 < n - l then 0 else start" "i + l"] l len less.prems Suc by fastforce
    then show ?thesis unfolding ring_copy_step [OF _ less_imp_le [OF less.prems(2)] _ l_def, of n, unfolded st]
      using ring_copy_step [of n start dst i src l] l_def len less.prems Suc st by auto
  qed
qed

lemma ring_copy_fits:
  assumes "start + length src \<le> length dst"
  shows "ringCopy dst src (int start) = Some (Some (take start dst @ src @ drop (start + length src) dst, length src))"
proof (cases "length src")
  case 0
  then show ?thesis by (simp add: ringCopy_def ring_copy_end)
next
  case (Suc k)
  have "min (length dst - start) (length src - 0) = length src" using assms by simp
  with ring_copy_step [of "length src" start dst 0 src "length src"] assms Suc show ?thesis
    by (simp add: ringCopy_def ring_copy_end)
qed

lemma ring_copy_wraps:
  assumes "start < length dst" and "length dst < start + length src" and "length src \<le> length dst"
  defines "l \<equiv> length dst - start"
  shows "ringCopy dst src (int start) = Some (Some (drop l src @ drop (length src - l) (take start dst @ take l src), length src))"
proof -
  let ?d = "take start dst @ take l src"
  have l: "l < length src" "0 < l" "src \<noteq> []" using assms by auto
  have "ringCopy dst src (int start) = ring_copy_loop ?d src (int 0) l (length src - l)"
    unfolding ringCopy_def using ring_copy_step [of "length src" start dst 0 src l] l assms by simp
  also have "\<dots> = ring_copy_loop (drop l src @ drop (length src - l) ?d) src (int 0) (length src) 0"
    using ring_copy_step [of "length src - l" 0 ?d l src "length src - l"] l assms by simp
  finally show ?thesis by (simp add: ring_copy_end)
qed

text \<open>The byte of the ring at a position.\<close>

definition slot :: "bytes \<Rightarrow> int \<Rightarrow> byte" where
  "slot buf x = buf ! nat (x mod int (length buf))"

lemma mod_ahead:
  assumes "0 < (n :: int)" and "0 \<le> j" and "j \<le> n"
  shows "(x + j) mod n = (if x mod n + j < n then x mod n + j else x mod n + j - n)"
proof -
  have x: "0 \<le> x mod n" "x mod n < n" using assms(1) by simp_all
  have "(x + j) mod n = (x mod n + j) mod n" by (simp add: mod_add_left_eq)
  also have "\<dots> = (if x mod n + j < n then x mod n + j else x mod n + j - n)"
  proof (cases "x mod n + j < n")
    case False
    then have "(x mod n + j - n) mod n = x mod n + j - n" using x assms by (intro mod_pos_pos_trivial) linarith+
    with False show ?thesis by simp
  qed (use x assms in \<open>simp add: mod_pos_pos_trivial\<close>)
  finally show ?thesis .
qed

lemma mod_behind:
  assumes "0 < (n :: int)" and "0 < e" and "e \<le> n"
  shows "(x - e) mod n = (if e \<le> x mod n then x mod n - e else x mod n - e + n)"
proof -
  have "x mod n < n" using assms(1) by simp
  moreover have "(x - e) mod n = (x + (n - e)) mod n" by (metis add_diff_eq diff_add_eq mod_add_self2)
  ultimately show ?thesis using mod_ahead [of n "n - e" x] assms by auto
qed

lemma slot_fits:
  assumes "s + length src \<le> length dst" and "start mod int (length dst) = int s" and "s < length dst"
  defines "d \<equiv> take s dst @ src @ drop (s + length src) dst"
  shows "j < length src \<Longrightarrow> slot d (start + int j) = src ! j"
    and "start + int (length src) - int (length dst) \<le> x \<Longrightarrow> x < start \<Longrightarrow> slot d x = slot dst x"
proof -
  have d: "length d = length dst" using assms(1) by (simp add: d_def)
  have n: "0 < int (length dst)" using assms(3) by linarith
  show "slot d (start + int j) = src ! j" if "j < length src"
    using mod_ahead [OF n, of "int j" start] that assms d
    by (simp add: slot_def nth_append d_def nat_add_distrib)
  show "slot d x = slot dst x" if x: "start + int (length src) - int (length dst) \<le> x" "x < start"
  proof -
    let ?i = "nat (x mod int (length dst))"
    have "x = start - (start - x)" by simp
    then have m: "x mod int (length dst) = (if start - x \<le> int s then int s - (start - x) else int s - (start - x) + int (length dst))"
      using mod_behind [OF n, of "start - x" start] x assms(2) by simp
    then have "?i < s \<or> s + length src \<le> ?i" "?i < length dst" using x assms(3) n by auto
    then show ?thesis using assms(1,3) by (auto simp: slot_def d nth_append d_def)
  qed
qed

lemma slot_wraps:
  assumes "s < length dst" and "length dst < s + length src" and "length src \<le> length dst" and "start mod int (length dst) = int s"
  defines "l \<equiv> length dst - s"
  defines "d \<equiv> drop l src @ drop (length src - l) (take s dst @ take l src)"
  shows "j < length src \<Longrightarrow> slot d (start + int j) = src ! j"
    and "start + int (length src) - int (length dst) \<le> x \<Longrightarrow> x < start \<Longrightarrow> slot d x = slot dst x"
    and "length d = length dst"
proof -
  have l: "l < length src" "0 < l" "l \<le> length dst" using assms by auto
  show len: "length d = length dst" using assms l by (simp add: d_def l_def)
  have nth: "d ! i = (if i < length src - l then src ! (l + i) else if i < s then dst ! i else src ! (i - s))" if "i < length dst" for i
  proof (cases "i < length src - l")
    case False
    then have "d ! i = drop (length src - l) (take s dst @ take l src) ! (i - (length src - l))"
      using l by (simp only: d_def nth_append length_drop if_False)
    also have "\<dots> = (take s dst @ take l src) ! i"
      using False that assms by (subst nth_drop) (simp_all add: l_def)
    finally have "d ! i = (take s dst @ take l src) ! i" .
    with False that assms(1) show ?thesis by (auto simp: nth_append l_def)
  qed (use l in \<open>simp add: d_def nth_append add.commute\<close>)
  have n: "0 < int (length dst)" using assms(1) by auto
  show "slot d (start + int j) = src ! j" if j: "j < length src"
  proof -
    let ?i = "nat ((start + int j) mod int (length dst))"
    have m: "(start + int j) mod int (length dst) = (if s + j < length dst then int (s + j) else int (s + j) - int (length dst))"
      using mod_ahead [OF n, of "int j" start] j assms by auto
    show ?thesis
    proof (cases "s + j < length dst")
      case True
      then have "?i = s + j" using m by simp
      moreover have "\<not> s + j < length src - l" using assms by (auto simp: l_def)
      ultimately show ?thesis using True nth [of "s + j"] by (simp add: slot_def len)
    next
      case False
      then have i: "?i = j - l" "j - l < length src - l" "l + (j - l) = j" using m j l by (auto simp: l_def)
      moreover have "j - l < length dst" using j assms by auto
      ultimately show ?thesis using nth [of "j - l"] by (simp add: slot_def len)
    qed
  qed
  show "slot d x = slot dst x" if x: "start + int (length src) - int (length dst) \<le> x" "x < start"
  proof -
    let ?i = "nat (x mod int (length dst))"
    have "x = start - (start - x)" by simp
    then have m: "x mod int (length dst) = (if start - x \<le> int s then int s - (start - x) else int s - (start - x) + int (length dst))"
      using mod_behind [OF n, of "start - x" start] x assms by simp
    then have "\<not> ?i < length src - l" "?i < s" "?i < length dst" using x assms n by (auto simp: l_def)
    then show ?thesis using nth [of ?i] by (simp add: slot_def len)
  qed
qed

lemma ringCopy_slots:
  assumes "0 < length dst" and "length src \<le> length dst"
  shows "\<exists>d. ringCopy dst src (start mod int (length dst)) = Some (Some (d, length src)) \<and> length d = length dst
     \<and> (\<forall>j < length src. slot d (start + int j) = src ! j)
     \<and> (\<forall>x. start + int (length src) - int (length dst) \<le> x \<and> x < start \<longrightarrow> slot d x = slot dst x)"
proof -
  have n: "0 < int (length dst)" using assms(1) by simp
  define s where "s = nat (start mod int (length dst))"
  have s: "start mod int (length dst) = int s" "s < length dst" using n by (auto simp: s_def nat_less_iff)
  show ?thesis
  proof (cases "s + length src \<le> length dst")
    case True
    with ring_copy_fits [OF this] slot_fits [OF True s] s show ?thesis by (intro exI conjI) (assumption | simp | blast)+
  next
    case False
    then have f: "length dst < s + length src" by simp
    with ring_copy_wraps [OF s(2) f assms(2)] slot_wraps [OF s(2) f assms(2) s(1)] s show ?thesis by metis
  qed
qed

section \<open>The queue in the ring\<close>

definition rb_ok :: "ringbuf \<Rightarrow> bool" where
  "rb_ok b \<longleftrightarrow>
     (\<exists>k. rb_size b = 2 ^ k) \<and> rb_mask b = rb_size b - 1 \<and> int (length (rb_buf b)) = rb_size b
     \<and> 0 \<le> cursor (cseq b) \<and> cursor (cseq b) \<le> cursor (pseq b) \<and> cursor (pseq b) \<le> cursor (cseq b) + rb_size b
     \<and> gate (pseq b) \<le> cursor (cseq b)"

abbreviation unlocked :: "ringbuf \<Rightarrow> bool" where
  "unlocked b \<equiv> \<not> pL b \<and> \<not> cL b"

definition unread :: "ringbuf \<Rightarrow> bytes" where
  "unread b = map (\<lambda>k. slot (rb_buf b) (cursor (cseq b) + int k)) [0..<nat (rb_Len b)]"

lemma rb_ok_facts:
  assumes "rb_ok b"
  shows "x AND rb_mask b = x mod rb_size b" and "rb_size b = int (length (rb_buf b))" and "0 < rb_size b" and "0 \<le> rb_Len b"
    and "rb_Len b \<le> rb_size b"
proof -
  obtain k where "rb_size b = 2 ^ k" using assms by (auto simp: rb_ok_def)
  then show "x AND rb_mask b = x mod rb_size b" "0 < rb_size b" using assms and_mask_int [of x k] by (auto simp: rb_ok_def)
qed (use assms in \<open>auto simp: rb_ok_def rb_Len_def seq_get_def\<close>)

lemma length_unread [simp]: "length (unread b) = nat (rb_Len b)"
  by (simp add: unread_def)

lemma newBuffer_ok:
  assumes "newBuffer sz cnt = (Inr b, cnt')" and "sz < 2 ^ 63"
  shows "rb_ok b" and "unlocked b" and "unread b = []" and "\<not> rb_done b" and "rb_size b = (if sz = 0 then defaultBufferSize else sz)"
    and "2 * defaultReadBlockSize \<le> rb_size b"
proof -
  let ?n = "if sz = 0 then defaultBufferSize else sz"
  have b: "b = \<lparr>rb_id = cnt + 1, rb_buf = replicate (nat ?n) 0, rb_tmp = [], rb_size = ?n, rb_mask = ?n - 1, rb_done = False,
      pseq = newSequence, cseq = newSequence, pL = False, cL = False, cwait = 0, pwait = 0\<rparr>"
    and p: "powerOfTwo64 (word_of_int ?n)" "2 * defaultReadBlockSize \<le> ?n"
    using assms(1) by (auto simp: newBuffer_def Let_def split: if_splits)
  have "unat (word_of_int ?n :: int64) = nat ?n" using assms(2) p(2)
    by (simp add: unat_eq_nat_uint unsigned_of_int take_bit_int_eq_self nat_less_iff)
  then obtain k where "nat ?n = 2 ^ k" using p(1) powerOfTwo64_iff by metis
  then have "int (nat ?n) = 2 ^ k" by simp
  then have "?n = 2 ^ k" using p(2) by simp
  with p(2) show "rb_ok b" by (auto simp: rb_ok_def b newSequence_def)
  show "unlocked b" "unread b = []" "\<not> rb_done b" "rb_size b = ?n" "2 * defaultReadBlockSize \<le> rb_size b"
    using p(2) by (simp_all add: b unread_def rb_Len_def seq_get_def newSequence_def)
qed

text \<open>A stretch of the ring is a part of the array, or two parts if it wraps around.\<close>

lemma stretch:
  fixes x :: int
  assumes "0 < length buf" and "m \<le> length buf"
  defines "i \<equiv> nat (x mod int (length buf))"
  shows "i + m \<le> length buf \<Longrightarrow> take m (drop i buf) = map (\<lambda>k. slot buf (x + int k)) [0..<m]"
    and "length buf < i + m \<Longrightarrow> drop i buf @ take (m - (length buf - i)) buf = map (\<lambda>k. slot buf (x + int k)) [0..<m]"
proof -
  have n: "0 < int (length buf)" using assms(1) by simp
  have i: "i < length buf" "x mod int (length buf) = int i" using n by (auto simp: i_def nat_less_iff)
  have nth: "slot buf (x + int k) = buf ! (if i + k < length buf then i + k else i + k - length buf)" if "k < m" for k
  proof -
    have "(x + int k) mod int (length buf) = int (if i + k < length buf then i + k else i + k - length buf)"
      using mod_ahead [OF n, of "int k" x] i that assms(2) by auto
    then show ?thesis by (simp add: slot_def)
  qed
  show "take m (drop i buf) = map (\<lambda>k. slot buf (x + int k)) [0..<m]" if "i + m \<le> length buf"
    using that nth by (intro nth_equalityI) auto
  show "drop i buf @ take (m - (length buf - i)) buf = map (\<lambda>k. slot buf (x + int k)) [0..<m]" if "length buf < i + m"
    using that nth i assms(2) by (intro nth_equalityI) (auto simp: nth_append add.commute)
qed

lemma take_unread: "n \<le> nat (rb_Len b) \<Longrightarrow> take n (unread b) = map (\<lambda>k. slot (rb_buf b) (cursor (cseq b) + int k)) [0..<n]"
  by (simp add: unread_def take_map)

lemma drop_unread:
  assumes "n \<le> nat (rb_Len b)"
  shows "unread (b\<lparr>cseq := seq_set (cseq b) (cursor (cseq b) + int n)\<rparr>) = drop n (unread b)"
  using assms by (intro nth_equalityI) (auto simp: unread_def rb_Len_def seq_get_def seq_set_def nth_append algebra_simps nat_diff_distrib)

section \<open>The operations on the queue\<close>

text \<open>Space for the producer: granted, waited for, or refused.\<close>

lemma waitForWriteSpace_ok:
  assumes "rb_ok b" and "unlocked b" and "\<not> rb_done b" and "rb_Len b + n \<le> rb_size b"
  shows "\<exists>gt. waitForWriteSpace n b = (Done (cursor (pseq b), n, None), b\<lparr>pseq := (pseq b)\<lparr>gate := gt\<rparr>\<rparr>) \<and> gt \<le> cursor (cseq b)"
proof (cases "gate (pseq b) < cursor (pseq b) + n - rb_size b \<or> cursor (pseq b) < gate (pseq b)")
  case True
  then have "waitForWriteSpace n b = (Done (cursor (pseq b), n, None), b\<lparr>pseq := (pseq b)\<lparr>gate := cursor (cseq b)\<rparr>\<rparr>)"
    using True assms by (simp add: waitForWriteSpace_def act_simps rb_isDone_def seq_get_def lockP_def write_wait_def rb_Len_def)
  then show ?thesis by blast
next
  case False
  then show ?thesis using assms by (intro exI [of _ "gate (pseq b)"])
      (simp add: waitForWriteSpace_def act_simps rb_isDone_def seq_get_def rb_ok_def)
qed

lemma waitForWriteSpace_full:
  assumes "rb_ok b" and "unlocked b" and "\<not> rb_done b" and "rb_size b < rb_Len b + n"
  shows "waitForWriteSpace n b = (Stuck, b\<lparr>pwait := pwait b + 1\<rparr>)"
proof -
  have "gate (pseq b) < cursor (pseq b) + n - rb_size b" "cursor (cseq b) < cursor (pseq b) + n - rb_size b"
    using assms(1,4) by (auto simp: rb_ok_def rb_Len_def seq_get_def)
  then show ?thesis using assms
    by (simp add: waitForWriteSpace_def act_simps andThen_Stuck rb_isDone_def seq_get_def lockP_def write_wait_def)
qed

lemma waitForWriteSpace_closed: "rb_done b \<Longrightarrow> waitForWriteSpace n b = (Done (0, 0, Some io_EOF), b)"
  by (simp add: waitForWriteSpace_def act_simps rb_isDone_def)

lemma wake_ok: "\<not> pL b \<Longrightarrow> wakeP b = (Done (), b)" "\<not> cL b \<Longrightarrow> wakeC b = (Done (), b)"
  by (cases b, simp add: wakeP_def wakeC_def lockP_def lockC_def act_simps)+

text \<open>Bytes that were put behind the producer's position join the queue when the position is moved over them.\<close>

lemma publish_slots:
  assumes "rb_ok b" and "rb_Len b + int (length p) \<le> rb_size b" and "gt \<le> cursor (cseq b)" and "length d = length (rb_buf b)"
    and "\<forall>j < length p. slot d (cursor (pseq b) + int j) = p ! j"
    and "\<forall>x. cursor (pseq b) + int (length p) - rb_size b \<le> x \<and> x < cursor (pseq b) \<longrightarrow> slot d x = slot (rb_buf b) x"
  defines "b' \<equiv> b\<lparr>rb_buf := d, pseq := \<lparr>cursor = cursor (pseq b) + int (length p), gate = gt\<rparr>\<rparr>"
  shows "rb_ok b'" and "unread b' = unread b @ p"
proof -
  note f = rb_ok_facts [OF assms(1)]
  show "rb_ok b'" using assms(1-4) by (auto simp: b'_def rb_ok_def rb_Len_def seq_get_def)
  show "unread b' = unread b @ p"
  proof (rule nth_equalityI)
    show "length (unread b') = length (unread b @ p)" using f(4) by (simp add: b'_def rb_Len_def seq_get_def)
    fix k assume a: "k < length (unread b')"
    then have k: "int k < rb_Len b + int (length p)" by (simp add: b'_def rb_Len_def seq_get_def)
    from a have u: "unread b' ! k = slot d (cursor (cseq b) + int k)" by (simp add: unread_def b'_def)
    show "unread b' ! k = (unread b @ p) ! k"
    proof (cases "k < nat (rb_Len b)")
      case True
      then have "slot d (cursor (cseq b) + int k) = slot (rb_buf b) (cursor (cseq b) + int k)"
        using assms(2) by (intro assms(6) [rule_format]) (auto simp: rb_Len_def seq_get_def)
      with True u show ?thesis by (simp add: nth_append unread_def)
    next
      case False
      then have "cursor (cseq b) + int k = cursor (pseq b) + int (k - nat (rb_Len b))" "k - nat (rb_Len b) < length p"
        using k f(4) by (auto simp: rb_Len_def seq_get_def)
      then have "slot d (cursor (cseq b) + int k) = p ! (k - nat (rb_Len b))" using assms(5) by metis
      with False u show ?thesis by (simp add: nth_append)
    qed
  qed
qed

lemma rb_Write_ok:
  assumes "rb_ok b" and "unlocked b" and "\<not> rb_done b" and "rb_Len b + int (length p) \<le> rb_size b"
  shows "\<exists>b'. rb_Write p b = (Done (int (length p), None), b') \<and> rb_ok b' \<and> unlocked b' \<and> \<not> rb_done b' \<and> rb_size b' = rb_size b
           \<and> unread b' = unread b @ p \<and> cseq b' = cseq b"
proof -
  note f = rb_ok_facts [OF assms(1)]
  obtain gt where gt: "waitForWriteSpace (int (length p)) b = (Done (cursor (pseq b), int (length p), None), b\<lparr>pseq := (pseq b)\<lparr>gate := gt\<rparr>\<rparr>)"
      "gt \<le> cursor (cseq b)" using waitForWriteSpace_ok [OF assms] by blast
  have len: "0 < length (rb_buf b)" "length p \<le> length (rb_buf b)" using f(2-4) assms(4) by linarith+
  obtain d where d: "ringCopy (rb_buf b) p (cursor (pseq b) mod rb_size b) = Some (Some (d, length p))" "length d = length (rb_buf b)"
      "\<forall>j < length p. slot d (cursor (pseq b) + int j) = p ! j"
      "\<forall>x. cursor (pseq b) + int (length p) - rb_size b \<le> x \<and> x < cursor (pseq b) \<longrightarrow> slot d x = slot (rb_buf b) x"
    using ringCopy_slots [OF len, of "cursor (pseq b)"] f(2) by auto
  let ?b = "b\<lparr>rb_buf := d, pseq := \<lparr>cursor = cursor (pseq b) + int (length p), gate = gt\<rparr>\<rparr>"
  have "rb_Write p b = (Done (int (length p), None), ?b)"
    unfolding rb_Write_def using gt(1) d(1) assms(2,3)
    by (simp add: act_simps rb_isDone_def f(1) wake_ok seq_set_def)
  then show ?thesis using publish_slots [OF assms(1,4) gt(2) d(2-4)] assms(2,3) by (intro exI [of _ ?b]) simp
qed

text \<open>\<open>WriteCommit\<close> after the space was filled in place, in one piece.\<close>

lemma WriteCommit_ok:
  assumes "rb_ok b" and "unlocked b" and "\<not> rb_done b" and "rb_Len b + int (length p) \<le> rb_size b"
    and "i = nat (cursor (pseq b) mod rb_size b)" and "i + length p \<le> length (rb_buf b)"
  shows "\<exists>b'. WriteCommit (int (length p)) (b\<lparr>rb_buf := take i (rb_buf b) @ p @ drop (i + length p) (rb_buf b)\<rparr>) = (Done (int (length p), None), b')
           \<and> rb_ok b' \<and> unlocked b' \<and> \<not> rb_done b' \<and> rb_size b' = rb_size b \<and> unread b' = unread b @ p \<and> cseq b' = cseq b"
proof -
  note f = rb_ok_facts [OF assms(1)]
  let ?d = "take i (rb_buf b) @ p @ drop (i + length p) (rb_buf b)"
  have d: "length ?d = length (rb_buf b)" using assms(6) by simp
  have i: "cursor (pseq b) mod int (length (rb_buf b)) = int i" "i < length (rb_buf b)" using f(2,3) assms(5) by (auto simp: nat_less_iff)
  let ?b = "b\<lparr>rb_buf := ?d\<rparr>"
  have "rb_ok ?b" "unlocked ?b" "\<not> rb_done ?b" "rb_Len ?b + int (length p) \<le> rb_size ?b"
    using assms(1-4) d by (auto simp: rb_ok_def rb_Len_def)
  then obtain gt where gt: "waitForWriteSpace (int (length p)) ?b = (Done (cursor (pseq ?b), int (length p), None), ?b\<lparr>pseq := (pseq ?b)\<lparr>gate := gt\<rparr>\<rparr>)"
      "gt \<le> cursor (cseq ?b)" using waitForWriteSpace_ok by blast
  let ?b' = "b\<lparr>rb_buf := ?d, pseq := \<lparr>cursor = cursor (pseq b) + int (length p), gate = gt\<rparr>\<rparr>"
  have "WriteCommit (int (length p)) ?b = (Done (int (length p), None), ?b')"
    unfolding WriteCommit_def using gt(1) assms(2) by (simp add: act_simps wake_ok seq_set_def)
  moreover have "\<forall>j < length p. slot ?d (cursor (pseq b) + int j) = p ! j"
      "\<forall>x. cursor (pseq b) + int (length p) - rb_size b \<le> x \<and> x < cursor (pseq b) \<longrightarrow> slot ?d x = slot (rb_buf b) x"
    using slot_fits [OF assms(6) i] f(2) by auto
  ultimately show ?thesis using publish_slots [OF assms(1,4) _ d, of gt] gt(2) assms(2,3) by (intro exI [of _ ?b']) simp
qed

lemma rb_Write_full:
  assumes "rb_ok b" and "unlocked b" and "\<not> rb_done b" and "rb_size b < rb_Len b + int (length p)"
  shows "rb_Write p b = (Stuck, b\<lparr>pwait := pwait b + 1\<rparr>)"
  using waitForWriteSpace_full [OF assms] assms(3) by (simp add: rb_Write_def act_simps andThen_Stuck rb_isDone_def)

text \<open>The consumer waits for data; with enough of it, the loop is left at once.\<close>

lemma data_wait_ok:
  assumes "least \<le> cursor (pseq b)"
  shows "data_wait ct least b = (Done (Some (cursor (pseq b))), b\<lparr>cL := False\<rparr>)"
  using assms by (simp add: data_wait_def act_simps seq_get_def)

lemma data_wait_none:
  assumes "cursor (pseq b) < least"
  shows "rb_done b \<Longrightarrow> data_wait ct least b = (Done None, b)"
    and "\<not> rb_done b \<Longrightarrow> data_wait ct least b = (Stuck, b\<lparr>cwait := (if ct then cwait b + 1 else cwait b), cL := False\<rparr>)"
  using assms by (simp_all add: data_wait_def act_simps seq_get_def rb_isDone_def)

lemma commit_ok:
  assumes "rb_ok b" and "n \<le> nat (rb_Len b)"
  defines "b' \<equiv> b\<lparr>cseq := seq_set (cseq b) (cursor (cseq b) + int n)\<rparr>"
  shows "rb_ok b'" and "unread b = take n (unread b) @ unread b'"
proof -
  show "rb_ok b'" using assms(1,2) rb_ok_facts(4) [OF assms(1)] by (auto simp: rb_ok_def b'_def seq_set_def rb_Len_def seq_get_def)
  show "unread b = take n (unread b) @ unread b'" unfolding b'_def drop_unread [OF assms(2)] by simp
qed

lemma peek_bytes_ok:
  assumes "rb_ok b" and "0 \<le> m" and "m \<le> rb_Len b"
  shows "\<exists>t. peek_bytes (cursor (cseq b)) m b = (Done (take (nat m) (unread b)), b\<lparr>rb_tmp := t\<rparr>)"
proof -
  note f = rb_ok_facts [OF assms(1)]
  let ?n = "length (rb_buf b)"
  define i where "i = nat (cursor (cseq b) mod int ?n)"
  have n: "0 < ?n" "nat m \<le> ?n" using f(2,3,5) assms(3) by linarith+
  have i: "i < ?n" "cursor (cseq b) mod rb_size b = int i" using n f(2) by (auto simp: i_def nat_less_iff)
  note st = stretch [OF n, of "cursor (cseq b)", folded i_def]
  have u: "take (nat m) (unread b) = map (\<lambda>k. slot (rb_buf b) (cursor (cseq b) + int k)) [0..<nat m]"
    using assms(3) by (intro take_unread) simp
  show ?thesis
  proof (cases "rb_size b < int i + m")
    case False
    then have le: "i + nat m \<le> ?n" using f(2) assms(2) by linarith
    have "cut (int i) (int i + m) (rb_buf b) = Some (take (nat m) (drop i (rb_buf b)))"
      using le assms(2) by (simp add: cut_def)
    with False i(2) st(1) [OF le] u show ?thesis
      by (intro exI [of _ "rb_tmp b"]) (simp add: peek_bytes_def act_simps f(1))
  next
    case True
    then have lt: "?n < i + nat m" using f(2) assms(2) by linarith
    let ?x = "drop i (rb_buf b)" and ?y = "take (nat m - (?n - i)) (rb_buf b)"
    have "cut_from (int i) (rb_buf b) = Some ?x" using i(1) by (simp add: cut_def nat_diff_distrib)
    moreover have "cut 0 (m - int (length ?x)) (rb_buf b) = Some ?y"
      using lt i(1) n(2) assms(2) by (auto simp: cut_def nat_diff_distrib of_nat_diff)
    ultimately show ?thesis using True i(2) st(2) [OF lt] u
      by (intro exI [of _ "?x @ ?y"]) (simp add: peek_bytes_def act_simps f(1))
  qed
qed

text \<open>\<open>Read\<close> returns a non-empty beginning of the queue and removes it.\<close>

lemma rb_Read_ok:
  assumes "rb_ok b" and "unlocked b" and "unread b \<noteq> []"
  shows "\<exists>bs b'. rb_Read pl b = (Done (bs, None), b') \<and> unread b = bs @ unread b' \<and> length bs \<le> pl \<and> (0 < pl \<longrightarrow> bs \<noteq> [])
           \<and> b' = b\<lparr>cseq := seq_set (cseq b) (cursor (cseq b) + int (length bs))\<rparr> \<and> rb_ok b'"
proof -
  note f = rb_ok_facts [OF assms(1)]
  let ?n = "length (rb_buf b)" and ?c = "cursor (cseq b)" and ?p = "cursor (pseq b)"
  define i where "i = nat (?c mod int ?n)"
  have lt: "0 < rb_Len b" "?c < ?p" using assms(3) f(4) by (auto simp: unread_def rb_Len_def seq_get_def)
  have n: "0 < ?n" using f(2,3) by simp
  have i: "i < ?n" "?c mod rb_size b = int i" using n f(2) by (auto simp: i_def nat_less_iff)
  define src where "src = (if ?c + int pl < ?p then cut_from (int i) (rb_buf b)
      else if int i + rb_Len b < rb_size b then cut (int i) (int i + rb_Len b) (rb_buf b) else cut_from (int i) (rb_buf b))"
  define m where "m = min pl (min (nat (rb_Len b)) (?n - i))"
  have src: "\<exists>x. src = Some x \<and> take pl x = take m (drop i (rb_buf b))"
    using i(1) f(2) lt(1) by (auto simp: src_def cut_def m_def rb_Len_def seq_get_def nat_diff_distrib min_def)
  then obtain x where x: "src = Some x" "take pl x = take m (drop i (rb_buf b))" by blast
  have m: "i + m \<le> ?n" "m \<le> ?n" "m \<le> nat (rb_Len b)" "m \<le> pl" "0 < pl \<longrightarrow> 0 < m" using i(1) lt(1) by (auto simp: m_def)
  have bs: "take pl x = take m (unread b)"
    unfolding x(2) take_unread [OF m(3)] using stretch(1) [OF n m(2), of ?c, folded i_def] m(1) by simp
  have lbs: "length (take pl x) = m" unfolding bs using m(3) by simp
  let ?b = "b\<lparr>cseq := seq_set (cseq b) (?c + int m)\<rparr>"
  have "rb_Read pl b = read_take pl ?c ?p b"
    using lt by (simp add: rb_Read_def andThen_def gets_def seq_get_def)
  also have "\<dots> = (Done (take pl x, None), ?b)"
  proof -
    have "(let cindex = ?c AND rb_mask b
        in if ?c + int pl < ?p then cut_from cindex (rb_buf b)
           else if cindex + (?p - ?c) < rb_size b then cut cindex (cindex + (?p - ?c)) (rb_buf b) else cut_from cindex (rb_buf b)) = Some x"
      using x(1) [unfolded src_def rb_Len_def seq_get_def] unfolding f(1) i(2) Let_def .
    then show ?thesis unfolding read_take_def using assms(2) lbs by (simp add: andThen_def gets_def act_simps Let_def wake_ok)
  qed
  finally show ?thesis using commit_ok [OF assms(1) m(3)] m(4,5) lbs bs assms(3)
    by (intro exI [of _ "take pl x"] exI [of _ ?b]) auto
qed

text \<open>\<open>ReadPeek\<close> and \<open>ReadWait\<close> leave the queue as it is.\<close>

lemma Len_unread: "rb_ok b \<Longrightarrow> int (length (unread b)) = rb_Len b"
  using rb_ok_facts(4) by simp

lemma unread_cong [simp]: "unread (b\<lparr>rb_tmp := t\<rparr>) = unread b" "rb_ok (b\<lparr>rb_tmp := t\<rparr>) = rb_ok b"
  "unread (b\<lparr>cwait := n\<rparr>) = unread b" "rb_ok (b\<lparr>cwait := n\<rparr>) = rb_ok b" "unread (b\<lparr>pwait := n\<rparr>) = unread b" "rb_ok (b\<lparr>pwait := n\<rparr>) = rb_ok b"
  "unread (b\<lparr>cL := x\<rparr>) = unread b" "rb_ok (b\<lparr>cL := x\<rparr>) = rb_ok b" "unread (b\<lparr>pL := x\<rparr>) = unread b" "rb_ok (b\<lparr>pL := x\<rparr>) = rb_ok b"
  "unread (b\<lparr>rb_done := x\<rparr>) = unread b" "rb_ok (b\<lparr>rb_done := x\<rparr>) = rb_ok b"
  by (simp_all add: unread_def rb_Len_def rb_ok_def)

lemma ReadPeek_ok:
  assumes "rb_ok b" and "unlocked b" and "unread b \<noteq> []" and "0 \<le> n" and "n \<le> rb_size b"
  shows "\<exists>t. ReadPeek n b = (Done (take (nat n) (unread b), if n \<le> int (length (unread b)) then None else Some ErrBufferInsufficientData), b\<lparr>rb_tmp := t\<rparr>)"
proof -
  let ?m = "if n \<le> rb_Len b then n else rb_Len b"
  have lt: "0 < rb_Len b" using assms(1,3) rb_ok_facts(4) by (auto simp: unread_def)
  have b: "b\<lparr>cL := False\<rparr> = b" using assms(2) by (cases b) simp
  obtain t where t: "peek_bytes (cursor (cseq b)) ?m b = (Done (take (nat ?m) (unread b)), b\<lparr>rb_tmp := t\<rparr>)"
    using peek_bytes_ok [OF assms(1), of ?m] lt assms(4) by (cases "n \<le> rb_Len b") auto
  have "data_wait True (cursor (cseq b) + 1) (b\<lparr>cL := True\<rparr>) = (Done (Some (cursor (pseq b))), b)"
    using data_wait_ok [of "cursor (cseq b) + 1" "b\<lparr>cL := True\<rparr>" True] lt b by (simp add: rb_Len_def seq_get_def)
  moreover have "lockC b = (Done (), b\<lparr>cL := True\<rparr>)" using assms(2) by (simp add: lockC_def)
  moreover have "(n \<le> int (length (unread b))) = (n \<le> rb_Len b)" by (simp only: Len_unread [OF assms(1)])
  moreover have "take (nat ?m) (unread b) = take (nat n) (unread b)" by simp
  note t' = t [unfolded this]
  moreover have "ReadPeek n b = andThen (peek_bytes (cursor (cseq b)) ?m)
      (\<lambda>p. yield (p, if n \<le> rb_Len b then None else Some ErrBufferInsufficientData)) b"
    using calculation(1,2) assms(4,5) unfolding ReadPeek_def by (simp add: act_simps Let_def rb_Len_def seq_get_def)
  ultimately show ?thesis by (intro exI [of _ t]) (simp only: act_simps)
qed

lemma ReadWait_ok:
  assumes "rb_ok b" and "unlocked b" and "0 \<le> n" and "n \<le> int (length (unread b))"
  shows "\<exists>t. ReadWait n b = (Done (take (nat n) (unread b), None), b\<lparr>rb_tmp := t\<rparr>)"
proof -
  have n: "n \<le> rb_Len b" using assms(4) Len_unread [OF assms(1)] by linarith
  then have "n \<le> rb_size b" using rb_ok_facts(5) [OF assms(1)] by simp
  have b: "b\<lparr>cL := False\<rparr> = b" using assms(2) by (cases b) simp
  obtain t where t: "peek_bytes (cursor (cseq b)) n b = (Done (take (nat n) (unread b)), b\<lparr>rb_tmp := t\<rparr>)"
    using peek_bytes_ok [OF assms(1,3) n] by auto
  have "data_wait False (cursor (cseq b) + n) (b\<lparr>cL := True\<rparr>) = (Done (Some (cursor (pseq b))), b)"
    using data_wait_ok [of "cursor (cseq b) + n" "b\<lparr>cL := True\<rparr>" False] n b by (simp add: rb_Len_def seq_get_def)
  moreover have "lockC b = (Done (), b\<lparr>cL := True\<rparr>)" using assms(2) by (simp add: lockC_def)
  ultimately show ?thesis using t assms(3) \<open>n \<le> rb_size b\<close> unfolding ReadWait_def
    by (intro exI [of _ t]) (simp add: act_simps seq_get_def)
qed

lemma ReadWait_few:
  assumes "unlocked b" and "n \<le> rb_size b" and "rb_Len b < n" and "0 \<le> n"
  shows "\<not> rb_done b \<Longrightarrow> ReadWait n b = (Stuck, b)"
    and "rb_done b \<Longrightarrow> ReadWait n b = (Done ([], Some io_EOF), b\<lparr>cL := True\<rparr>)"
proof -
  have b: "b\<lparr>cL := False\<rparr> = b" "b\<lparr>cwait := cwait b\<rparr> = b" using assms(1) by (cases b, simp)+
  have l: "lockC b = (Done (), b\<lparr>cL := True\<rparr>)" using assms(1) by (simp add: lockC_def)
  have p: "cursor (pseq (b\<lparr>cL := True\<rparr>)) < cursor (cseq b) + n" using assms(3) by (simp add: rb_Len_def seq_get_def)
  show "ReadWait n b = (Stuck, b)" if "\<not> rb_done b"
    using data_wait_none(2) [OF p, of False] that l b assms(2,4) by (simp add: ReadWait_def act_simps andThen_Stuck seq_get_def)
  show "ReadWait n b = (Done ([], Some io_EOF), b\<lparr>cL := True\<rparr>)" if "rb_done b"
    using data_wait_none(1) [OF p, of False] that l assms(2,4) by (simp add: ReadWait_def act_simps seq_get_def)
qed

lemma ReadCommit_ok:
  assumes "rb_ok b" and "unlocked b" and "n \<le> length (unread b)"
  shows "\<exists>b'. ReadCommit (int n) b = (Done (int n, None), b') \<and> b' = b\<lparr>cseq := seq_set (cseq b) (cursor (cseq b) + int n)\<rparr>
           \<and> rb_ok b' \<and> unread b' = drop n (unread b)"
proof -
  have n: "n \<le> nat (rb_Len b)" using assms(3) by simp
  then have "int n \<le> rb_Len b" "int n \<le> rb_size b" using rb_ok_facts(4,5) [OF assms(1)] by linarith+
  then have "ReadCommit (int n) b = (Done (int n, None), b\<lparr>cseq := seq_set (cseq b) (cursor (cseq b) + int n)\<rparr>)"
    using assms(2) by (simp add: ReadCommit_def act_simps seq_get_def rb_Len_def wake_ok)
  with commit_ok(1) [OF assms(1) n] drop_unread [OF n] show ?thesis by blast
qed

lemma ReadCommit_few:
  assumes "rb_Len b < n" and "0 \<le> n" and "n \<le> rb_size b"
  shows "ReadCommit n b = (Done (0, Some ErrBufferInsufficientData), b)"
  using assms by (simp add: ReadCommit_def act_simps seq_get_def rb_Len_def)

end
