(* ===== verification/Ring_Stream.thy ===== *)
theory Ring_Stream
  imports Ring_Props
begin

unbundle bit_operations_syntax

text \<open>
  The ring buffer as a stream of bytes: the contract that it keeps towards a producer and a consumer whose calls alternate in
  any order (locale \<open>byte_stream\<close>), the transfer between the network and the ring, and how a closed buffer blocks.
\<close>

section \<open>The contract\<close>

text \<open>
  Calls of the producer and the consumer, in any order.  The result collects what was written and what was read; a call that
  waits is left undone.
\<close>

datatype stream_op = Put bytes | Get nat

primrec stream_run ::
    "(bytes \<Rightarrow> (int \<times> error option, 's) act) \<Rightarrow> (nat \<Rightarrow> (bytes \<times> error option, 's) act) \<Rightarrow> stream_op list \<Rightarrow> 's
     \<Rightarrow> bytes \<times> bytes \<times> 's" where
  "stream_run put get [] s = ([], [], s)"
| "stream_run put get (x # xs) s =
     (case x of
        Put p \<Rightarrow>
          (case put p s of
             (Done (_, None), s) \<Rightarrow> (let (w, r, s) = stream_run put get xs s in (p @ w, r, s))
           | (_, s) \<Rightarrow> stream_run put get xs s)
      | Get n \<Rightarrow>
          (case get n s of
             (Done (bs, None), s) \<Rightarrow> (let (w, r, s) = stream_run put get xs s in (w, bs @ r, s))
           | (_, s) \<Rightarrow> stream_run put get xs s))"

locale byte_stream =
  fixes inv :: "'s \<Rightarrow> bool" and queue :: "'s \<Rightarrow> bytes" and room :: "'s \<Rightarrow> int"
    and put :: "bytes \<Rightarrow> (int \<times> error option, 's) act" and get :: "nat \<Rightarrow> (bytes \<times> error option, 's) act"
  assumes put_law: "inv s \<Longrightarrow> int (length p) \<le> room s \<Longrightarrow>
      \<exists>s'. put p s = (Done (int (length p), None), s') \<and> inv s' \<and> queue s' = queue s @ p"
    and put_waits: "inv s \<Longrightarrow> room s < int (length p) \<Longrightarrow> \<exists>s'. put p s = (Stuck, s') \<and> inv s' \<and> queue s' = queue s"
    and get_law: "inv s \<Longrightarrow> queue s \<noteq> [] \<Longrightarrow>
      \<exists>bs s'. get n s = (Done (bs, None), s') \<and> inv s' \<and> queue s = bs @ queue s' \<and> length bs \<le> n \<and> (0 < n \<longrightarrow> bs \<noteq> [])"
    and get_waits: "inv s \<Longrightarrow> queue s = [] \<Longrightarrow> \<exists>s'. get n s = (Stuck, s') \<and> inv s' \<and> queue s' = []"
begin

lemma run_fifo:
  "inv s \<Longrightarrow> stream_run put get xs s = (w, r, s') \<Longrightarrow> inv s' \<and> queue s @ w = r @ queue s'"
proof (induction xs arbitrary: s w r)
  case (Cons x xs)
  show ?case
  proof (cases x)
    case (Put p)
    show ?thesis
    proof (cases "int (length p) \<le> room s")
      case True
      then obtain s1 where s1: "put p s = (Done (int (length p), None), s1)" "inv s1" "queue s1 = queue s @ p"
        using put_law [OF Cons.prems(1)] by blast
      obtain w1 where "stream_run put get xs s1 = (w1, r, s')" "w = p @ w1"
        using Cons.prems(2) Put s1(1) by (auto split: prod.splits)
      with Cons.IH [OF s1(2)] s1(3) show ?thesis by auto
    next
      case False
      then obtain s1 where "put p s = (Stuck, s1)" "inv s1" "queue s1 = queue s"
        using put_waits [OF Cons.prems(1)] by (meson linorder_not_le)
      with Cons.IH [of s1] Cons.prems(2) Put show ?thesis by simp
    qed
  next
    case (Get n)
    show ?thesis
    proof (cases "queue s = []")
      case False
      then obtain bs s1 where s1: "get n s = (Done (bs, None), s1)" "inv s1" "queue s = bs @ queue s1"
        using get_law [OF Cons.prems(1)] by blast
      obtain r1 where "stream_run put get xs s1 = (w, r1, s')" "r = bs @ r1"
        using Cons.prems(2) Get s1(1) by (auto split: prod.splits)
      with Cons.IH [OF s1(2)] s1(3) show ?thesis by auto
    next
      case True
      then obtain s1 where "get n s = (Stuck, s1)" "inv s1" "queue s1 = []" using get_waits [OF Cons.prems(1)] by blast
      with Cons.IH [of s1] Cons.prems(2) Get True show ?thesis by simp
    qed
  qed
qed auto

text \<open>Reading often enough empties the queue.\<close>

lemma drains:
  "inv s \<Longrightarrow> 0 < n \<Longrightarrow> length (queue s) \<le> k \<Longrightarrow>
   \<exists>s'. stream_run put get (replicate k (Get n)) s = ([], queue s, s') \<and> inv s' \<and> queue s' = []"
proof (induction k arbitrary: s)
  case (Suc k)
  show ?case
  proof (cases "queue s = []")
    case True
    then obtain s1 where "get n s = (Stuck, s1)" "inv s1" "queue s1 = []" using get_waits [OF Suc.prems(1)] by blast
    with Suc.IH [of s1] Suc.prems(2) True show ?thesis by auto
  next
    case False
    then obtain bs s1 where s1: "get n s = (Done (bs, None), s1)" "inv s1" "queue s = bs @ queue s1" "bs \<noteq> []"
      using get_law [OF Suc.prems(1)] Suc.prems(2) by blast
    then have "length (queue s1) \<le> k" using Suc.prems(3) by (cases bs) auto
    with Suc.IH [OF s1(2) Suc.prems(2)] s1 show ?thesis by auto
  qed
qed simp

end

text \<open>The ring buffer keeps the contract.\<close>

definition ring_open :: "ringbuf \<Rightarrow> bool" where
  "ring_open b \<longleftrightarrow> rb_ok b \<and> unlocked b \<and> \<not> rb_done b"

definition ring_room :: "ringbuf \<Rightarrow> int" where
  "ring_room b = rb_size b - rb_Len b"

lemma rb_Read_waits:
  assumes "rb_ok b" and "unlocked b" and "\<not> rb_done b" and "unread b = []"
  shows "rb_Read n b = (Stuck, b\<lparr>cwait := cwait b + 1\<rparr>)"
proof -
  have "rb_Len b = 0" using Len_unread [OF assms(1)] assms(4) by simp
  then have p: "cursor (pseq b) = cursor (cseq b)" by (simp add: rb_Len_def seq_get_def)
  have "data_wait True (cursor (cseq b) + 1) (b\<lparr>cL := True\<rparr>) = (Stuck, b\<lparr>cL := True, cwait := cwait b + 1, cL := False\<rparr>)"
    using data_wait_none(2) [of "b\<lparr>cL := True\<rparr>" "cursor (cseq b) + 1" True] assms(3) p by simp
  moreover have "b\<lparr>cwait := cwait b + 1, cL := False\<rparr> = b\<lparr>cwait := cwait b + 1\<rparr>" using assms(2) by (cases b) simp
  ultimately show ?thesis using assms(2,3) p by (simp add: rb_Read_def andThen_def gets_def seq_get_def rb_isDone_def lockC_def)
qed

interpretation ring: byte_stream ring_open unread ring_room rb_Write rb_Read
proof unfold_locales
  fix b p assume b: "ring_open b"
  then have o: "rb_ok b" "unlocked b" "\<not> rb_done b" by (auto simp: ring_open_def)
  show "\<exists>b'. rb_Write p b = (Done (int (length p), None), b') \<and> ring_open b' \<and> unread b' = unread b @ p" if "int (length p) \<le> ring_room b"
    using rb_Write_ok [OF o, of p] that by (auto simp: ring_open_def ring_room_def)
  show "\<exists>b'. rb_Write p b = (Stuck, b') \<and> ring_open b' \<and> unread b' = unread b" if "ring_room b < int (length p)"
    using rb_Write_full [OF o, of p] that o by (simp add: ring_open_def ring_room_def)
next
  fix b n assume b: "ring_open b"
  then have o: "rb_ok b" "unlocked b" "\<not> rb_done b" by (auto simp: ring_open_def)
  show "\<exists>bs b'. rb_Read n b = (Done (bs, None), b') \<and> ring_open b' \<and> unread b = bs @ unread b' \<and> length bs \<le> n \<and> (0 < n \<longrightarrow> bs \<noteq> [])"
    if "unread b \<noteq> []"
    using rb_Read_ok [OF o(1,2) that, of n] o by (auto simp: ring_open_def)
  show "\<exists>b'. rb_Read n b = (Stuck, b') \<and> ring_open b' \<and> unread b' = []" if "unread b = []"
    using rb_Read_waits [OF o that, of n] o that by (simp add: ring_open_def)
qed

text \<open>
  C13: the ring buffer is a queue: whatever the order in which a producer writes to a new buffer and a consumer reads from it, and
  whichever calls have to wait, the bytes read followed by those still in the buffer are the bytes written, and reading on
  delivers them all.
\<close>

theorem ring_fifo:
  assumes "newBuffer sz cnt = (Inr b, cnt')" and "sz < 2 ^ 63" and "stream_run rb_Write rb_Read xs b = (w, r, b')"
  shows "w = r @ unread b' \<and> (\<exists>b''. stream_run rb_Write rb_Read (replicate (length (unread b')) (Get 1)) b' = ([], unread b', b''))"
proof -
  have o: "ring_open b" "unread b = []" using newBuffer_ok [OF assms(1,2)] by (simp_all add: ring_open_def)
  with ring.run_fifo [OF o(1) assms(3)] ring.drains [of b' 1 "length (unread b')"] show ?thesis by auto
qed

lemma example_ring: "\<exists>b. newBuffer 0 0 = (Inr b, 1)"
proof -
  have "powerOfTwo64 (word_of_int defaultBufferSize)" by code_simp
  then show ?thesis by (simp add: newBuffer_def)
qed

theorem ring_fifo_witness:
  "\<exists>b w r b'. newBuffer 0 0 = (Inr b, 1) \<and> stream_run rb_Write rb_Read [Put [1, 2, 3], Get 2, Put [4], Get 9] b = (w, r, b')
     \<and> w = [1, 2, 3, 4] \<and> w = r @ unread b'"
proof -
  obtain b where b: "newBuffer 0 0 = (Inr b, 1)" using example_ring by blast
  then have o: "ring_open b" "unread b = []" "rb_size b = 262144"
    using newBuffer_ok [OF b] by (simp_all add: ring_open_def)
  obtain b1 where b1: "rb_Write [1, 2, 3] b = (Done (3, None), b1)" "ring_open b1" "unread b1 = [1, 2, 3]" "rb_size b1 = 262144"
    using rb_Write_ok [of b "[1, 2, 3]"] o by (auto simp: ring_open_def rb_Len_def unread_def)
  obtain bs b2 where b2: "rb_Read 2 b1 = (Done (bs, None), b2)" "ring_open b2" "[1, 2, 3] = bs @ unread b2" "rb_size b2 = 262144"
    using rb_Read_ok [of b1 2] b1 by (auto simp: ring_open_def)
  have "length (unread b2) \<le> 3" using arg_cong [OF b2(3), of length] by simp
  then have l2: "rb_Len b2 \<le> 3" using b2(2) Len_unread [of b2] unfolding ring_open_def by linarith
  obtain b3 where b3: "rb_Write [4] b2 = (Done (1, None), b3)" using rb_Write_ok [of b2 "[4]"] b2(2,4) l2 by (auto simp: ring_open_def)
  obtain w r b' where run: "stream_run rb_Write rb_Read [Put [1, 2, 3], Get 2, Put [4], Get 9] b = (w, r, b')"
    by (cases "stream_run rb_Write rb_Read [Put [1, 2, 3], Get 2, Put [4], Get 9] b")
  moreover have "w = [1, 2, 3, 4]" using run b1(1) b2(1) b3 by (auto split: prod.splits outcome.splits option.splits)
  moreover have "(0 :: int) < 2 ^ 63" by simp
  ultimately show ?thesis using ring_fifo [OF b _ run] b by blast
qed

text \<open>
  C21: \<open>ringCopy\<close> returns, for every source and every place in a ring that is not empty; a source that is not longer than the
  ring is copied byte by byte, around its end.
\<close>

theorem ringCopy_terminates:
  assumes "start < length dst"
  shows "\<exists>d. ringCopy dst src (int start) = Some (Some (d, length src)) \<and> length d = length dst
     \<and> (length src \<le> length dst \<longrightarrow> (\<forall>j < length src. d ! ((start + j) mod length dst) = src ! j))"
proof -
  have ne: "dst \<noteq> []" using assms by auto
  obtain d where d: "ringCopy dst src (int start) = Some (Some (d, length src))" "length d = length dst"
    using ring_copy_ends [OF ne assms, of 0 "length src" src] by (auto simp: ringCopy_def)
  moreover have "d ! ((start + j) mod length dst) = src ! j" if j: "length src \<le> length dst" "j < length src" for j
  proof -
    have "int start mod int (length dst) = int start" using assms by simp
    then have "slot d (int start + int j) = src ! j"
      using ringCopy_slots [of dst src "int start"] ne j d(1) by auto
    moreover have "nat ((int start + int j) mod int (length dst)) = (start + j) mod length dst"
      by (metis nat_int of_nat_add zmod_int)
    ultimately show ?thesis by (simp add: slot_def d(2))
  qed
  ultimately show ?thesis by blast
qed

theorem ringCopy_terminates_witness:
  "\<exists>d. ringCopy [0, 0, 0, 0] [1, 2, 3] 2 = Some (Some (d, 3)) \<and> length d = 4 \<and> d ! 2 = 1 \<and> d ! 3 = 2 \<and> d ! 0 = 3"
proof -
  obtain d where d: "ringCopy [0, 0, 0, 0] [1, 2, 3] (int 2) = Some (Some (d, 3))" "length d = 4"
      "\<forall>j < 3. d ! ((2 + j) mod 4) = [1, 2, 3 :: byte] ! j"
    using ringCopy_terminates [of 2 "[0, 0, 0, 0]" "[1, 2, 3]"] by auto
  show ?thesis using d(1,2) d(3) [rule_format, of 0] d(3) [rule_format, of 1] d(3) [rule_format, of 2] by auto
qed

section \<open>Closing\<close>

lemma lock_ok: "\<not> pL b \<Longrightarrow> lockP b = (Done (), b\<lparr>pL := True\<rparr>)" "\<not> cL b \<Longrightarrow> lockC b = (Done (), b\<lparr>cL := True\<rparr>)"
  by (simp_all add: lockP_def lockC_def)

lemma rb_Close_ok: "\<not> pL b \<Longrightarrow> rb_Close b = (Done None, b\<lparr>rb_done := True\<rparr>)"
  by (simp add: rb_Close_def act_simps wake_ok)

text \<open>
  C22: a producer that waits for space when the buffer is closed is woken and returns \<open>io.EOF\<close> with the mutex still locked;
  the deferred \<open>Close\<close> of \<open>ReadFrom\<close> then waits for that mutex for ever, so that the goroutine never ends.
\<close>

theorem close_blocks_producer:
  assumes "ring_open b" and "ring_room b < n"
  shows "\<exists>b1 b2 b3. waitForWriteSpace n b = (Stuck, b1) \<and> rb_Close b1 = (Done None, b2)
     \<and> andThen lockP (\<lambda>_. write_wait (seq_get (pseq b)) n (seq_get (pseq b) + n - rb_size b)) b2 = (Done (0, 0, Some io_EOF), b3)
     \<and> fst (rb_Close b3) = Stuck"
proof -
  let ?b1 = "b\<lparr>pwait := pwait b + 1\<rparr>"
  have o: "rb_ok b" "unlocked b" "\<not> rb_done b" "rb_size b < rb_Len b + n" using assms by (auto simp: ring_open_def ring_room_def)
  let ?b2 = "?b1\<lparr>rb_done := True\<rparr>"
  have "waitForWriteSpace n b = (Stuck, ?b1)" by (rule waitForWriteSpace_full [OF o])
  moreover have "rb_Close ?b1 = (Done None, ?b2)" using o(2) by (simp add: rb_Close_ok)
  moreover have "cursor (cseq b) < cursor (pseq b) + n - rb_size b" using o(4) by (simp add: rb_Len_def seq_get_def)
  then have "andThen lockP (\<lambda>_. write_wait (seq_get (pseq b)) n (seq_get (pseq b) + n - rb_size b)) ?b2
      = (Done (0, 0, Some io_EOF), ?b2\<lparr>pL := True\<rparr>)"
    using o(2) by (simp add: act_simps lock_ok write_wait_def seq_get_def rb_isDone_def)
  moreover have "fst (rb_Close (?b2\<lparr>pL := True\<rparr>)) = Stuck"
    by (simp add: rb_Close_def wakeP_def lockP_def act_simps andThen_Stuck)
  ultimately show ?thesis by blast
qed

theorem close_blocks_producer_witness:
  "\<exists>b b1 b2 b3. newBuffer 0 0 = (Inr b, 1) \<and> waitForWriteSpace 300000 b = (Stuck, b1) \<and> rb_Close b1 = (Done None, b2)
     \<and> andThen lockP (\<lambda>_. write_wait (seq_get (pseq b)) 300000 (seq_get (pseq b) + 300000 - rb_size b)) b2 = (Done (0, 0, Some io_EOF), b3)
     \<and> fst (rb_Close b3) = Stuck"
proof -
  obtain b where b: "newBuffer 0 0 = (Inr b, 1)" using example_ring by blast
  have "ring_open b" "ring_room b < 300000" using newBuffer_ok [OF b] rb_ok_facts(4) by (auto simp: ring_open_def ring_room_def) fastforce
  from close_blocks_producer [OF this] b show ?thesis by blast
qed

section \<open>From and to the network\<close>

lemma conn_Read_part:
  assumes "conn_Read c sz = (bs, None, c')"
  shows "incoming c = bs @ incoming c'" and "length bs \<le> sz" and "closed c' = closed c" and "read_err c' = read_err c" and "\<not> closed c"
  using assms by (auto simp: conn_Read_def Let_def split: if_splits list.splits)

text \<open>One pass of \<open>ReadFrom\<close> with enough space: what the network delivers joins the queue.\<close>

lemma read_from_pass:
  assumes "ring_open b" and "rb_Len b + defaultReadBlockSize \<le> rb_size b"
  shows "\<exists>sz b1. 0 < sz \<and> ring_open b1 \<and> unread b1 = unread b
     \<and> (\<forall>tot bs c c'. conn_Read c sz = (bs, None, c') \<longrightarrow>
          (\<exists>b'. read_from_loop tot c b = read_from_loop (tot + int (length bs)) c' b' \<and> ring_open b' \<and> unread b' = unread b @ bs
              \<and> rb_size b' = rb_size b))
     \<and> (\<forall>tot c c' e. conn_Read c sz = ([], Some e, c') \<longrightarrow> read_from_loop tot c b = (Done (tot, Some e), c', b1))"
proof -
  have o: "rb_ok b" "unlocked b" "\<not> rb_done b" using assms(1) by (auto simp: ring_open_def)
  note f = rb_ok_facts [OF o(1)]
  obtain gt where gt: "waitForWriteSpace defaultReadBlockSize b = (Done (cursor (pseq b), defaultReadBlockSize, None), b\<lparr>pseq := (pseq b)\<lparr>gate := gt\<rparr>\<rparr>)"
      "gt \<le> cursor (cseq b)" using waitForWriteSpace_ok [OF o assms(2)] by blast
  let ?b1 = "b\<lparr>pseq := (pseq b)\<lparr>gate := gt\<rparr>\<rparr>"
  have o1: "rb_ok ?b1" "unlocked ?b1" "\<not> rb_done ?b1" "unread ?b1 = unread b" "rb_Len ?b1 = rb_Len b"
    using o gt(2) by (auto simp: rb_ok_def unread_def rb_Len_def seq_get_def)
  define i where "i = nat (cursor (pseq b) mod rb_size b)"
  have i: "cursor (pseq b) mod rb_size b = int i" "int i < rb_size b" using f(3) by (simp_all add: i_def)
  have m: "cursor (pseq b) AND rb_mask b = int i" using f(1) i(1) by simp
  define pend where "pend = min (int i + defaultReadBlockSize) (rb_size b)"
  define sz where "sz = nat (pend - int i)"
  have sz: "0 < sz" "i + sz \<le> length (rb_buf b)" "int sz \<le> defaultReadBlockSize" using i(2) f(2) by (auto simp: sz_def pend_def)
  have pend: "\<not> pend < int i" "\<not> int (length (rb_buf b)) < pend" "int i \<noteq> pend" using i(2) f(2) by (auto simp: pend_def)
  note pass = m pend pend_def [symmetric] sz_def [symmetric] gt(1) o(3) rb_isDone_def Let_def
  show ?thesis
  proof (rule exI [of _ sz], rule exI [of _ ?b1], intro conjI allI impI)
    show "\<exists>b'. read_from_loop tot c b = read_from_loop (tot + int (length bs)) c' b' \<and> ring_open b' \<and> unread b' = unread b @ bs \<and> rb_size b' = rb_size b"
      if r: "conn_Read c sz = (bs, None, c')" for tot bs c c'
    proof (cases "bs = []")
      case True
      then have "read_from_loop tot c b = read_from_loop tot c' ?b1"
        by (subst read_from_loop.simps) (simp add: pass r del: and_negative_int_iff min_less_iff_conj)
      with True o1 show ?thesis by (intro exI [of _ ?b1]) (simp add: ring_open_def)
    next
      case False
      let ?b2 = "?b1\<lparr>rb_buf := take i (rb_buf b) @ bs @ drop (i + length bs) (rb_buf b)\<rparr>"
      have "length bs \<le> sz" using conn_Read_part(2) [OF r] .
      then obtain b' where b': "WriteCommit (int (length bs)) ?b2 = (Done (int (length bs), None), b')"
          "rb_ok b'" "unlocked b'" "\<not> rb_done b'" "rb_size b' = rb_size b" "unread b' = unread b @ bs"
        using WriteCommit_ok [OF o1(1-3), of bs i] sz assms(2) o1(4,5) i_def by auto
      have "read_from_loop tot c b = read_from_loop (tot + int (length bs)) c' b'"
        by (subst read_from_loop.simps) (simp add: pass r False b'(1) del: and_negative_int_iff min_less_iff_conj)
      with b' show ?thesis by (intro exI [of _ b']) (simp add: ring_open_def)
    qed
    show "read_from_loop tot c b = (Done (tot, Some e), c', ?b1)" if r: "conn_Read c sz = ([], Some e, c')" for tot c c' e
      by (subst read_from_loop.simps) (simp add: pass r del: and_negative_int_iff min_less_iff_conj)
  qed (use sz o1 in \<open>simp_all add: ring_open_def\<close>)
qed

lemma read_from_ok:
  assumes "ring_open b" and "\<not> closed c" and "rb_Len b + int (length (incoming c)) + defaultReadBlockSize \<le> rb_size b"
  shows "\<exists>c' b'. read_from_loop tot c b = (Done (tot + int (length (incoming c)), Some (read_err c)), c', b')
     \<and> ring_open b' \<and> unread b' = unread b @ incoming c"
  using assms
proof (induction "conn_left c" arbitrary: tot c b rule: less_induct)
  case less
  have "rb_Len b + defaultReadBlockSize \<le> rb_size b" using less.prems(3) by simp
  from read_from_pass [OF less.prems(1) this] obtain sz b1 where p: "0 < sz" "ring_open b1" "unread b1 = unread b"
    and next1: "\<forall>tot bs c c'. conn_Read c sz = (bs, None, c') \<longrightarrow>
          (\<exists>b'. read_from_loop tot c b = read_from_loop (tot + int (length bs)) c' b' \<and> ring_open b' \<and> unread b' = unread b @ bs
              \<and> rb_size b' = rb_size b)"
    and end1: "\<forall>tot c c' e. conn_Read c sz = ([], Some e, c') \<longrightarrow> read_from_loop tot c b = (Done (tot, Some e), c', b1)"
    by (elim exE conjE) (rule that)
  show ?case
  proof (cases "incoming c = []")
    case True
    then have "conn_Read c sz = ([], Some (read_err c), c)" using less.prems(2) by (simp add: conn_Read_def)
    with end1 p True show ?thesis by simp
  next
    case False
    then obtain bs c' where r: "conn_Read c sz = (bs, None, c')" using less.prems(2) by (simp add: conn_Read_def Let_def)
    note q = conn_Read_part [OF r]
    obtain b' where b': "read_from_loop tot c b = read_from_loop (tot + int (length bs)) c' b'" "ring_open b'" "unread b' = unread b @ bs"
        "rb_size b' = rb_size b" using next1 [rule_format, OF r, of tot] by blast
    have "rb_Len b' = rb_Len b + int (length bs)"
      using b'(2,3) less.prems(1) Len_unread [of b] Len_unread [of b'] unfolding ring_open_def by (metis length_append of_nat_add)
    then have "rb_Len b' + int (length (incoming c')) + defaultReadBlockSize \<le> rb_size b'"
      using less.prems(3) q(1) b'(4) by simp
    from less.hyps [OF conn_Read_left [OF r p(1)] b'(2) _ this, of "tot + int (length bs)"] show ?thesis
      using b'(1,3) q by auto
  qed
qed

lemma ReadPeek_waits:
  assumes "ring_open b" and "unread b = []" and "0 \<le> n" and "n \<le> rb_size b"
  shows "ReadPeek n b = (Stuck, b\<lparr>cwait := cwait b + 1\<rparr>)"
proof -
  have o: "rb_ok b" "unlocked b" "\<not> rb_done b" using assms(1) by (auto simp: ring_open_def)
  have "rb_Len b = 0" using Len_unread [OF o(1)] assms(2) by simp
  then have p: "cursor (pseq b) = cursor (cseq b)" by (simp add: rb_Len_def seq_get_def)
  have "data_wait True (cursor (cseq b) + 1) (b\<lparr>cL := True\<rparr>) = (Stuck, b\<lparr>cL := True, cwait := cwait b + 1, cL := False\<rparr>)"
    using data_wait_none(2) [of "b\<lparr>cL := True\<rparr>" "cursor (cseq b) + 1" True] o(3) p by simp
  moreover have "b\<lparr>cwait := cwait b + 1, cL := False\<rparr> = b\<lparr>cwait := cwait b + 1\<rparr>" using o(2) by (cases b) simp
  ultimately show ?thesis using o(2) assms(3,4) by (simp add: ReadPeek_def act_simps andThen_Stuck seq_get_def lock_ok)
qed

lemma take_then_drop: "take n xs @ drop (length (take n xs)) xs = xs"
  by (simp add: min_def)

lemma write_to_ok:
  assumes "ring_open b" and "writable c" and "defaultWriteBlockSize \<le> rb_size b"
  shows "\<exists>c' b'. write_to_loop tot c b = (Stuck, c', b') \<and> outgoing c' = outgoing c @ unread b \<and> unread b' = [] \<and> ring_open b'"
  using assms
proof (induction "length (unread b)" arbitrary: tot c b rule: less_induct)
  case less
  have o: "rb_ok b" "unlocked b" "\<not> rb_done b" using less.prems(1) by (auto simp: ring_open_def)
  show ?case
  proof (cases "unread b = []")
    case True
    have "write_to_loop tot c b = (Stuck, c, b\<lparr>cwait := cwait b + 1\<rparr>)"
      by (subst write_to_loop.simps) (use o(3) ReadPeek_waits [OF less.prems(1) True, of defaultWriteBlockSize] less.prems(3) in \<open>simp add: rb_isDone_def\<close>)
    with True less.prems(1) show ?thesis by (simp add: ring_open_def)
  next
    case False
    let ?p = "take (nat defaultWriteBlockSize) (unread b)"
    obtain t err where t: "ReadPeek defaultWriteBlockSize b = (Done (?p, err), b\<lparr>rb_tmp := t\<rparr>)" "err = None \<or> err = Some ErrBufferInsufficientData"
      using ReadPeek_ok [OF o(1,2) False, of defaultWriteBlockSize] less.prems(3) by (cases "defaultWriteBlockSize \<le> int (length (unread b))") auto
    let ?b1 = "b\<lparr>rb_tmp := t\<rparr>"
    have ne: "?p \<noteq> []" using False by simp
    obtain b2 where b2: "ReadCommit (int (length ?p)) ?b1 = (Done (int (length ?p), None), b2)" "ring_open b2" "unread b2 = drop (length ?p) (unread b)"
        "rb_size b2 = rb_size b"
      using ReadCommit_ok [of ?b1 "length ?p"] o by (auto simp: ring_open_def simp del: length_unread)
    have w: "write_to_loop tot c b = write_to_loop (tot + int (length ?p)) (wrote c ?p) b2"
      by (subst write_to_loop.simps) (use o(3) t b2(1) ne less.prems(2) in \<open>auto simp: rb_isDone_def Let_def simp del: take_eq_Nil length_take\<close>)
    have "length (unread b2) < length (unread b)" using ne b2(3) by (cases "unread b") auto
    from less.hyps [OF this b2(2), of "wrote c ?p" "tot + int (length ?p)"] less.prems(2,3) b2(4) obtain c' b'
      where "write_to_loop tot c b = (Stuck, c', b')" "outgoing c' = (outgoing c @ ?p) @ unread b2" "unread b' = []" "ring_open b'"
      unfolding w by (auto simp: writable_def)
    then show ?thesis using take_then_drop [of "nat defaultWriteBlockSize" "unread b"] b2(3) by (intro exI [of _ c'] exI [of _ b']) (simp only: append_assoc)
  qed
qed

text \<open>
  \<open>ReadFrom\<close> puts all the bytes that arrive on a connection into the ring, in their order and in whatever portions they arrive,
  as long as a block of space is left behind them; it returns their number and the error that ended the stream, and closes the buffer.
\<close>

lemma network_to_ring:
  assumes "ring_open b" and "\<not> closed c" and "int (length (unread b)) + int (length (incoming c)) + defaultReadBlockSize \<le> rb_size b"
  shows "\<exists>c' b'. rb_ReadFrom c b = (Done (int (length (incoming c)), Some (read_err c)), c', b') \<and> unread b' = unread b @ incoming c \<and> rb_done b'"
proof -
  have "rb_Len b + int (length (incoming c)) + defaultReadBlockSize \<le> rb_size b"
    using assms(1,3) Len_unread [of b] unfolding ring_open_def by linarith
  from read_from_ok [OF assms(1,2) this, of 0] obtain c' b' where r: "read_from_loop 0 c b = (Done (int (length (incoming c)), Some (read_err c)), c', b')"
      "ring_open b'" "unread b' = unread b @ incoming c" by auto
  then show ?thesis by (auto simp: rb_ReadFrom_def deferred_Close_def rb_Close_ok ring_open_def)
qed

text \<open>
  C20: \<open>WriteTo\<close> sends everything that is in the ring to the connection, in order, and then waits for more.
\<close>

theorem ring_to_network:
  assumes "ring_open b" and "writable c" and "defaultWriteBlockSize \<le> rb_size b"
  shows "\<exists>c' b'. rb_WriteTo c b = (Stuck, c', b') \<and> outgoing c' = outgoing c @ unread b \<and> unread b' = [] \<and> ring_open b'"
  using write_to_ok [OF assms, of 0] by (auto simp: rb_WriteTo_def deferred_Close_def)

theorem ring_to_network_witness:
  "\<exists>b b1 c' b'. newBuffer 0 0 = (Inr b, 1) \<and> rb_Write [1, 2, 3] b = (Done (3, None), b1)
     \<and> rb_WriteTo fresh_conn b1 = (Stuck, c', b') \<and> outgoing c' = [1, 2, 3] \<and> unread b' = []"
proof -
  obtain b where b: "newBuffer 0 0 = (Inr b, 1)" using example_ring by blast
  then have o: "ring_open b" "unread b = []" "rb_size b = 262144" using newBuffer_ok [OF b] by (simp_all add: ring_open_def)
  obtain b1 where b1: "rb_Write [1, 2, 3] b = (Done (3, None), b1)" "ring_open b1" "unread b1 = [1, 2, 3]" "rb_size b1 = 262144"
    using rb_Write_ok [of b "[1, 2, 3]"] o by (auto simp: ring_open_def rb_Len_def unread_def)
  with ring_to_network [OF b1(2), of fresh_conn] b show ?thesis by (auto simp: fresh_conn_def writable_def)
qed

end
