(* ===== verification/Ring_Steps.thy ===== *)
theory Ring_Steps
  imports Ring_Stream
begin

unbundle bit_operations_syntax

text \<open>
  The ring buffer under interleaving: the producer copies into the ring byte by byte while the consumer looks at the bytes of
  the slice that it was given, and neither holds a mutex meanwhile.  The second part has the steps of \<open>Close\<close> against those
  of a consumer that is about to wait.
\<close>

section \<open>A producer and a consumer\<close>

text \<open>
  \<open>PCopy start p i\<close>: \<open>Write p\<close> has found space at \<open>start\<close> and has copied \<open>i\<close> bytes.  \<open>CLook cpos n bs\<close>: the consumer has waited for
  \<open>n\<close> bytes at \<open>cpos\<close> and has looked at the bytes \<open>bs\<close> of them.  The last two fields record what was written and what was read.
\<close>

datatype producer = PIdle | PCopy int bytes nat

datatype consumer = CIdle | CLook int nat bytes

record ring_state =
  rg :: ringbuf
  prod :: producer
  cons :: consumer
  produced :: bytes
  consumed :: bytes

inductive ring_step :: "ring_state \<Rightarrow> ring_state \<Rightarrow> bool" where
  p_space: "prod s = PIdle \<Longrightarrow> waitForWriteSpace (int (length p)) (rg s) = (Done (start, n, None), b) \<Longrightarrow>
     ring_step s (s\<lparr>rg := b, prod := PCopy start p 0\<rparr>)"
| p_waits: "prod s = PIdle \<Longrightarrow> waitForWriteSpace n (rg s) = (Stuck, b) \<Longrightarrow> ring_step s (s\<lparr>rg := b\<rparr>)"
| p_copies: "prod s = PCopy start p i \<Longrightarrow> i < length p \<Longrightarrow>
     ring_step s (s\<lparr>rg := (rg s)\<lparr>rb_buf := (rb_buf (rg s))[nat ((start + int i) AND rb_mask (rg s)) := p ! i]\<rparr>, prod := PCopy start p (Suc i)\<rparr>)"
| p_publishes: "prod s = PCopy start p (length p) \<Longrightarrow>
     ring_step s (s\<lparr>rg := (rg s)\<lparr>pseq := seq_set (pseq (rg s)) (start + int (length p))\<rparr>, prod := PIdle, produced := produced s @ p\<rparr>)"
| c_finds: "cons s = CIdle \<Longrightarrow> ReadWait (int n) (rg s) = (Done (bs, None), b) \<Longrightarrow>
     ring_step s (s\<lparr>rg := b, cons := CLook (seq_get (cseq (rg s))) n []\<rparr>)"
| c_looks: "cons s = CLook cpos n bs \<Longrightarrow> length bs < n \<Longrightarrow>
     ring_step s (s\<lparr>cons := CLook cpos n (bs @ [rb_buf (rg s) ! nat ((cpos + int (length bs)) AND rb_mask (rg s))])\<rparr>)"
| c_commits: "cons s = CLook cpos n bs \<Longrightarrow> length bs = n \<Longrightarrow> ReadCommit (int n) (rg s) = (Done (k, None), b) \<Longrightarrow>
     ring_step s (s\<lparr>rg := b, cons := CIdle, consumed := consumed s @ bs\<rparr>)"

inductive ring_reach :: "ring_state \<Rightarrow> ring_state \<Rightarrow> bool" where
  reach_start: "ring_reach s s"
| reach_step: "ring_reach s t \<Longrightarrow> ring_step t u \<Longrightarrow> ring_reach s u"

definition ring_start :: "ringbuf \<Rightarrow> ring_state" where
  "ring_start b = \<lparr>rg = b, prod = PIdle, cons = CIdle, produced = [], consumed = []\<rparr>"

text \<open>
  The invariant.  Between the two positions the ring holds what was written there; the producer's copy lies ahead of its position
  and within one turn of the consumer's; the consumer has seen what was written.
\<close>

definition ring_inv :: "ring_state \<Rightarrow> bool" where
  "ring_inv s \<longleftrightarrow>
     (let b = rg s; cp = cursor (cseq b); pp = cursor (pseq b)
      in rb_ok b \<and> unlocked b \<and> \<not> rb_done b \<and> int (length (produced s)) = pp \<and> consumed s = take (nat cp) (produced s)
         \<and> (\<forall>x. cp \<le> x \<and> x < pp \<longrightarrow> slot (rb_buf b) x = produced s ! nat x)
         \<and> (case prod s of PIdle \<Rightarrow> True
            | PCopy start p i \<Rightarrow> start = pp \<and> i \<le> length p \<and> pp + int (length p) \<le> cp + rb_size b
                \<and> (\<forall>j < i. slot (rb_buf b) (start + int j) = p ! j))
         \<and> (case cons s of CIdle \<Rightarrow> True
            | CLook cpos n bs \<Rightarrow> cpos = cp \<and> cp + int n \<le> pp \<and> length bs \<le> n \<and> bs = take (length bs) (drop (nat cp) (produced s))))"

lemma slot_update:
  assumes "0 < length buf" and "x mod int (length buf) = y mod int (length buf)"
  shows "slot (buf[nat (x mod int (length buf)) := v]) y = v"
  using assms by (simp add: slot_def nat_less_iff)

lemma slot_update_other:
  assumes "0 < length buf" and "x < y" and "y < x + int (length buf)"
  shows "slot (buf[nat (y mod int (length buf)) := v]) x = slot buf x"
proof -
  let ?n = "int (length buf)"
  have "x mod ?n \<noteq> y mod ?n"
  proof
    assume "x mod ?n = y mod ?n"
    then have "?n dvd y - x" by (metis mod_eq_dvd_iff)
    then have "?n \<le> y - x" using assms(2) by (simp add: zdvd_imp_le)
    then show False using assms(3) by simp
  qed
  moreover have "0 \<le> x mod ?n" "0 \<le> y mod ?n" using assms(1) by simp_all
  ultimately have "nat (y mod ?n) \<noteq> nat (x mod ?n)" by (metis eq_nat_nat_iff)
  then show ?thesis by (simp add: slot_def)
qed

lemma ring_inv_start:
  assumes "newBuffer sz cnt = (Inr b, cnt')" and "sz < 2 ^ 63"
  shows "ring_inv (ring_start b)"
proof -
  have "cursor (cseq b) = 0" "cursor (pseq b) = 0"
    using assms(1) by (auto simp: newBuffer_def Let_def newSequence_def split: if_splits)
  then show ?thesis using newBuffer_ok [OF assms] by (auto simp: ring_inv_def ring_start_def)
qed

lemma ring_invD:
  assumes "ring_inv s"
  shows "rb_ok (rg s)" "unlocked (rg s)" "\<not> rb_done (rg s)" "int (length (produced s)) = cursor (pseq (rg s))"
    "0 < length (rb_buf (rg s))" "rb_size (rg s) = int (length (rb_buf (rg s)))"
  using assms rb_ok_facts(2,3) [of "rg s"] by (auto simp: ring_inv_def Let_def)

text \<open>What a successful wait tells.\<close>

lemma space_found:
  assumes "ring_inv s" and "waitForWriteSpace n (rg s) = (Done (start, k, None), b)"
  shows "start = cursor (pseq (rg s)) \<and> rb_Len (rg s) + n \<le> rb_size (rg s)
     \<and> (\<exists>gt. b = (rg s)\<lparr>pseq := (pseq (rg s))\<lparr>gate := gt\<rparr>\<rparr> \<and> gt \<le> cursor (cseq (rg s)))"
proof (cases "rb_Len (rg s) + n \<le> rb_size (rg s)")
  case True
  with waitForWriteSpace_ok [OF ring_invD(1-3) [OF assms(1)] True] assms(2) show ?thesis by auto
next
  case False
  then have "rb_size (rg s) < rb_Len (rg s) + n" by simp
  from waitForWriteSpace_full [OF ring_invD(1-3) [OF assms(1)] this] assms(2) show ?thesis by simp
qed

lemma space_waits:
  assumes "ring_inv s" and "waitForWriteSpace n (rg s) = (Stuck, b)"
  shows "b = (rg s)\<lparr>pwait := pwait (rg s) + 1\<rparr>"
proof (cases "rb_Len (rg s) + n \<le> rb_size (rg s)")
  case True
  with waitForWriteSpace_ok [OF ring_invD(1-3) [OF assms(1)] True] assms(2) show ?thesis by auto
next
  case False
  then have "rb_size (rg s) < rb_Len (rg s) + n" by simp
  from waitForWriteSpace_full [OF ring_invD(1-3) [OF assms(1)] this] assms(2) show ?thesis by simp
qed

lemma data_found:
  assumes "ring_inv s" and "ReadWait (int n) (rg s) = (Done (bs, None), b)"
  shows "int n \<le> rb_Len (rg s) \<and> (\<exists>t. b = (rg s)\<lparr>rb_tmp := t\<rparr>)"
proof (cases "int n \<le> rb_Len (rg s)")
  case True
  then have "int n \<le> int (length (unread (rg s)))" by simp
  with ReadWait_ok [OF ring_invD(1,2) [OF assms(1)], of "int n"] assms(2) True show ?thesis by auto
next
  case False
  then have lt: "rb_Len (rg s) < int n" by simp
  show ?thesis
  proof (cases "int n \<le> rb_size (rg s)")
    case True
    with ReadWait_few(1) [OF ring_invD(2) [OF assms(1)] True lt] assms ring_invD(3) [OF assms(1)] show ?thesis by simp
  next
    case False
    with assms(2) show ?thesis by (simp add: ReadWait_def act_simps)
  qed
qed

lemma inv_space:
  assumes "ring_inv s" and "prod s = PIdle" and "waitForWriteSpace (int (length p)) (rg s) = (Done (start, n, None), b)"
  shows "ring_inv (s\<lparr>rg := b, prod := PCopy start p 0\<rparr>)"
proof -
  from space_found [OF assms(1,3)] obtain gt where "start = cursor (pseq (rg s))" "rb_Len (rg s) + int (length p) \<le> rb_size (rg s)"
      "b = (rg s)\<lparr>pseq := (pseq (rg s))\<lparr>gate := gt\<rparr>\<rparr>" "gt \<le> cursor (cseq (rg s))" by blast
  with assms(1) show ?thesis by (auto simp: ring_inv_def Let_def rb_ok_def rb_Len_def seq_get_def split: consumer.splits)
qed

lemma inv_copies:
  assumes "ring_inv s" and "prod s = PCopy start p i" and "i < length p"
  shows "ring_inv (s\<lparr>rg := (rg s)\<lparr>rb_buf := (rb_buf (rg s))[nat ((start + int i) AND rb_mask (rg s)) := p ! i]\<rparr>, prod := PCopy start p (Suc i)\<rparr>)"
proof -
  note d = ring_invD [OF assms(1)]
  let ?b = "rg s"
  let ?buf = "rb_buf ?b"
  let ?new = "?buf[nat ((start + int i) mod int (length ?buf)) := p ! i]"
  have m: "(start + int i) AND rb_mask ?b = (start + int i) mod int (length ?buf)" using rb_ok_facts(1) [OF d(1)] d(6) by simp
  have c: "start = cursor (pseq ?b)" "cursor (pseq ?b) + int (length p) \<le> cursor (cseq ?b) + rb_size ?b"
      "\<forall>j < i. slot ?buf (start + int j) = p ! j" using assms(1,2) by (auto simp: ring_inv_def Let_def)
  have old: "slot ?new x = slot ?buf x" if "cursor (cseq ?b) \<le> x" "x < start + int i" for x
    by (rule slot_update_other) (use that d(5,6) c assms(3) in auto)
  have new: "slot ?new (start + int i) = p ! i" by (rule slot_update) (use d(5) in simp_all)
  have le: "cursor (cseq ?b) \<le> start" using d(1) c(1) by (simp add: rb_ok_def)
  have "\<forall>j < Suc i. slot ?new (start + int j) = p ! j"
    using new c(3) old le by (auto simp: less_Suc_eq)
  moreover have "\<forall>x. cursor (cseq ?b) \<le> x \<and> x < cursor (pseq ?b) \<longrightarrow> slot ?new x = produced s ! nat x"
    using assms(1) old c(1) by (simp add: ring_inv_def Let_def)
  moreover have "rb_ok (?b\<lparr>rb_buf := ?new\<rparr>)" using d(1) by (simp add: rb_ok_def)
  ultimately show ?thesis using assms c(1,2) unfolding m by (simp add: ring_inv_def Let_def split: consumer.splits)
qed

lemma inv_publishes:
  assumes "ring_inv s" and "prod s = PCopy start p (length p)"
  shows "ring_inv (s\<lparr>rg := (rg s)\<lparr>pseq := seq_set (pseq (rg s)) (start + int (length p))\<rparr>, prod := PIdle, produced := produced s @ p\<rparr>)"
proof -
  note d = ring_invD [OF assms(1)]
  let ?b = "rg s"
  have c: "start = cursor (pseq ?b)" "cursor (pseq ?b) + int (length p) \<le> cursor (cseq ?b) + rb_size ?b"
      "\<forall>j < length p. slot (rb_buf ?b) (start + int j) = p ! j"
      "\<forall>x. cursor (cseq ?b) \<le> x \<and> x < cursor (pseq ?b) \<longrightarrow> slot (rb_buf ?b) x = produced s ! nat x"
    using assms by (auto simp: ring_inv_def Let_def)
  have ok: "0 \<le> cursor (cseq ?b)" "cursor (cseq ?b) \<le> cursor (pseq ?b)" using d(1) by (auto simp: rb_ok_def)
  have "slot (rb_buf ?b) x = (produced s @ p) ! nat x" if x: "cursor (cseq ?b) \<le> x" "x < start + int (length p)" for x
  proof (cases "x < start")
    case True
    with x c(1,4) d(4) ok show ?thesis by (simp add: nth_append nat_less_iff)
  next
    case False
    define j where "j = nat (x - start)"
    have "x = start + int j" "j < length p" using x False by (auto simp: j_def nat_less_iff)
    moreover have "nat (start + int j) = length (produced s) + j" using d(4) c(1) by simp
    ultimately show ?thesis using c(3) by (simp add: nth_append)
  qed
  moreover have "rb_ok (?b\<lparr>pseq := seq_set (pseq ?b) (start + int (length p))\<rparr>)"
    using d(1) c(1,2) by (auto simp: rb_ok_def seq_set_def)
  moreover have "nat (cursor (cseq ?b)) \<le> length (produced s)" using ok d(4) by linarith
  moreover have "length bs + nat (cursor (cseq ?b)) \<le> length (produced s)" if "cons s = CLook cpos n bs" for cpos n bs
  proof -
    have "cursor (cseq ?b) + int n \<le> cursor (pseq ?b)" "length bs \<le> n" using assms(1) that by (auto simp: ring_inv_def Let_def)
    then show ?thesis using ok d(4) by linarith
  qed
  ultimately show ?thesis using assms c(1) d(4)
    by (auto simp: ring_inv_def Let_def seq_set_def take_append split: consumer.splits)
qed

lemma inv_look:
  assumes "ring_inv s" and "cons s = CLook cpos n bs" and "length bs' \<le> n" and "bs' = take (length bs') (drop (nat cpos) (produced s))"
  shows "ring_inv (s\<lparr>cons := CLook cpos n bs'\<rparr>)"
  using assms by (auto simp: ring_inv_def Let_def split: producer.splits)

lemma inv_looks:
  assumes "ring_inv s" and "cons s = CLook cpos n bs" and "length bs < n"
  shows "ring_inv (s\<lparr>cons := CLook cpos n (bs @ [rb_buf (rg s) ! nat ((cpos + int (length bs)) AND rb_mask (rg s))])\<rparr>)"
proof -
  note d = ring_invD [OF assms(1)]
  let ?b = "rg s"
  have c: "cpos = cursor (cseq ?b)" "cursor (cseq ?b) + int n \<le> cursor (pseq ?b)" "bs = take (length bs) (drop (nat cpos) (produced s))"
      "\<forall>x. cursor (cseq ?b) \<le> x \<and> x < cursor (pseq ?b) \<longrightarrow> slot (rb_buf ?b) x = produced s ! nat x"
    using assms(1,2) by (auto simp: ring_inv_def Let_def)
  have nn: "0 \<le> cpos" using d(1) c(1) by (simp add: rb_ok_def)
  have k: "nat cpos + length bs < length (produced s)" using c(1,2) assms(3) d(4) nn by linarith
  have "rb_buf ?b ! nat ((cpos + int (length bs)) AND rb_mask ?b) = slot (rb_buf ?b) (cpos + int (length bs))"
    using rb_ok_facts(1) [OF d(1)] d(6) by (simp add: slot_def)
  also have "\<dots> = produced s ! nat (cpos + int (length bs))" using c(1,2,4) assms(3) by simp
  also have "nat (cpos + int (length bs)) = nat cpos + length bs" using nn by (simp add: nat_add_distrib)
  finally have "bs @ [rb_buf ?b ! nat ((cpos + int (length bs)) AND rb_mask ?b)] = take (Suc (length bs)) (drop (nat cpos) (produced s))"
    using k c(3) take_Suc_conv_app_nth [of "length bs" "drop (nat cpos) (produced s)"] by simp
  then show ?thesis by (intro inv_look [OF assms(1,2)]) (use assms(3) k in simp_all)
qed

lemma inv_commits:
  assumes "ring_inv s" and "cons s = CLook cpos n bs" and "length bs = n" and "ReadCommit (int n) (rg s) = (Done (k, None), b)"
  shows "ring_inv (s\<lparr>rg := b, cons := CIdle, consumed := consumed s @ bs\<rparr>)"
proof -
  note d = ring_invD [OF assms(1)]
  have c: "cpos = cursor (cseq (rg s))" "cursor (cseq (rg s)) + int n \<le> cursor (pseq (rg s))" "bs = take n (drop (nat cpos) (produced s))"
      "consumed s = take (nat cpos) (produced s)"
    using assms(1-3) by (auto simp: ring_inv_def Let_def)
  have nn: "0 \<le> cpos" using d(1) c(1) by (simp add: rb_ok_def)
  have "n \<le> length (unread (rg s))" using c(2) by (simp add: rb_Len_def seq_get_def)
  from ReadCommit_ok [OF d(1,2) this] assms(4) have b: "b = (rg s)\<lparr>cseq := seq_set (cseq (rg s)) (cpos + int n)\<rparr>" "rb_ok b"
    by (auto simp: c(1))
  have "consumed s @ bs = take (nat (cpos + int n)) (produced s)"
    unfolding c(3,4) using nn by (simp add: nat_add_distrib take_add)
  then show ?thesis using assms(1) b c(1) by (auto simp: ring_inv_def Let_def seq_set_def split: producer.splits)
qed

lemma ring_step_inv: "ring_step s t \<Longrightarrow> ring_inv s \<Longrightarrow> ring_inv t"
proof (induction rule: ring_step.induct)
  case (p_waits s n b)
  from space_waits [OF p_waits.prems p_waits.hyps(2)] p_waits.prems show ?case
    by (auto simp: ring_inv_def Let_def split: producer.splits consumer.splits)
next
  case (c_finds s n bs b)
  from data_found [OF c_finds.prems c_finds.hyps(2)] obtain t where "int n \<le> rb_Len (rg s)" "b = (rg s)\<lparr>rb_tmp := t\<rparr>" by blast
  with c_finds.prems show ?case by (auto simp: ring_inv_def Let_def seq_get_def rb_Len_def split: producer.splits)
qed (blast intro: inv_space inv_copies inv_publishes inv_looks inv_commits)+

lemma ring_reach_inv: "ring_reach s t \<Longrightarrow> ring_inv s \<Longrightarrow> ring_inv t"
  by (induction rule: ring_reach.induct) (auto intro: ring_step_inv)

lemma inv_stream:
  assumes "ring_inv s"
  shows "produced s = consumed s @ unread (rg s)"
proof -
  note d = ring_invD [OF assms]
  let ?c = "cursor (cseq (rg s))"
  have c: "0 \<le> ?c" "?c \<le> cursor (pseq (rg s))" using d(1) by (auto simp: rb_ok_def)
  have "unread (rg s) = drop (nat ?c) (produced s)"
  proof (rule nth_equalityI)
    show "length (unread (rg s)) = length (drop (nat ?c) (produced s))" using d(4) c by (simp add: rb_Len_def seq_get_def)
    fix k assume "k < length (unread (rg s))"
    then have k: "k < nat (rb_Len (rg s))" by simp
    then have "unread (rg s) ! k = slot (rb_buf (rg s)) (?c + int k)" by (simp add: unread_def)
    also have "\<dots> = produced s ! nat (?c + int k)" using assms k by (auto simp: ring_inv_def Let_def rb_Len_def seq_get_def)
    finally show "unread (rg s) ! k = drop (nat ?c) (produced s) ! k"
      using k c d(4) by (simp add: nat_add_distrib rb_Len_def seq_get_def)
  qed
  moreover have "consumed s = take (nat ?c) (produced s)" using assms by (simp add: ring_inv_def Let_def)
  ultimately show ?thesis by simp
qed

text \<open>
  C12: a producer and a consumer that run at the same time, with their steps interleaved in any way down to single bytes, never
  disturb each other: the bytes that the consumer has committed, followed by those between the two positions of the ring, are
  the bytes that the producer has published, in order; no byte is overwritten before it is read.
\<close>

theorem interleaved_fifo:
  assumes "newBuffer sz cnt = (Inr b, cnt')" and "sz < 2 ^ 63" and "ring_reach (ring_start b) s"
  shows "produced s = consumed s @ unread (rg s)"
  using inv_stream ring_reach_inv [OF assms(3) ring_inv_start [OF assms(1,2)]] by blast

text \<open>A run: one byte is written and then read.\<close>

lemma example_run:
  assumes "newBuffer 0 0 = (Inr b, 1)"
  shows "\<exists>s. ring_reach (ring_start b) s \<and> produced s = [7] \<and> length (consumed s) = 1"
proof -
  have z: "(0 :: int) < 2 ^ 63" by simp
  let ?s0 = "ring_start b"
  have i0: "ring_inv ?s0" by (rule ring_inv_start [OF assms z])
  have o: "rb_ok b" "unlocked b" "\<not> rb_done b" "rb_Len b + int (length [7 :: byte]) \<le> rb_size b"
    using newBuffer_ok [OF assms z] Len_unread [of b] by auto
  obtain gt where "waitForWriteSpace (int (length [7 :: byte])) (rg ?s0) = (Done (cursor (pseq b), int (length [7 :: byte]), None), b\<lparr>pseq := (pseq b)\<lparr>gate := gt\<rparr>\<rparr>)"
    using waitForWriteSpace_ok [OF o] by (auto simp: ring_start_def)
  from ring_step.p_space [OF _ this] obtain s1 where s1: "ring_step ?s0 s1" "\<exists>st. prod s1 = PCopy st [7] 0" "cons s1 = CIdle" "produced s1 = []" "consumed s1 = []"
    by (force simp: ring_start_def)
  from s1(2) obtain st where "prod s1 = PCopy st [7] 0" by blast
  from ring_step.p_copies [OF this] obtain s2 where s2: "ring_step s1 s2" "prod s2 = PCopy st [7] (length [7 :: byte])" "cons s2 = CIdle" "produced s2 = []" "consumed s2 = []"
    using s1(3-5) by force
  from ring_step.p_publishes [OF s2(2)] obtain s3 where s3: "ring_step s2 s3" "cons s3 = CIdle" "produced s3 = [7]" "consumed s3 = []"
    using s2(3-5) by force
  have i3: "ring_inv s3" using i0 s1(1) s2(1) s3(1) by (blast intro: ring_step_inv)
  have u3: "unread (rg s3) = [7]" using inv_stream [OF i3] s3(3,4) by simp
  obtain t where "ReadWait (int 1) (rg s3) = (Done ([7], None), (rg s3)\<lparr>rb_tmp := t\<rparr>)"
    using ReadWait_ok [OF ring_invD(1,2) [OF i3], of 1] by (auto simp: u3)
  from ring_step.c_finds [OF s3(2) this] obtain s4 where s4: "ring_step s3 s4" "\<exists>cp. cons s4 = CLook cp 1 []" "produced s4 = [7]" "consumed s4 = []"
    using s3(3,4) by force
  from s4(2) obtain cp where "cons s4 = CLook cp 1 []" by blast
  from ring_step.c_looks [OF this] obtain s5 where s5: "ring_step s4 s5" "\<exists>x. cons s5 = CLook cp 1 [x]" "produced s5 = [7]" "consumed s5 = []"
    using s4(3,4) by force
  from s5(2) obtain x where x: "cons s5 = CLook cp 1 [x]" by blast
  have i5: "ring_inv s5" using i3 s4(1) s5(1) by (blast intro: ring_step_inv)
  have "1 \<le> length (unread (rg s5))" using inv_stream [OF i5] s5(3,4) by (metis append_Nil length_Cons list.size(3) One_nat_def order_refl)
  from ReadCommit_ok [OF ring_invD(1,2) [OF i5] this] obtain b' where "ReadCommit (int 1) (rg s5) = (Done (int 1, None), b')" by blast
  from ring_step.c_commits [OF x _ this] obtain s6 where s6: "ring_step s5 s6" "produced s6 = [7]" "length (consumed s6) = 1"
    using s5(3,4) by force
  have "ring_reach ?s0 s6" using s1(1) s2(1) s3(1) s4(1) s5(1) s6(1) by (meson ring_reach.intros)
  with s6 show ?thesis by blast
qed

theorem interleaved_fifo_witness:
  "\<exists>b s. newBuffer 0 0 = (Inr b, 1) \<and> ring_reach (ring_start b) s \<and> produced s = [7] \<and> length (consumed s) = 1
     \<and> produced s = consumed s @ unread (rg s)"
proof -
  obtain b where b: "newBuffer 0 0 = (Inr b, 1)" using example_ring by blast
  obtain s where s: "ring_reach (ring_start b) s" "produced s = [7]" "length (consumed s) = 1" using example_run [OF b] by blast
  have "(0 :: int) < 2 ^ 63" by simp
  from interleaved_fifo [OF b this s(1)] b s show ?thesis by blast
qed

section \<open>Closing against waiting\<close>








end
