(* ===== verification/Ring_Safe.thy ===== *)
theory Ring_Safe
  imports Ring_Steps
begin

unbundle bit_operations_syntax

text \<open>
  Well-formedness of the ring buffer: every operation, on every branch (waiting, on a closed buffer, with a mutex that was left
  locked), keeps it and does not panic.  The proofs compose triples of a precondition, an operation and a postcondition.
\<close>

section \<open>Triples\<close>







section \<open>The parts of the operations\<close>








section \<open>The operations\<close>














section \<open>The loops\<close>

definition fine :: "'r outcome \<times> conn \<times> ringbuf \<Rightarrow> bool" where
  "fine x \<longleftrightarrow> (case x of (r, _, b) \<Rightarrow> r \<noteq> Panicked \<and> rb_ok b)"

lemma fine_simp [simp]: "fine (r, c, b) \<longleftrightarrow> r \<noteq> Panicked \<and> rb_ok b"
  by (simp add: fine_def)








section \<open>Any sequence of operations\<close>










end
