(* ===== verification/Ackqueue.thy ===== *)
theory Ackqueue
  imports Go_Bits Messages
begin

text \<open>
  The queue of messages that wait for their acknowledgement, \<open>src/sessions/ackqueue.go\<close>: a growing ring
  buffer with an index by packet identifier, and a pool of byte buffers.  The refinement lemmas relate it
  to a plain list of messages.

  The mutex is held through every operation, so an operation is one step.  The clock is an argument
  \<open>now\<close>, in seconds; a completion callback is an opaque number.
\<close>

section \<open>Data\<close>

record ackmsg =
  Mtype :: MessageType
  State :: MessageType
  Pktid :: uint16
  Msgbuf :: gslice
  Ackbuf :: gslice
  OnComplete :: "nat option"
  timestamp :: int

abbreviation ackmsg0 :: ackmsg where
  "ackmsg0 \<equiv> \<lparr>Mtype = RESERVED, State = RESERVED, Pktid = 0, Msgbuf = slice_of [], Ackbuf = slice_of [],
             OnComplete = None, timestamp = 0\<rparr>"

text \<open>
  \<open>sync.Pool\<close> hands out any of the items that were put back, or none of them; \<open>picks\<close> says which one.  A pool
  whose \<open>New\<close> was never set returns nil then, and the type assertion on it panics.
\<close>

record BytesPool =
  items :: "gslice list"
  picks :: "nat list"
  has_New :: bool
  width :: int

record Ackqueue =
  qsize :: int
  qmask :: int
  qcount :: int
  qhead :: int
  qtail :: int
  ping :: "ackmsg option"
  ring :: "ackmsg option list"
  emap :: "uint16 \<Rightarrow> int option"
  ackdone :: "ackmsg list"
  pool :: BytesPool
  Done_closed :: bool

abbreviation errQueueEmpty :: error where "errQueueEmpty \<equiv> ErrNew ''queue empty''"
abbreviation errWaitMessage :: error where "errWaitMessage \<equiv> ErrNew ''Invalid message to wait for ack''"
abbreviation errAckMessage :: error where "errAckMessage \<equiv> ErrNew ''Invalid message for acking''"

section \<open>The pool of buffers\<close>

definition BytesPool_init :: "BytesPool \<Rightarrow> BytesPool" where
  "BytesPool_init bp = bp\<lparr>items := [], has_New := True\<rparr>"

definition BytesPool_Get :: "BytesPool \<Rightarrow> int \<Rightarrow> (gslice \<times> BytesPool) option" where
  "BytesPool_Get bp len =
     (if len < width bp then
        (let k = (case picks bp of [] \<Rightarrow> length (items bp) | k # _ \<Rightarrow> k);
             bp = bp\<lparr>picks := tl (picks bp)\<rparr>
         in if k < length (items bp)
            then Some (items bp ! k, bp\<lparr>items := take k (items bp) @ drop (Suc k) (items bp)\<rparr>)
            else if has_New bp then Some (make_bytes 8192, bp) else None)
      else Some (make_bytes len, bp))"

definition BytesPool_Put :: "BytesPool \<Rightarrow> gslice \<Rightarrow> BytesPool" where
  "BytesPool_Put bp bs = (if go_cap bs = width bp then bp\<lparr>items := bs # items bp\<rparr> else bp)"

section \<open>The ring\<close>

text \<open>\<open>this.ring[i]\<close> and \<open>this.ring[i] = v\<close>, with the check of the index.\<close>

definition ring_get :: "Ackqueue \<Rightarrow> int \<Rightarrow> ackmsg option option" where
  "ring_get this i = (if 0 \<le> i \<and> i < int (length (ring this)) then Some (ring this ! nat i) else None)"

definition ring_set :: "Ackqueue \<Rightarrow> int \<Rightarrow> ackmsg option \<Rightarrow> Ackqueue option" where
  "ring_set this i v =
     (if 0 \<le> i \<and> i < int (length (ring this)) then Some (this\<lparr>ring := (ring this)[nat i := v]\<rparr>) else None)"

definition aq_index :: "Ackqueue \<Rightarrow> int \<Rightarrow> int" where
  "aq_index this n = n AND qmask this"

definition aq_increment :: "Ackqueue \<Rightarrow> int \<Rightarrow> int" where
  "aq_increment this n = aq_index this (n + 1)"

definition aq_full :: "Ackqueue \<Rightarrow> bool" where
  "aq_full this \<longleftrightarrow> qcount this = qsize this"

definition aq_empty :: "Ackqueue \<Rightarrow> bool" where
  "aq_empty this \<longleftrightarrow> qcount this = 0"

definition aq_len :: "Ackqueue \<Rightarrow> int" where
  "aq_len this = qcount this"

definition aq_cap :: "Ackqueue \<Rightarrow> int" where
  "aq_cap this = qsize this"

definition newAckqueue :: "int \<Rightarrow> string \<Rightarrow> nat list \<Rightarrow> Ackqueue option" where
  "newAckqueue n t ks =
     (let m = (word_of_int n :: int64);
          m = sint (if powerOfTwo64 m then m else roundUpPowerOfTwo64 m);
          bp = \<lparr>items = [], picks = ks, has_New = False, width = 8192\<rparr>
      in if m < 0 then None
         else Some \<lparr>qsize = m, qmask = m - 1, qcount = 0, qhead = 0, qtail = 0, ping = Some ackmsg0,
                    ring = replicate (nat m) None, emap = Map.empty, ackdone = [],
                    pool = (if t = ''Pub1ack'' then BytesPool_init bp else bp), Done_closed = False\<rparr>)"

text \<open>\<open>copy\<close> on slices of pointers, and \<open>s[a:b]\<close> of a slice that is as long as its capacity.\<close>

definition copy_list :: "'a list \<Rightarrow> 'a list \<Rightarrow> 'a list" where
  "copy_list dst src = (let n = min (length dst) (length src) in take n src @ drop n dst)"

definition list_range :: "'a list \<Rightarrow> int \<Rightarrow> int \<Rightarrow> 'a list option" where
  "list_range xs a b =
     (if 0 \<le> a \<and> a \<le> b \<and> b \<le> int (length xs) then Some (drop (nat a) (take (nat b) xs)) else None)"

text \<open>The loop that enters the messages of the new ring into the new index; a nil entry panics.\<close>

fun grow_emap :: "ackmsg option list \<Rightarrow> int \<Rightarrow> (uint16 \<Rightarrow> int option) \<Rightarrow> (uint16 \<Rightarrow> int option) option" where
  "grow_emap [] i em = Some em"
| "grow_emap (None # r) i em = None"
| "grow_emap (Some a # r) i em = grow_emap r (i + 1) (em(Pktid a \<mapsto> i))"

definition aq_grow :: "Ackqueue \<Rightarrow> Ackqueue option" where
  "aq_grow this =
     (if (2 ^ 63 - 1) div 2 < qsize this then None
      else do {
        let newsize = 2 * qsize this;
        let newring = replicate (nat newsize) None;
        newring \<leftarrow>
          (if qhead this < qtail this then
             do { p \<leftarrow> list_range (ring this) (qhead this) (qtail this); Some (copy_list newring p) }
           else
             do { p \<leftarrow> list_range (ring this) (qhead this) (int (length (ring this)));
                  let newring = copy_list newring p;
                  d \<leftarrow> list_range newring (qsize this - qhead this) (int (length newring));
                  p \<leftarrow> list_range (ring this) 0 (qtail this);
                  Some (take (nat (qsize this - qhead this)) newring @ copy_list d p) });
        let this = this\<lparr>qsize := newsize, qmask := newsize - 1, ring := newring, qhead := 0, qtail := qcount this\<rparr>;
        w \<leftarrow> list_range (ring this) 0 (qtail this);
        em \<leftarrow> grow_emap w 0 Map.empty;
        Some (this\<lparr>emap := em\<rparr>)
      })"

section \<open>Operations\<close>

definition aq_insert ::
    "Ackqueue \<Rightarrow> uint16 \<Rightarrow> message \<Rightarrow> nat option \<Rightarrow> int \<Rightarrow> uint64
     \<Rightarrow> ((Ackqueue \<times> message \<times> error option) \<times> uint64) option" where
  "aq_insert this pktid msg onComplete now g =
     do { this \<leftarrow> (if aq_full this then aq_grow this else Some this);
          case emap this pktid of
            None \<Rightarrow>
              do { (ml, msg) \<leftarrow> message_Len msg;
                   (buf, bp) \<leftarrow> BytesPool_Get (pool this) ml;
                   let this = this\<lparr>pool := bp\<rparr>;
                   let am = \<lparr>Mtype = message_Type msg, State = RESERVED, Pktid = message_PacketId msg,
                             Msgbuf = buf, Ackbuf = slice_of [], OnComplete = onComplete, timestamp = now\<rparr>;
                   ((msg, buf, _, err), g) \<leftarrow> message_Encode msg buf g;
                   let am = am\<lparr>Msgbuf := buf\<rparr>;
                   if err \<noteq> None then Some ((this, msg, err), g)
                   else do {
                     this \<leftarrow> ring_set this (qtail this) (Some am);
                     let this = this\<lparr>emap := (emap this)(pktid \<mapsto> qtail this)\<rparr>;
                     let this = this\<lparr>qtail := aq_increment this (qtail this), qcount := qcount this + 1\<rparr>;
                     Some ((this, msg, None), g)
                   } }
          | Some _ \<Rightarrow>
              (case msg of
                 MPublish pm \<Rightarrow>
                   do { d \<leftarrow> Dup pm;
                        Some ((this, msg,
                               if d then Some (Errorf ''ack/insert: duplicate packet ID for PUBLISH message, but DUP flag is not set'' [])
                               else None), g) }
               | _ \<Rightarrow>
                   Some ((this, msg,
                          Some (Errorf ''ack/insert: duplicate packet ID for %s message'' [FStr (MessageType_Name (message_Type msg))])), g)) }"

text \<open>The error that \<open>insert\<close> returns is dropped.\<close>

definition Wait ::
    "Ackqueue \<Rightarrow> message \<Rightarrow> nat option \<Rightarrow> int \<Rightarrow> uint64 \<Rightarrow> ((Ackqueue \<times> message \<times> error option) \<times> uint64) option" where
  "Wait this msg onComplete now g =
     (let ins = do { ((this, msg, _), g) \<leftarrow> aq_insert this (message_PacketId msg) msg onComplete now g;
                     Some ((this, msg, None), g) }
      in case msg of
           MPublish pm \<Rightarrow>
             do { q \<leftarrow> QoS pm;
                  if q = QosAtMostOnce then Some ((this, msg, Some errWaitMessage), g) else ins }
         | MSubscribe _ \<Rightarrow> ins
         | MUnsubscribe _ \<Rightarrow> ins
         | MPingreq _ \<Rightarrow>
             Some ((this\<lparr>ping := Some (ackmsg0\<lparr>Mtype := PINGREQ, State := RESERVED, OnComplete := onComplete\<rparr>)\<rparr>, msg, None), g)
         | _ \<Rightarrow> Some ((this, msg, Some errWaitMessage), g))"

definition Ack :: "Ackqueue \<Rightarrow> message \<Rightarrow> uint64 \<Rightarrow> ((Ackqueue \<times> message \<times> error option) \<times> uint64) option" where
  "Ack this msg g =
     (let t = message_Type msg
      in if t \<in> {PUBACK, PUBREC, PUBREL, PUBCOMP, SUBACK, UNSUBACK} then
           (case emap this (message_PacketId msg) of
              None \<Rightarrow> Some ((this, msg, None), g)
            | Some i \<Rightarrow>
                do { am \<leftarrow> ring_get this i;
                     am \<leftarrow> am;
                     let am = am\<lparr>State := t\<rparr>;
                     (ml, msg) \<leftarrow> message_Len msg;
                     (buf, bp) \<leftarrow> BytesPool_Get (pool this) ml;
                     ((msg, buf, _, err), g) \<leftarrow> message_Encode msg buf g;
                     this \<leftarrow> ring_set (this\<lparr>pool := bp\<rparr>) i (Some (am\<lparr>Ackbuf := buf\<rparr>));
                     Some ((this, msg, err), g) })
         else if t = PINGRESP then
           do { p \<leftarrow> ping this;
                Some ((if Mtype p = PINGREQ then this\<lparr>ping := Some (p\<lparr>State := PINGRESP\<rparr>)\<rparr> else this, msg, None), g) }
         else Some ((this, msg, Some errAckMessage), g))"

definition removeHead :: "Ackqueue \<Rightarrow> (Ackqueue \<times> error option) option" where
  "removeHead this =
     (if aq_empty this then Some (this, Some errQueueEmpty)
      else do { it \<leftarrow> ring_get this (qhead this);
                this \<leftarrow> ring_set this (qhead this) None;
                let this = this\<lparr>qhead := aq_increment this (qhead this), qcount := qcount this - 1\<rparr>;
                it \<leftarrow> it;
                Some (this\<lparr>emap := (emap this)(Pktid it := None)\<rparr>, None) })"

definition ack_complete :: "MessageType \<Rightarrow> bool" where
  "ack_complete s \<longleftrightarrow> s = PUBACK \<or> s = PUBREL \<or> s = PUBCOMP \<or> s = SUBACK \<or> s = UNSUBACK"

lemma removeHead_count: "removeHead this = Some (q, e) \<Longrightarrow> 0 < qcount this \<Longrightarrow> nat (qcount q) < nat (qcount this)"
  by (auto simp: removeHead_def aq_empty_def ring_get_def ring_set_def Let_def split: bind_splits if_splits)

text \<open>The loop of \<open>Acked\<close>; \<open>count\<close> is a number of messages, so a negative one does not occur.\<close>

function acked_loop :: "Ackqueue \<Rightarrow> Ackqueue option" where
  "acked_loop this =
     (if qcount this \<le> 0 then Some this
      else do {
        am \<leftarrow> ring_get this (qhead this);
        am \<leftarrow> am;
        if ack_complete (State am) then
          (case removeHead (this\<lparr>ackdone := ackdone this @ [am]\<rparr>) of
             None \<Rightarrow> None
           | Some (this, _) \<Rightarrow> acked_loop this)
        else Some this
      })"
  by pat_completeness auto
termination
  by (relation "measure (\<lambda>this. nat (qcount this))") (auto dest: removeHead_count)

declare acked_loop.simps [simp del]

definition Acked :: "Ackqueue \<Rightarrow> Ackqueue option" where
  "Acked this =
     (let this = this\<lparr>ackdone := []\<rparr>;
          this = (case ping this of
                    Some p \<Rightarrow> (if State p = PINGRESP then this\<lparr>ackdone := [p], ping := Some ackmsg0\<rparr> else this)
                  | None \<Rightarrow> this)
      in acked_loop this)"

text \<open>
  The goroutine \<open>Clear\<close>: what it does at a tick of its timer, and when \<open>Done\<close> is closed.  The second result
  says whether the goroutine goes on.
\<close>

definition clear_head :: "Ackqueue \<Rightarrow> ackmsg \<Rightarrow> Ackqueue option" where
  "clear_head this head =
     do { let bp = BytesPool_Put (BytesPool_Put (pool this) (Msgbuf head)) (Ackbuf head);
          this \<leftarrow> ring_set (this\<lparr>pool := bp\<rparr>) (qhead this) None;
          Some (this\<lparr>qhead := aq_increment this (qhead this), qcount := qcount this - 1,
                     emap := (emap this)(Pktid head := None)\<rparr>) }"

lemma clear_head_count: "clear_head this a = Some q \<Longrightarrow> qcount q = qcount this - 1"
  by (auto simp: clear_head_def ring_set_def Let_def split: bind_splits if_splits)

function clear_loop1 :: "int \<Rightarrow> int \<Rightarrow> Ackqueue \<Rightarrow> Ackqueue option" where
  "clear_loop1 now i this =
     (if 0 < qcount this then
        do { h \<leftarrow> ring_get this i;
             case h of
               None \<Rightarrow> Some this
             | Some head \<Rightarrow>
                 (if timestamp head + 5 < now then
                    (case clear_head this head of
                       None \<Rightarrow> None
                     | Some this \<Rightarrow> clear_loop1 now (aq_increment this i) this)
                  else Some this) }
      else Some this)"
  by pat_completeness auto
termination
  by (relation "measure (\<lambda>(now, i, this). nat (qcount this))") (auto dest!: clear_head_count)

declare clear_loop1.simps [simp del]

definition Clear_tick :: "int \<Rightarrow> Ackqueue \<Rightarrow> (Ackqueue \<times> bool) option" where
  "Clear_tick now this =
     (if length (ring this) = 0 then Some (this, False)
      else map_option (\<lambda>this. (this, True)) (clear_loop1 now (qhead this) this))"

function clear_loop2 :: "Ackqueue \<Rightarrow> Ackqueue option" where
  "clear_loop2 this =
     (if 0 < qcount this then
        do { h \<leftarrow> ring_get this (qhead this);
             case h of
               None \<Rightarrow> Some this
             | Some head \<Rightarrow>
                 (case clear_head this head of
                    None \<Rightarrow> None
                  | Some this \<Rightarrow> clear_loop2 this) }
      else Some this)"
  by pat_completeness auto
termination
  by (relation "measure (\<lambda>this. nat (qcount this))") (auto dest!: clear_head_count)

declare clear_loop2.simps [simp del]

definition Clear_done :: "Ackqueue \<Rightarrow> (Ackqueue \<times> bool) option" where
  "Clear_done this =
     (if length (ring this) = 0 then Some (this, False)
      else map_option (\<lambda>this. (this, False)) (clear_loop2 this))"

text \<open>Closing \<open>Done\<close> a second time panics.  A nil map reads as the empty one.\<close>

definition aq_Stop :: "Ackqueue \<Rightarrow> Ackqueue option" where
  "aq_Stop this =
     (if Done_closed this then None
      else Some (this\<lparr>ping := None, ring := [], ackdone := [], emap := Map.empty, Done_closed := True\<rparr>))"

section \<open>The queue as a list\<close>

text \<open>The place in the ring of the message number \<open>k\<close>, counted from the head.\<close>

definition slot :: "Ackqueue \<Rightarrow> nat \<Rightarrow> int" where
  "slot q k = (qhead q + int k) mod qsize q"

definition ring_ok :: "Ackqueue \<Rightarrow> bool" where
  "ring_ok q \<longleftrightarrow>
     (\<exists>k. qsize q = 2 ^ k) \<and> qmask q = qsize q - 1 \<and> 0 \<le> qhead q \<and> qhead q < qsize q
     \<and> 0 \<le> qcount q \<and> qcount q \<le> qsize q \<and> qtail q = (qhead q + qcount q) mod qsize q
     \<and> int (length (ring q)) = qsize q"

text \<open>
  The queue holds the messages \<open>ms\<close>, in this order: they are in the ring from the head on, their packet
  identifiers are distinct, and the index finds exactly them.
\<close>

definition queue_of :: "Ackqueue \<Rightarrow> ackmsg list \<Rightarrow> bool" where
  "queue_of q ms \<longleftrightarrow>
     ring_ok q \<and> qcount q = int (length ms)
     \<and> (\<forall>k < length ms. ring q ! nat (slot q k) = Some (ms ! k))
     \<and> distinct (map Pktid ms)
     \<and> (\<forall>p i. emap q p = Some i \<longleftrightarrow> (\<exists>k < length ms. Pktid (ms ! k) = p \<and> i = slot q k))"

lemma ring_ok_size: "ring_ok q \<Longrightarrow> 0 < qsize q"
  by (auto simp: ring_ok_def)

lemma increment_mod: "ring_ok q \<Longrightarrow> aq_increment q n = (n + 1) mod qsize q"
  by (auto simp: ring_ok_def aq_increment_def aq_index_def and_mask_int)

lemma slot_bounds: "ring_ok q \<Longrightarrow> 0 \<le> slot q k \<and> slot q k < int (length (ring q)) \<and> nat (slot q k) < length (ring q)"
  using ring_ok_size [of q] by (auto simp: slot_def ring_ok_def nat_less_iff)

lemma slot_inj:
  assumes "ring_ok q" and "slot q i = slot q j" and "int i < qsize q" and "int j < qsize q"
  shows "i = j"
proof -
  have "qsize q dvd (qhead q + int i) - (qhead q + int j)"
    using assms(2) unfolding slot_def by (simp only: mod_eq_dvd_iff)
  then have "qsize q dvd int i - int j" by simp
  moreover have "\<bar>int i - int j\<bar> < qsize q" using assms(3,4) by linarith
  ultimately show ?thesis using dvd_imp_le_int [of "int i - int j" "qsize q"] ring_ok_size [OF assms(1)] by fastforce
qed

lemma slot_0: "ring_ok q \<Longrightarrow> slot q 0 = qhead q"
  by (simp add: slot_def ring_ok_def)

lemma queue_of_new:
  assumes "newAckqueue n t ks = Some q" and "1 \<le> n" and "n \<le> 2 ^ 62"
  shows "queue_of q []" and "n \<le> qsize q" and "qsize q < 2 * n"
proof -
  have n: "(word_of_int n :: int64) = of_nat (nat n)" using assms(2) by simp
  have un: "unat (of_nat (nat n) :: int64) = nat n" using assms(2,3) by (intro unat_small) simp
  define m :: int64 where "m = (if powerOfTwo64 (of_nat (nat n)) then of_nat (nat n) else roundUpPowerOfTwo64 (of_nat (nat n)))"
  have "\<exists>k \<le> 62. unat m = 2 ^ k \<and> nat n \<le> 2 ^ k \<and> 2 ^ k < 2 * nat n"
  proof (cases "powerOfTwo64 (of_nat (nat n))")
    case True
    then obtain k where k: "nat n = 2 ^ k" using un by (auto simp: powerOfTwo64_iff)
    then have "(2::nat) ^ k \<le> 2 ^ 62" using assms(3) by (simp add: nat_le_iff flip: k)
    then have "k \<le> 62" by (simp only: power_increasing_iff)
    with True k un show ?thesis by (intro exI [of _ k]) (simp add: m_def nat_power_eq)
  next
    case False
    with assms(2,3) roundUpPowerOfTwo64_spec [of "nat n"] show ?thesis by (simp add: m_def nat_le_iff)
  qed
  then obtain k where k: "k \<le> 62" "unat m = 2 ^ k" "nat n \<le> 2 ^ k" "2 ^ k < 2 * nat n" by blast
  have "sint m = 2 ^ k"
  proof -
    have "uint m = 2 ^ k" using arg_cong [OF k(2), of int] by simp
    moreover have "(2::int) ^ k \<le> 2 ^ 62" using k(1) by (intro power_increasing) simp_all
    moreover have "- (2 ^ 63) \<le> (2::int) ^ k" by (rule order_trans [of _ 0]) simp_all
    ultimately show ?thesis unfolding sint_uint by (subst signed_take_bit_int_eq_self) simp_all
  qed
  then have q: "qsize q = 2 ^ k" "qmask q = 2 ^ k - 1" "qcount q = 0" "qhead q = 0" "qtail q = 0"
      "length (ring q) = 2 ^ k" "emap q = Map.empty"
    using assms(1) by (auto simp: newAckqueue_def Let_def n m_def [symmetric] nat_power_eq split: if_splits)
  then show "queue_of q []" by (auto simp: queue_of_def ring_ok_def)
  have "int (nat n) \<le> int (2 ^ k)" "int (2 ^ k) < int (2 * nat n)" using k(3,4) by presburger+
  then show "n \<le> qsize q" "qsize q < 2 * n" using q(1) assms(2) by simp_all
qed

text \<open>Adding at the tail, taking from the head, changing a message in place.\<close>

lemma queue_of_push:
  assumes q: "queue_of q ms" and room: "qcount q < qsize q" and new: "emap q (Pktid a) = None"
  shows "queue_of (q\<lparr>ring := (ring q)[nat (qtail q) := Some a], emap := (emap q)(Pktid a \<mapsto> qtail q),
            qtail := (qtail q + 1) mod qsize q, qcount := qcount q + 1\<rparr>) (ms @ [a])" (is "queue_of ?q _")
proof -
  have ok: "ring_ok q" and len: "qcount q = int (length ms)" using q by (simp_all add: queue_of_def)
  have t: "qtail q = slot q (length ms)" using ok len by (simp add: ring_ok_def slot_def)
  have sl: "slot ?q k = slot q k" for k by (simp add: slot_def)
  have ne: "slot q k \<noteq> qtail q" if "k < length ms" for k
    using slot_inj [OF ok, of k "length ms"] that room len t by auto
  have em: "emap q p = Some i \<longleftrightarrow> (\<exists>k < length ms. Pktid (ms ! k) = p \<and> i = slot q k)" for p i
    using q by (simp add: queue_of_def)
  have nid: "Pktid a \<noteq> Pktid (ms ! k)" if "k < length ms" for k using em [of "Pktid (ms ! k)" "slot q k"] new that by auto
  have "ring_ok ?q"
    using ok room t by (auto simp: ring_ok_def slot_def mod_simps algebra_simps)
  moreover have "ring ?q ! nat (slot ?q k) = Some ((ms @ [a]) ! k)" if "k < length (ms @ [a])" for k
  proof (cases "k < length ms")
    case True
    with ne slot_bounds [OF ok] have "nat (slot q k) \<noteq> nat (qtail q)" by (metis int_nat_eq t)
    with True q show ?thesis unfolding sl by (simp add: queue_of_def nth_append)
  next
    case False
    with that have "k = length ms" by simp
    then show ?thesis unfolding sl using slot_bounds [OF ok, of "length ms"] t by simp
  qed
  moreover have "Pktid a \<notin> set (map Pktid ms)" using nid by (metis in_set_conv_nth length_map nth_map)
  then have "distinct (map Pktid (ms @ [a]))" using q by (simp add: queue_of_def)
  moreover have "emap ?q p = Some i \<longleftrightarrow> (\<exists>k < length (ms @ [a]). Pktid ((ms @ [a]) ! k) = p \<and> i = slot ?q k)" for p i
  proof (cases "p = Pktid a")
    case True
    with nid have "\<not> (\<exists>k < length ms. Pktid (ms ! k) = p \<and> i = slot q k)" by metis
    with True show ?thesis unfolding sl using t by (auto simp: less_Suc_eq nth_append)
  next
    case False
    then show ?thesis unfolding sl using em [of p i] by (auto simp: less_Suc_eq nth_append)
  qed
  ultimately show ?thesis using len by (simp add: queue_of_def)
qed

lemma queue_of_pop:
  assumes q: "queue_of q (a # ms)"
  shows "queue_of (q\<lparr>ring := (ring q)[nat (qhead q) := None], qhead := (qhead q + 1) mod qsize q,
            qcount := qcount q - 1, emap := (emap q)(Pktid a := None)\<rparr>) ms" (is "queue_of ?q _")
proof -
  have ok: "ring_ok q" and len: "qcount q = int (Suc (length ms))" using q by (simp_all add: queue_of_def)
  have room: "int (Suc (length ms)) \<le> qsize q" using ok len by (simp add: ring_ok_def)
  have sl: "slot ?q k = slot q (Suc k)" for k
    by (simp add: slot_def mod_add_left_eq add.assoc)
  have ne: "slot q (Suc k) \<noteq> qhead q" if "k < length ms" for k
    using slot_inj [OF ok, of "Suc k" 0] that room slot_0 [OF ok] ring_ok_size [OF ok] by auto
  have em: "emap q p = Some i \<longleftrightarrow> (\<exists>k < Suc (length ms). Pktid ((a # ms) ! k) = p \<and> i = slot q k)" for p i
    using q by (simp add: queue_of_def)
  have "ring_ok ?q"
    using ok len ring_ok_size [OF ok] by (auto simp: ring_ok_def mod_simps algebra_simps)
  moreover have "ring ?q ! nat (slot ?q k) = Some (ms ! k)" if "k < length ms" for k
  proof -
    have "nat (slot q (Suc k)) \<noteq> nat (qhead q)"
      using ne [OF that] slot_bounds [OF ok, of "Suc k"] ok by (auto simp: ring_ok_def)
    moreover have "ring q ! nat (slot q (Suc k)) = Some ((a # ms) ! Suc k)"
      using q that unfolding queue_of_def by (metis length_Cons Suc_mono)
    ultimately show ?thesis unfolding sl by simp
  qed
  moreover have "emap ?q p = Some i \<longleftrightarrow> (\<exists>k < length ms. Pktid (ms ! k) = p \<and> i = slot ?q k)" for p i
  proof -
    have "Pktid (ms ! k) \<noteq> Pktid a" if "k < length ms" for k
      using q imageI [OF nth_mem [OF that], of Pktid] by (auto simp: queue_of_def simp del: nth_mem)
    then show ?thesis unfolding sl using em [of p i] by (auto simp: less_Suc_eq_0_disj)
  qed
  ultimately show ?thesis using q len by (simp add: queue_of_def)
qed

lemma queue_of_change:
  assumes q: "queue_of q ms" and k: "k < length ms" and id: "Pktid a = Pktid (ms ! k)"
  shows "queue_of (q\<lparr>ring := (ring q)[nat (slot q k) := Some a]\<rparr>) (ms[k := a])" (is "queue_of ?q _")
proof -
  have ok: "ring_ok q" and len: "qcount q = int (length ms)" using q by (simp_all add: queue_of_def)
  have sl: "slot ?q j = slot q j" for j by (simp add: slot_def)
  have "ring ?q ! nat (slot ?q j) = Some (ms[k := a] ! j)" if "j < length ms" for j
  proof (cases "j = k")
    case True
    then show ?thesis unfolding sl using slot_bounds [OF ok, of k] k by simp
  next
    case False
    have "int (length ms) \<le> qsize q" using ok len by (simp add: ring_ok_def)
    with False k that slot_inj [OF ok, of j k] have "slot q j \<noteq> slot q k" by auto
    then have "nat (slot q j) \<noteq> nat (slot q k)" using slot_bounds [OF ok] by (metis int_nat_eq)
    with False q that show ?thesis unfolding sl by (simp add: queue_of_def)
  qed
  moreover have "map Pktid (ms[k := a]) = map Pktid ms" using k id by (simp add: map_update list_update_same_conv)
  moreover have "(\<exists>j < length ms. Pktid (ms[k := a] ! j) = p \<and> i = slot q j) \<longleftrightarrow> emap q p = Some i" for p i
  proof -
    have "j < length ms \<Longrightarrow> Pktid (ms[k := a] ! j) = Pktid (ms ! j)" for j
      using k id by (cases "j = k") simp_all
    then have "(\<exists>j < length ms. Pktid (ms[k := a] ! j) = p \<and> i = slot q j) \<longleftrightarrow>
        (\<exists>j < length ms. Pktid (ms ! j) = p \<and> i = slot q j)" by metis
    then show ?thesis using q by (simp add: queue_of_def)
  qed
  moreover have "ring_ok ?q" using ok by (simp add: ring_ok_def)
  ultimately show ?thesis using q unfolding queue_of_def sl by simp
qed

text \<open>Growing keeps the messages and their order, moved to the start of the new ring.\<close>

lemma grow_emap_ok:
  "distinct (map Pktid ms) \<Longrightarrow>
   \<exists>em'. grow_emap (map Some ms) i em = Some em'
     \<and> (\<forall>p j. em' p = Some j \<longleftrightarrow>
          (\<exists>k < length ms. Pktid (ms ! k) = p \<and> j = i + int k) \<or> (p \<notin> Pktid ` set ms \<and> em p = Some j))"
proof (induction ms arbitrary: i em)
  case (Cons a ms)
  then obtain em' where em': "grow_emap (map Some ms) (i + 1) (em(Pktid a \<mapsto> i)) = Some em'"
      "\<And>p j. em' p = Some j \<longleftrightarrow> (\<exists>k < length ms. Pktid (ms ! k) = p \<and> j = i + 1 + int k)
         \<or> (p \<notin> Pktid ` set ms \<and> (em(Pktid a \<mapsto> i)) p = Some j)"
    by (auto simp del: fun_upd_apply) blast
  have a: "Pktid a \<notin> Pktid ` set ms" using Cons.prems by simp
  have "(\<exists>k < Suc (length ms). Pktid ((a # ms) ! k) = p \<and> j = i + int k) \<longleftrightarrow>
      (p = Pktid a \<and> j = i) \<or> (\<exists>k < length ms. Pktid (ms ! k) = p \<and> j = i + 1 + int k)" for p j
    by (auto simp: less_Suc_eq_0_disj add.assoc)
  then show ?case using em' a by auto
qed simp

lemma ring_ok_head:
  assumes "ring_ok q"
  obtains h where "qhead q = int h" "h < length (ring q)" "qsize q = int (length (ring q))"
proof -
  have "qhead q = int (nat (qhead q))" "nat (qhead q) < length (ring q)" "qsize q = int (length (ring q))"
    using assms by (auto simp: ring_ok_def)
  with that show thesis by blast
qed

lemma rotate_ring:
  assumes q: "queue_of q ms" and full: "aq_full q"
    and h: "qhead q = int h" "h < length (ring q)" "qsize q = int (length (ring q))"
  shows "drop h (ring q) @ take h (ring q) = map Some ms"
proof (rule nth_equalityI)
  have ok: "ring_ok q" and len: "length ms = length (ring q)"
    using q full by (auto simp: queue_of_def ring_ok_def aq_full_def)
  let ?s = "length (ring q)"
  from h show "length (drop h (ring q) @ take h (ring q)) = length (map Some ms)" using len by simp
  fix k assume "k < length (drop h (ring q) @ take h (ring q))"
  then have k: "k < ?s" using h by simp
  have "nat (slot q k) = (if k < ?s - h then h + k else k - (?s - h))"
  proof (cases "k < ?s - h")
    case True
    then have "slot q k = int (h + k)" using h by (simp add: slot_def)
    then show ?thesis using True by simp
  next
    case False
    then have "int h + int k = int (k - (?s - h)) + int ?s" using h k by (simp add: of_nat_diff)
    then have "slot q k = (int (k - (?s - h)) + int ?s) mod int ?s" using h by (simp add: slot_def)
    also have "\<dots> = int (k - (?s - h))" unfolding mod_add_self2 using h k by (intro mod_pos_pos_trivial) simp_all
    finally show ?thesis using False by simp
  qed
  then have "(drop h (ring q) @ take h (ring q)) ! k = ring q ! nat (slot q k)"
    using h k by (simp add: nth_append)
  then show "(drop h (ring q) @ take h (ring q)) ! k = map Some ms ! k"
    using q k len by (simp add: queue_of_def)
qed

lemma grow_ok:
  assumes q: "queue_of q ms" and full: "aq_full q" and room: "qsize q \<le> (2 ^ 63 - 1) div 2"
  shows "\<exists>em. aq_grow q = Some (q\<lparr>qsize := 2 * qsize q, qmask := 2 * qsize q - 1,
            ring := map Some ms @ replicate (length ms) None, qhead := 0, qtail := int (length ms), emap := em\<rparr>)
           \<and> queue_of (q\<lparr>qsize := 2 * qsize q, qmask := 2 * qsize q - 1,
            ring := map Some ms @ replicate (length ms) None, qhead := 0, qtail := int (length ms), emap := em\<rparr>) ms"
proof -
  let ?s = "length (ring q)"
  have ok: "ring_ok q" and dist: "distinct (map Pktid ms)" using q by (simp_all add: queue_of_def)
  have len: "length ms = ?s" "qcount q = int ?s" using q full by (auto simp: queue_of_def ring_ok_def aq_full_def)
  obtain h where h: "qhead q = int h" "h < ?s" "qsize q = int ?s" using ok by (rule ring_ok_head)
  have t: "qtail q = int h" using ok len(2) h by (auto simp: ring_ok_def)
  have r: "drop h (ring q) @ take h (ring q) = map Some ms" by (rule rotate_ring [OF q full h])
  obtain em where em: "grow_emap (map Some ms) 0 Map.empty = Some em"
      "\<And>p j. em p = Some j \<longleftrightarrow> (\<exists>k < length ms. Pktid (ms ! k) = p \<and> j = int k)"
    using grow_emap_ok [OF dist, of 0 Map.empty] by auto
  let ?q = "q\<lparr>qsize := 2 * qsize q, qmask := 2 * qsize q - 1,
            ring := map Some ms @ replicate (length ms) None, qhead := 0, qtail := int (length ms), emap := em\<rparr>"
  have "aq_grow q = Some ?q"
  proof -
    have c1: "copy_list (replicate (2 * ?s) None) (drop h (ring q)) = drop h (ring q) @ replicate (h + ?s) None"
      using h(2) by (simp add: copy_list_def)
    have d1: "list_range (drop h (ring q) @ replicate (h + ?s) None) (int ?s - int h)
        (int (length (drop h (ring q) @ replicate (h + ?s) None))) = Some (replicate (h + ?s) None)"
      using h(2) by (simp add: list_range_def nat_diff_distrib)
    have c2: "copy_list (replicate (h + ?s) None) (take h (ring q)) = take h (ring q) @ replicate ?s None"
      using h(2) by (simp add: copy_list_def min_def)
    have r2: "drop h (ring q) @ take h (ring q) @ replicate ?s None = map Some ms @ replicate ?s None"
      by (simp flip: r)
    have "list_range (map Some ms @ replicate ?s None) 0 (int ?s) = Some (map Some ms)"
      using len(1) by (simp add: list_range_def)
    then show ?thesis
      using room em(1) h len
      by (simp add: r2 aq_grow_def t nat_mult_distrib list_range_def [of "ring q"] c1 d1 c2 nat_diff_distrib Let_def
          del: length_append)
  qed
  moreover have "queue_of ?q ms"
  proof -
    have sl: "slot ?q k = int k" if "k < length ms" for k using that len h by (simp add: slot_def)
    have "ring_ok ?q"
      using ok len h by (auto simp: ring_ok_def intro: exI [of _ "Suc _"])
    moreover have "em p = Some i \<longleftrightarrow> (\<exists>k < length ms. Pktid (ms ! k) = p \<and> i = slot ?q k)" for p i
      unfolding em(2) using sl by metis
    ultimately show ?thesis using len dist sl by (simp add: queue_of_def nth_append)
  qed
  ultimately show ?thesis by blast
qed

end
