(* ===== verification/Session.thy ===== *)
theory Session
  imports Ackqueue Go_Maps
begin

text \<open>
  Sessions: \<open>src/sessions/session.go\<close> (one session and what it stores), \<open>src/sessions/memprovider.go\<close> (sessions by
  client identifier, in memory) and \<open>src/sessions/sessions.go\<close> (the registry of providers and the manager).
  Every operation holds the session's mutex throughout and is one step.
\<close>

section \<open>A session\<close>

text \<open>
  \<open>topics\<close> is a Go map: \<open>None\<close> is the nil map, on which a write panics; otherwise the entries in the order in
  which a loop visits them.
\<close>

record Session =
  Pub1ack :: "Ackqueue option"
  Pub2in :: "Ackqueue option"
  Pub2out :: "Ackqueue option"
  Suback_queue :: "Ackqueue option"
  Unsuback_queue :: "Ackqueue option"
  Pingack :: "Ackqueue option"
  Cmsg :: "ConnectMessage option"
  Will :: "PublishMessage option"
  Retained_msg :: "PublishMessage option"
  cbuf :: gslice
  rbuf :: gslice
  session_topics :: "(string \<times> byte) list option"
  initted :: bool
  session_id :: bytes

abbreviation defaultQueueSize :: int where "defaultQueueSize \<equiv> 16"

definition session0 :: "bytes \<Rightarrow> Session" where
  "session0 sid =
     \<lparr>Pub1ack = None, Pub2in = None, Pub2out = None, Suback_queue = None, Unsuback_queue = None, Pingack = None,
      Cmsg = None, Will = None, Retained_msg = None, cbuf = slice_of [], rbuf = slice_of [], session_topics = None,
      initted = False, session_id = sid\<rparr>"

text \<open>
  The part that \<open>Init\<close> and \<open>Update\<close> share: a copy of the CONNECT message is made by encoding it into \<open>cbuf\<close> and
  decoding it again.  The result is the session, the message (whose caches \<open>Len\<close> and \<open>Encode\<close> may set) and
  the error.
\<close>

definition copy_connect :: "Session \<Rightarrow> ConnectMessage \<Rightarrow> (Session \<times> ConnectMessage \<times> error option) option" where
  "copy_connect this msg =
     (let (n, msg) = connect_Len msg;
          this = this\<lparr>cbuf := make_bytes n, Cmsg := Some NewConnectMessage\<rparr>
      in do { (msg, buf, _, err) \<leftarrow> connect_Encode msg (cbuf this);
              let this = this\<lparr>cbuf := buf\<rparr>;
              if err \<noteq> None then Some (this, msg, err)
              else do { (c, _, err) \<leftarrow> connect_Decode NewConnectMessage (cbuf this);
                        Some (this\<lparr>Cmsg := Some c\<rparr>, msg, err) } })"

text \<open>The will message; the errors of the setters are dropped.\<close>

definition will_of :: "ConnectMessage \<Rightarrow> PublishMessage option" where
  "will_of c =
     do { (w, _) \<leftarrow> SetQoS NewPublishMessage (WillQos c);
          let w = fst (SetTopic w (willTopic c));
          let w = SetPayload w (willMessage c);
          SetRetain w (WillRetain c) }"

definition Session_Init :: "Session \<Rightarrow> ConnectMessage \<Rightarrow> nat list \<Rightarrow> (Session \<times> ConnectMessage \<times> error option) option" where
  "Session_Init this msg ks =
     (if initted this then Some (this, msg, Some (Errorf ''Session already initialized'' []))
      else do {
        (this, msg, err) \<leftarrow> copy_connect this msg;
        if err \<noteq> None then Some (this, msg, err)
        else do {
          c \<leftarrow> Cmsg this;
          this \<leftarrow> (if WillFlag c then do { w \<leftarrow> will_of c; Some (this\<lparr>Will := Some w\<rparr>) } else Some this);
          let this = this\<lparr>session_topics := Some [], session_id := clientId msg\<rparr>;
          q1 \<leftarrow> newAckqueue defaultQueueSize ''Pub1ack'' ks;
          q2 \<leftarrow> newAckqueue defaultQueueSize ''Pub2in'' [];
          q3 \<leftarrow> newAckqueue defaultQueueSize ''Pub2out'' [];
          q4 \<leftarrow> newAckqueue defaultQueueSize ''Suback'' [];
          q5 \<leftarrow> newAckqueue defaultQueueSize ''Unsuback'' [];
          q6 \<leftarrow> newAckqueue defaultQueueSize ''Pingack'' [];
          Some (this\<lparr>Pub1ack := Some q1, Pub2in := Some q2, Pub2out := Some q3, Suback_queue := Some q4,
                     Unsuback_queue := Some q5, Pingack := Some q6, initted := True\<rparr>, msg, None)
        }
      })"

definition Session_Update :: "Session \<Rightarrow> ConnectMessage \<Rightarrow> (Session \<times> ConnectMessage \<times> error option) option" where
  "Session_Update this msg = copy_connect this msg"

definition RetainMessage ::
    "Session \<Rightarrow> PublishMessage \<Rightarrow> uint64 \<Rightarrow> ((Session \<times> PublishMessage \<times> error option) \<times> uint64) option" where
  "RetainMessage this msg g =
     do { (n, msg) \<leftarrow> publish_Len msg;
          let this = this\<lparr>rbuf := make_bytes n, Retained_msg := Some NewPublishMessage\<rparr>;
          ((msg, buf, _, err), g) \<leftarrow> publish_Encode msg (rbuf this) g;
          let this = this\<lparr>rbuf := buf\<rparr>;
          if err \<noteq> None then Some ((this, msg, err), g)
          else do { (r, _, err) \<leftarrow> publish_Decode NewPublishMessage (rbuf this);
                    Some ((this\<lparr>Retained_msg := Some r\<rparr>, msg, err), g) } }"

abbreviation errNotInitialized :: error where
  "errNotInitialized \<equiv> Errorf ''Session not yet initialized'' []"

definition Session_AddTopic :: "Session \<Rightarrow> string \<Rightarrow> byte \<Rightarrow> (Session \<times> error option) option" where
  "Session_AddTopic this tpc qos =
     (if \<not> initted this then Some (this, Some errNotInitialized)
      else case session_topics this of
        None \<Rightarrow> None
      | Some ts \<Rightarrow> Some (this\<lparr>session_topics := Some (AList.update tpc qos ts)\<rparr>, None))"

definition Session_RemoveTopic :: "Session \<Rightarrow> string \<Rightarrow> Session \<times> error option" where
  "Session_RemoveTopic this tpc =
     (if \<not> initted this then (this, Some errNotInitialized)
      else (this\<lparr>session_topics := map_option (AList.delete tpc) (session_topics this)\<rparr>, None))"

definition Session_Topics :: "Session \<Rightarrow> string list \<times> byte list \<times> error option" where
  "Session_Topics this =
     (if \<not> initted this then ([], [], Some errNotInitialized)
      else (let ts = (case session_topics this of Some ts \<Rightarrow> ts | None \<Rightarrow> []) in (map fst ts, map snd ts, None)))"

text \<open>A nil session panics.\<close>

definition Session_ID :: "Session option \<Rightarrow> bytes option" where
  "Session_ID this =
     map_option (\<lambda>this. case Cmsg this of Some c \<Rightarrow> clientId c | None \<Rightarrow> session_id this) this"

text \<open>\<open>Stop\<close> of a queue that is nil panics.\<close>

definition Session_Stop :: "Session \<Rightarrow> Session option" where
  "Session_Stop this =
     do { q1 \<leftarrow> Pub1ack this; _ \<leftarrow> aq_Stop q1;
          q2 \<leftarrow> Pingack this; _ \<leftarrow> aq_Stop q2;
          q3 \<leftarrow> Pub2out this; _ \<leftarrow> aq_Stop q3;
          q4 \<leftarrow> Pub2in this; _ \<leftarrow> aq_Stop q4;
          q5 \<leftarrow> Unsuback_queue this; _ \<leftarrow> aq_Stop q5;
          q6 \<leftarrow> Suback_queue this; _ \<leftarrow> aq_Stop q6;
          Some (this\<lparr>Pub1ack := None, Pingack := None, Pub2out := None, Pub2in := None, Unsuback_queue := None,
                     Suback_queue := None, cbuf := slice_of [], Cmsg := None, session_topics := None\<rparr>) }"

section \<open>The provider in memory\<close>

text \<open>Sessions are shared by pointers: \<open>st\<close> maps an identifier to a place in the store of sessions.\<close>

record memProvider =
  st :: "(bytes \<times> nat) list"
  sess_store :: "Session list"

definition sessions_NewMemProvider :: memProvider where
  "sessions_NewMemProvider = \<lparr>st = [], sess_store = []\<rparr>"

definition memProvider_New :: "memProvider \<Rightarrow> bytes \<Rightarrow> memProvider \<times> nat \<times> error option" where
  "memProvider_New this sid =
     (let p = length (sess_store this)
      in (this\<lparr>st := AList.update sid p (st this), sess_store := sess_store this @ [session0 sid]\<rparr>, p, None))"

definition memProvider_Get :: "memProvider \<Rightarrow> bytes \<Rightarrow> nat option \<times> error option" where
  "memProvider_Get this sid =
     (case map_of (st this) sid of
        None \<Rightarrow> (None, Some (Errorf ''store/Get: No session found for key %s'' [FBytes sid]))
      | Some p \<Rightarrow> (Some p, None))"

definition memProvider_Del :: "memProvider \<Rightarrow> bytes \<Rightarrow> memProvider" where
  "memProvider_Del this sid = this\<lparr>st := AList.delete sid (st this)\<rparr>"

definition memProvider_Save :: "memProvider \<Rightarrow> bytes \<Rightarrow> error option" where
  "memProvider_Save this sid = None"

definition memProvider_Count :: "memProvider \<Rightarrow> int" where
  "memProvider_Count this = int (length (st this))"

definition memProvider_Close :: "memProvider \<Rightarrow> memProvider \<times> error option" where
  "memProvider_Close this = (this\<lparr>st := []\<rparr>, None)"

section \<open>The registry and the manager\<close>

record sessions_pkg =
  sess_providers :: "(string \<times> nat) list"
  sess_objects :: "memProvider list"

definition sessions_Register :: "sessions_pkg \<Rightarrow> string \<Rightarrow> nat option \<Rightarrow> sessions_pkg option" where
  "sessions_Register pkg name provider =
     (case provider of
        None \<Rightarrow> None
      | Some p \<Rightarrow>
          (if map_of (sess_providers pkg) name \<noteq> None then None
           else Some (pkg\<lparr>sess_providers := (name, p) # sess_providers pkg\<rparr>)))"

definition sessions_Unregister :: "sessions_pkg \<Rightarrow> string \<Rightarrow> sessions_pkg" where
  "sessions_Unregister pkg name = pkg\<lparr>sess_providers := AList.delete name (sess_providers pkg)\<rparr>"

definition sessions_init :: "sessions_pkg \<Rightarrow> sessions_pkg option" where
  "sessions_init pkg =
     sessions_Register (pkg\<lparr>sess_objects := sess_objects pkg @ [sessions_NewMemProvider]\<rparr>) ''mem'' (Some (length (sess_objects pkg)))"

definition sessions_NewManager :: "sessions_pkg \<Rightarrow> string \<Rightarrow> nat option \<times> error option" where
  "sessions_NewManager pkg providerName =
     (case map_of (sess_providers pkg) providerName of
        None \<Rightarrow> (None, Some (Errorf ''session: unknown provider %q'' [FStr providerName]))
      | Some p \<Rightarrow> (Some p, None))"

text \<open>\<open>base64.URLEncoding\<close>, with padding.\<close>

definition b64char :: "byte \<Rightarrow> byte" where
  "b64char v =
     (if v < 26 then v + 65 else if v < 52 then v + 71 else if v < 62 then v - 4 else if v = 62 then 45 else 95)"

fun b64url :: "bytes \<Rightarrow> bytes" where
  "b64url (a # b # c # r) =
     b64char (drop_bit 2 a) # b64char ((push_bit 4 a AND 0x30) OR drop_bit 4 b)
     # b64char ((push_bit 2 b AND 0x3C) OR drop_bit 6 c) # b64char (c AND 0x3F) # b64url r"
| "b64url [a, b] =
     [b64char (drop_bit 2 a), b64char ((push_bit 4 a AND 0x30) OR drop_bit 4 b), b64char (push_bit 2 b AND 0x3C), 61]"
| "b64url [a] = [b64char (drop_bit 2 a), b64char (push_bit 4 a AND 0x30), 61, 61]"
| "b64url [] = []"

text \<open>\<open>rnd\<close> is what \<open>crypto/rand\<close> delivers: fifteen bytes, or an error.\<close>

definition sessionId :: "bytes option \<Rightarrow> bytes" where
  "sessionId rnd = (case rnd of None \<Rightarrow> [] | Some b \<Rightarrow> b64url b)"

definition on_sess_provider ::
    "sessions_pkg \<Rightarrow> nat \<Rightarrow> (memProvider \<Rightarrow> memProvider \<times> 'r) \<Rightarrow> (sessions_pkg \<times> 'r) option" where
  "on_sess_provider pkg p f =
     (if p < length (sess_objects pkg) then
        (case f (sess_objects pkg ! p) of (m, r) \<Rightarrow> Some (pkg\<lparr>sess_objects := (sess_objects pkg)[p := m]\<rparr>, r))
      else None)"

definition sessions_New :: "nat \<Rightarrow> sessions_pkg \<Rightarrow> bytes \<Rightarrow> bytes option \<Rightarrow> (sessions_pkg \<times> nat \<times> error option) option" where
  "sessions_New this pkg sid rnd =
     (let sid = (if sid = [] then sessionId rnd else sid)
      in on_sess_provider pkg this (\<lambda>p. memProvider_New p sid))"

definition sessions_Get :: "nat \<Rightarrow> sessions_pkg \<Rightarrow> bytes \<Rightarrow> (nat option \<times> error option) option" where
  "sessions_Get this pkg sid =
     map_option snd (on_sess_provider pkg this (\<lambda>p. (p, memProvider_Get p sid)))"

definition sessions_Del :: "nat \<Rightarrow> sessions_pkg \<Rightarrow> bytes \<Rightarrow> sessions_pkg option" where
  "sessions_Del this pkg sid =
     map_option fst (on_sess_provider pkg this (\<lambda>p. (memProvider_Del p sid, ())))"

definition sessions_Save :: "nat \<Rightarrow> sessions_pkg \<Rightarrow> bytes \<Rightarrow> error option option" where
  "sessions_Save this pkg sid =
     map_option snd (on_sess_provider pkg this (\<lambda>p. (p, memProvider_Save p sid)))"

definition sessions_Count :: "nat \<Rightarrow> sessions_pkg \<Rightarrow> int option" where
  "sessions_Count this pkg = map_option snd (on_sess_provider pkg this (\<lambda>p. (p, memProvider_Count p)))"

definition sessions_Close :: "nat \<Rightarrow> sessions_pkg \<Rightarrow> (sessions_pkg \<times> error option) option" where
  "sessions_Close this pkg = on_sess_provider pkg this memProvider_Close"

end
