(* ===== verification/Broker_State.thy ===== *)
theory Broker_State
  imports Go_Effects Conn_Misc Session
begin

text \<open>
  The objects of the running broker: connections, services (\<open>src/service/service.go\<close>), the server
  (\<open>src/service/server.go\<close>), the pools of \<open>src/service/pool.go\<close> and \<open>src/service/readwrite.go\<close>, and the variables of
  the packages.  Objects that are shared by pointers are places in lists.
\<close>

section \<open>Pools\<close>

text \<open>
  \<open>PMPool\<close> of \<open>pool.go\<close>: a \<open>sync.Pool\<close> of PUBLISH messages.  \<open>pm_picks\<close> says which item the pool hands out;
  \<open>pm_New\<close> whether \<open>init\<close> was called.
\<close>

record PMPool =
  pm_items :: "PublishMessage list"
  pm_picks :: "nat list"
  pm_New :: bool

definition PMPool_init :: "PMPool \<Rightarrow> PMPool" where
  "PMPool_init p = p\<lparr>pm_New := True\<rparr>"

definition PMPoolGet :: "PMPool \<Rightarrow> (PublishMessage \<times> PMPool) option" where
  "PMPoolGet p =
     (let k = (case pm_picks p of [] \<Rightarrow> length (pm_items p) | k # _ \<Rightarrow> k);
          p = p\<lparr>pm_picks := tl (pm_picks p)\<rparr>
      in if k < length (pm_items p)
         then Some (pm_items p ! k, p\<lparr>pm_items := take k (pm_items p) @ drop (Suc k) (pm_items p)\<rparr>)
         else if pm_New p then Some (fst (SetType (header.extend header0 \<lparr>topic = [], payload = []\<rparr>) PUBLISH), p)
         else None)"

definition PMPoolPut :: "PMPool \<Rightarrow> PublishMessage \<Rightarrow> PMPool" where
  "PMPoolPut p b = p\<lparr>pm_items := ClearPacketId b # pm_items p\<rparr>"

text \<open>
  \<open>bufio.Writer\<close>: its size, what it holds back, and the error it keeps.  \<open>Reset\<close> empties it, so a writer in a pool
  is its size.
\<close>

record bufwriter =
  bw_size :: nat
  bw_buf :: bytes
  bw_err :: "error option"

definition bw_new :: "nat \<Rightarrow> bufwriter" where
  "bw_new sz = \<lparr>bw_size = (if sz = 0 then 4096 else sz), bw_buf = [], bw_err = None\<rparr>"

definition bw_Reset :: "bufwriter \<Rightarrow> bufwriter" where
  "bw_Reset b = b\<lparr>bw_buf := [], bw_err := None\<rparr>"

definition bw_Available :: "bufwriter \<Rightarrow> nat" where
  "bw_Available b = bw_size b - length (bw_buf b)"

definition bw_Flush :: "bufwriter \<Rightarrow> conn \<Rightarrow> bufwriter \<times> conn" where
  "bw_Flush b c =
     (if bw_err b \<noteq> None \<or> bw_buf b = [] then (b, c)
      else case conn_Write c (bw_buf b) of
        (None, c) \<Rightarrow> (b\<lparr>bw_buf := []\<rparr>, c)
      | (Some e, c) \<Rightarrow> (b\<lparr>bw_err := Some e\<rparr>, c))"

text \<open>\<open>Write\<close>: what does not fit is passed on, at once if nothing is held back; the rest is held back.\<close>

definition bw_Write :: "bufwriter \<Rightarrow> conn \<Rightarrow> bytes \<Rightarrow> bufwriter \<times> conn" where
  "bw_Write b c p =
     (let hold = (\<lambda>(b, c) p. (if bw_err b \<noteq> None then (b, c) else (b\<lparr>bw_buf := bw_buf b @ p\<rparr>, c)));
          direct = (\<lambda>(b, c) p. if bw_err b \<noteq> None \<or> length p \<le> bw_size b then hold (b, c) p
                               else case conn_Write c p of (e, c) \<Rightarrow> (b\<lparr>bw_err := e\<rparr>, c))
      in if length p \<le> bw_Available b \<or> bw_err b \<noteq> None then hold (b, c) p
         else if bw_buf b = [] then direct (b, c) p
         else direct (bw_Flush (b\<lparr>bw_buf := bw_buf b @ take (bw_Available b) p\<rparr>) c) (drop (bw_Available b) p))"

section \<open>Services\<close>

text \<open>
  A completion callback: a nil function, the method \<open>onComplete\<close> of a service, or the functions that \<open>subscribe\<close> and
  \<open>unsubscribe\<close> wrap around the callback of their caller.  The number that an \<open>Ackqueue\<close> stores is a place in the
  table of callbacks.
\<close>

datatype callback = NilFunc | ServiceOnComplete nat | SubscribeOnc callback | UnsubscribeOnc callback

record stat =
  stat_bytes :: "64 word"
  stat_msgs :: "64 word"

definition increment :: "stat \<Rightarrow> int \<Rightarrow> stat" where
  "increment this n = this\<lparr>stat_bytes := stat_bytes this + word_of_int n, stat_msgs := stat_msgs this + 1\<rparr>"

text \<open>
  A service.  A channel is \<open>None\<close> while nil and else whether it is closed; \<open>closeLock\<close> whether the mutex is held.
  The fields from \<open>r_conn\<close> on are the local variables of the goroutine \<open>receiverData\<close>: its connection, the seconds
  of its \<open>timeoutReader\<close>, and its \<open>bufio.Reader\<close> with the bytes that it holds and the error that it keeps.  Left out are
  the addresses and node names, which nothing reads, and the wait groups, buffers and scratch slices of the goroutines that
  \<open>start\<close> no longer starts.
\<close>

record service =
  svc_id :: uint64
  client :: bool
  productKey :: bytes
  deviceName :: bytes
  svc_keepAlive :: int
  keepAliveCH :: "bool option"
  svc_ackTimeout :: int
  svc_conn :: "nat option"
  sess :: "nat option"
  closeLock :: bool
  svc_done :: "bool option"
  inStat :: stat
  outStat :: stat
  loginValue :: bytes
  svc_clientId :: bytes
  Timers :: "uint16 \<Rightarrow> nat option"
  svc_pm :: PMPool
  reason :: string
  r_conn :: nat
  r_d :: int
  held :: bytes
  held_err :: "error option"
  receiving :: bool

record UploadMsg =
  Msg :: PublishMessage
  up_DeviceName :: bytes
  up_ProductKey :: bytes

record Server =
  KeepAlive :: int
  ConnectTimeout :: int
  AckTimeout :: int
  TimeoutRetries :: int
  MaxBufferSize :: int
  SessionsProvider :: string
  sessMgr :: "nat option"
  svcMap :: "(bytes \<times> nat) list"
  configOnce :: bool
  srv_pm :: PMPool

text \<open>
  The calls made to the timer wheel, a package outside the repository: a task for a service and a message after
  a number of seconds, and the removal of a task.  A task is named by the number of calls before the one that added it.
\<close>

datatype tw_call = TwAdd int nat PublishMessage | TwRemove nat

text \<open>\<open>MsgChan\<close> is a channel with room for 1024 messages; \<open>pushing\<close> says whether its only reader is alive.\<close>

record broker =
  server :: Server
  services :: "service list"
  conns :: "conn list"
  sess_pkg :: sessions_pkg
  MsgChan :: "UploadMsg list"
  pushing :: bool
  gsvcid :: uint64
  gPacketId :: uint64
  callbacks :: "callback list"
  tw_calls :: "tw_call list"
  bufioWriter2kPool :: "bufwriter list"
  bufioWriter4kPool :: "bufwriter list"
  bw_picks :: "nat list"

abbreviation MsgChan_cap :: nat where "MsgChan_cap \<equiv> 1024"

section \<open>Access to objects\<close>

definition get_svc :: "nat \<Rightarrow> (service, broker) act" where
  "get_svc s w = (if s < length (services w) then (Done (services w ! s), w) else (Panicked, w))"

definition upd_svc :: "nat \<Rightarrow> (service \<Rightarrow> service) \<Rightarrow> (unit, broker) act" where
  "upd_svc s f w =
     (if s < length (services w) then (Done (), w\<lparr>services := (services w)[s := f (services w ! s)]\<rparr>) else (Panicked, w))"

definition on_conn :: "nat \<Rightarrow> (conn \<Rightarrow> 'r \<times> conn) \<Rightarrow> ('r, broker) act" where
  "on_conn c f w =
     (if c < length (conns w) then (case f (conns w ! c) of (r, c') \<Rightarrow> (Done r, w\<lparr>conns := (conns w)[c := c']\<rparr>))
      else (Panicked, w))"

text \<open>The session at a place of the store of the server's session manager.\<close>

definition sess_at :: "broker \<Rightarrow> nat \<Rightarrow> Session option" where
  "sess_at w p =
     (case sessMgr (server w) of
        None \<Rightarrow> None
      | Some k \<Rightarrow>
          (if k < length (sess_objects (sess_pkg w)) \<and> p < length (sess_store (sess_objects (sess_pkg w) ! k))
           then Some (sess_store (sess_objects (sess_pkg w) ! k) ! p) else None))"

definition put_sess :: "nat \<Rightarrow> Session \<Rightarrow> broker \<Rightarrow> broker" where
  "put_sess p ss w =
     (case sessMgr (server w) of
        None \<Rightarrow> w
      | Some k \<Rightarrow>
          w\<lparr>sess_pkg := (sess_pkg w)\<lparr>sess_objects := (sess_objects (sess_pkg w))
              [k := (sess_objects (sess_pkg w) ! k)\<lparr>sess_store := (sess_store (sess_objects (sess_pkg w) ! k))[p := ss]\<rparr>]\<rparr>\<rparr>)"

text \<open>An operation on \<open>this.sess\<close>, which may draw packet identifiers; a nil session panics.\<close>

definition on_session ::
    "nat \<Rightarrow> (Session \<Rightarrow> uint64 \<Rightarrow> (('r \<times> Session) \<times> uint64) option) \<Rightarrow> ('r, broker) act" where
  "on_session s f w =
     (if s < length (services w) then
        (case sess (services w ! s) of
           None \<Rightarrow> (Panicked, w)
         | Some p \<Rightarrow>
             (case sess_at w p of
                None \<Rightarrow> (Panicked, w)
              | Some ss \<Rightarrow>
                  (case f ss (gPacketId w) of
                     None \<Rightarrow> (Panicked, w)
                   | Some ((r, ss), g) \<Rightarrow> (Done r, put_sess p ss (w\<lparr>gPacketId := g\<rparr>)))))
      else (Panicked, w))"

datatype ackq = QPub1ack | QPub2in | QPub2out | QSuback | QUnsuback | QPingack

fun get_queue :: "ackq \<Rightarrow> Session \<Rightarrow> Ackqueue option" where
  "get_queue QPub1ack ss = Pub1ack ss"
| "get_queue QPub2in ss = Pub2in ss"
| "get_queue QPub2out ss = Pub2out ss"
| "get_queue QSuback ss = Suback_queue ss"
| "get_queue QUnsuback ss = Unsuback_queue ss"
| "get_queue QPingack ss = Pingack ss"

fun set_queue :: "ackq \<Rightarrow> Ackqueue \<Rightarrow> Session \<Rightarrow> Session" where
  "set_queue QPub1ack q ss = ss\<lparr>Pub1ack := Some q\<rparr>"
| "set_queue QPub2in q ss = ss\<lparr>Pub2in := Some q\<rparr>"
| "set_queue QPub2out q ss = ss\<lparr>Pub2out := Some q\<rparr>"
| "set_queue QSuback q ss = ss\<lparr>Suback_queue := Some q\<rparr>"
| "set_queue QUnsuback q ss = ss\<lparr>Unsuback_queue := Some q\<rparr>"
| "set_queue QPingack q ss = ss\<lparr>Pingack := Some q\<rparr>"

text \<open>An operation on one of the queues of \<open>this.sess\<close>; a nil queue panics.\<close>

definition on_queue ::
    "nat \<Rightarrow> ackq \<Rightarrow> (Ackqueue \<Rightarrow> uint64 \<Rightarrow> (('r \<times> Ackqueue) \<times> uint64) option) \<Rightarrow> ('r, broker) act" where
  "on_queue s k f =
     on_session s (\<lambda>ss g.
       do { q \<leftarrow> get_queue k ss; ((r, q), g) \<leftarrow> f q g; Some ((r, set_queue k q ss), g) })"

text \<open>The text of an error.\<close>

fun error_text :: "error \<Rightarrow> bytes" where
  "error_text (ConnackErr c) = str (ConnackCode_Error c)"
| "error_text (Errorf f as) = sprintf f as"
| "error_text (ErrNew s) = str s"

definition error_arg :: "error option \<Rightarrow> fmtarg" where
  "error_arg e = FBytes (case e of None \<Rightarrow> str ''<nil>'' | Some e \<Rightarrow> error_text e)"

end
