(* ===== verification/Service.thy ===== *)
theory Service
  imports Broker_State
begin

text \<open>
  The service of one connection: \<open>src/service/service.go\<close> (publishing and completion), \<open>src/service/process.go\<close> (the
  handler of every packet) and the sending half of \<open>src/service/readwrite.go\<close>.  A service is named by its place \<open>s\<close>
  in the list of services.  Logging is left out.
\<close>

section \<open>Sending\<close>

definition bufioWriterPool :: "nat \<Rightarrow> (bool option)" where
  "bufioWriterPool sz = (if sz = 2048 then Some False else if sz = 4096 then Some True else None)"

text \<open>The item that a pool hands out, if any; \<open>bw_picks\<close> says which.\<close>

definition bw_pool_Get :: "bool \<Rightarrow> (bufwriter option, broker) act" where
  "bw_pool_Get four w =
     (let items = (if four then bufioWriter4kPool w else bufioWriter2kPool w);
          k = (case bw_picks w of [] \<Rightarrow> length items | k # _ \<Rightarrow> k);
          w = w\<lparr>bw_picks := tl (bw_picks w)\<rparr>;
          rest = take k items @ drop (Suc k) items
      in if k < length items
         then (Done (Some (items ! k)), if four then w\<lparr>bufioWriter4kPool := rest\<rparr> else w\<lparr>bufioWriter2kPool := rest\<rparr>)
         else (Done None, w))"

definition newBufioWriterSize :: "nat \<Rightarrow> (bufwriter, broker) act" where
  "newBufioWriterSize sz =
     (case bufioWriterPool sz of
        Some p \<Rightarrow> andThen (bw_pool_Get p) (\<lambda>v. yield (case v of Some bw \<Rightarrow> bw_Reset bw | None \<Rightarrow> bw_new sz))
      | None \<Rightarrow> yield (bw_new sz))"

definition putBufioWriter :: "bufwriter \<Rightarrow> (unit, broker) act" where
  "putBufioWriter bw =
     (let bw = bw_Reset bw
      in case bufioWriterPool (bw_Available bw) of
           None \<Rightarrow> yield ()
         | Some four \<Rightarrow>
             modify (\<lambda>w. if four then w\<lparr>bufioWriter4kPool := bw # bufioWriter4kPool w\<rparr>
                        else w\<lparr>bufioWriter2kPool := bw # bufioWriter2kPool w\<rparr>))"

text \<open>The size of the writer for \<open>n\<close> bytes.\<close>

definition writer_size :: "nat \<Rightarrow> nat" where
  "writer_size n =
     (if n \<le> 2048 then 2048 else if 2048 < n \<and> n \<le> 4096 then 4096 else if 4096 < n \<and> n \<le> 8192 then 8192 else n)"

text \<open>The bytes of a message are written and flushed; a writer that is not taken back to a pool is dropped.\<close>

definition send_bytes :: "nat \<Rightarrow> bytes \<Rightarrow> (error option, broker) act" where
  "send_bytes c buf =
     (let sz = writer_size (length buf)
      in andThen (newBufioWriterSize sz) (\<lambda>bw.
         andThen (on_conn c (\<lambda>c. bw_Write bw c buf)) (\<lambda>bw.
         if bw_err bw \<noteq> None then yield (bw_err bw)
         else
           andThen (on_conn c (bw_Flush bw)) (\<lambda>bw.
           if bw_err bw \<noteq> None then yield (bw_err bw)
           else
             andThen (if sz \<in> {2048, 4096, 8192} then putBufioWriter bw else yield ()) (\<lambda>_.
             yield None)))))"

text \<open>
  \<open>sendData\<close> returns the message (whose caches \<open>Len\<close> and \<open>Encode\<close> may set), the count, which is 0 on success, and the
  error.  Its deferred function only calls \<open>PanicHandler\<close>, so that \<open>recover\<close> is not called by a deferred function
  directly: a panic is not recovered here.  On a nil connection nothing is sent and no error returned.
\<close>

definition sendData :: "nat \<Rightarrow> message \<Rightarrow> (message \<times> int \<times> error option, broker) act" where
  "sendData s msg =
     andThen (lift_opt (message_Len msg)) (\<lambda>(l, msg).
     andThen (\<lambda>w. case message_Encode msg (make_bytes l) (gPacketId w) of
                    None \<Rightarrow> (Panicked, w)
                  | Some (r, g) \<Rightarrow> (Done r, w\<lparr>gPacketId := g\<rparr>)) (\<lambda>(msg, buf, n, err).
     if err \<noteq> None then yield (msg, n, err)
     else
       andThen (lift_opt (slice_range buf 0 n)) (\<lambda>buf.
       andThen (get_svc s) (\<lambda>this.
       case svc_conn this of
         None \<Rightarrow> yield (msg, 0, None)
       | Some c \<Rightarrow> andThen (send_bytes c (slice_bytes buf)) (\<lambda>err. yield (msg, 0, err))))))"

section \<open>Completion\<close>

definition service_onComplete :: "nat \<Rightarrow> message \<Rightarrow> message option \<Rightarrow> error option \<Rightarrow> (error option, broker) act" where
  "service_onComplete s msg ack err =
     (case ack of
        None \<Rightarrow> panicking
      | Some ack \<Rightarrow>
          (let t = message_Type ack in
           if t = PUBACK then
             andThen (get_svc s) (\<lambda>this.
             case Timers this (message_PacketId ack) of
               Some task \<Rightarrow>
                 andThen (modify (\<lambda>w. w\<lparr>tw_calls := tw_calls w @ [TwRemove task]\<rparr>)) (\<lambda>_.
                 andThen (upd_svc s (\<lambda>v. v\<lparr>Timers := (Timers v)(message_PacketId ack := None)\<rparr>)) (\<lambda>_.
                 yield None))
             | None \<Rightarrow> yield None)
           else if t \<in> {PUBCOMP, SUBACK, UNSUBACK, PINGRESP} then yield (Some (ErrNew ''does not support these ack types''))
           else yield (Some (ErrNew ''invalid message for acking''))))"

text \<open>
  The functions that \<open>subscribe\<close> and \<open>unsubscribe\<close> build: the error they pass on, and whether it comes from one of the
  checks, after which nil is returned when the caller gave no callback.
\<close>

fun sub_failures :: "bytes list \<Rightarrow> bytes \<Rightarrow> error option \<Rightarrow> error option option" where
  "sub_failures [] cs err = Some err"
| "sub_failures (t # ts) [] err = None"
| "sub_failures (t # ts) (c # cs) err =
     sub_failures ts cs
       (if c = QosFailure then Some (Errorf (''Failed to subscribe to '' @ [CHR 0x27] @ ''%s'' @ [CHR 0x27, CHR 0x0A] @ ''%v'') [FBytes t, error_arg err]) else err)"

definition sub_onc :: "message \<Rightarrow> message option \<Rightarrow> (error option \<times> bool) option" where
  "sub_onc msg ack =
     (case msg of
        MSubscribe sub \<Rightarrow>
          (case ack of
             Some (MSuback suback) \<Rightarrow>
               (if PacketId sub \<noteq> PacketId suback then
                  Some (Some (Errorf ''Sub and Suback packet ID not the same. %d != %d.''
                                [FInt (uint (PacketId sub)), FInt (uint (PacketId suback))]), True)
                else if length (sub_topics sub) \<noteq> length (returnCodes suback) then
                  Some (Some (Errorf ''Incorrect number of return codes received. Expecting %d, got %d.''
                                [FInt (int (length (sub_topics sub))), FInt (int (length (returnCodes suback)))]), True)
                else do { err2 \<leftarrow> sub_failures (sub_topics sub) (returnCodes suback) None; Some (err2, False) })
           | _ \<Rightarrow> Some (Some (Errorf ''Invalid SubackMessage received'' []), True))
      | _ \<Rightarrow> Some (Some (Errorf ''Invalid SubscribeMessage received'' []), True))"

definition unsub_onc :: "message \<Rightarrow> message option \<Rightarrow> error option \<times> bool" where
  "unsub_onc msg ack =
     (case msg of
        MUnsubscribe unsub \<Rightarrow>
          (case ack of
             Some (MUnsuback unsuback) \<Rightarrow>
               (if PacketId unsub \<noteq> PacketId unsuback then
                  (Some (Errorf ''Unsub and Unsuback packet ID not the same. %d != %d.''
                           [FInt (uint (PacketId unsub)), FInt (uint (PacketId unsuback))]), True)
                else (None, False))
           | _ \<Rightarrow> (Some (Errorf ''Invalid UnsubackMessage received'' []), True))
      | _ \<Rightarrow> (Some (Errorf ''Invalid UnsubscribeMessage received'' []), True))"

text \<open>Calling a callback; calling a nil function panics.\<close>

primrec run_callback :: "callback \<Rightarrow> message \<Rightarrow> message option \<Rightarrow> error option \<Rightarrow> (error option, broker) act" where
  "run_callback NilFunc msg ack err = panicking"
| "run_callback (ServiceOnComplete s) msg ack err = service_onComplete s msg ack err"
| "run_callback (SubscribeOnc cb) msg ack err =
     (if err \<noteq> None then (if cb \<noteq> NilFunc then run_callback cb msg ack err else yield err)
      else andThen (lift_opt (sub_onc msg ack)) (\<lambda>(err2, check).
        if cb \<noteq> NilFunc then run_callback cb msg ack err2 else yield (if check then None else err2)))"
| "run_callback (UnsubscribeOnc cb) msg ack err =
     (if err \<noteq> None then (if cb \<noteq> NilFunc then run_callback cb msg ack err else yield err)
      else (case unsub_onc msg ack of (err2, check) \<Rightarrow>
        if cb \<noteq> NilFunc then run_callback cb msg ack err2 else yield (if check then None else err2)))"

definition new_callback :: "callback \<Rightarrow> (nat, broker) act" where
  "new_callback cb w = (Done (length (callbacks w)), w\<lparr>callbacks := callbacks w @ [cb]\<rparr>)"

definition get_callback :: "nat \<Rightarrow> (callback, broker) act" where
  "get_callback i w = (if i < length (callbacks w) then (Done (callbacks w ! i), w) else (Panicked, w))"

text \<open>\<open>Wait\<close> on a queue of the session with a callback; the result is the message and the error.\<close>

definition queue_Wait :: "nat \<Rightarrow> ackq \<Rightarrow> message \<Rightarrow> callback \<Rightarrow> int \<Rightarrow> (message \<times> error option, broker) act" where
  "queue_Wait s k msg cb now =
     andThen (new_callback cb) (\<lambda>i.
     on_queue s k (\<lambda>q g. map_option (\<lambda>((q, m, e), g). (((m, e), q), g)) (Wait q msg (Some i) now g)))"

definition queue_Ack :: "nat \<Rightarrow> ackq \<Rightarrow> message \<Rightarrow> (error option, broker) act" where
  "queue_Ack s k msg =
     on_queue s k (\<lambda>q g. map_option (\<lambda>((q, m, e), g). ((e, q), g)) (Ack q msg g))"

section \<open>Publishing\<close>

fun the_publish :: "message \<Rightarrow> PublishMessage option" where
  "the_publish (MPublish m) = Some m"
| "the_publish _ = None"

definition send_error :: "service \<Rightarrow> MessageType \<Rightarrow> error option \<Rightarrow> error" where
  "send_error this t err =
     Errorf ''(%s) Error sending %s message: %v''
       [FBytes (productKey this @ str '':'' @ deviceName this), FStr (MessageType_Name t), error_arg err]"

definition svc_PMPoolGet :: "nat \<Rightarrow> (PublishMessage, broker) act" where
  "svc_PMPoolGet s =
     andThen (get_svc s) (\<lambda>this.
     andThen (lift_opt (PMPoolGet (svc_pm this))) (\<lambda>(m, p).
     andThen (upd_svc s (\<lambda>v. v\<lparr>svc_pm := p\<rparr>)) (\<lambda>_. yield m)))"

text \<open>
  What \<open>publish\<close> does after the message was sent, by its QoS.  \<open>cp\<close> is \<open>copier.Copy\<close>, of a package outside the
  repository, applied to the copy and the message.  The mutex is not released when \<open>Wait\<close> panics.
\<close>

definition publish_wait ::
    "(PublishMessage \<Rightarrow> PublishMessage \<Rightarrow> PublishMessage) \<Rightarrow> nat \<Rightarrow> PublishMessage \<Rightarrow> callback \<Rightarrow> int
     \<Rightarrow> (PublishMessage \<times> error option, broker) act" where
  "publish_wait cp s msg onComplete now =
     andThen (lift_opt (QoS msg)) (\<lambda>q.
     if q = QosAtMostOnce then
       (if onComplete \<noteq> NilFunc then andThen (run_callback onComplete (MPublish msg) None None) (\<lambda>err. yield (msg, err))
        else yield (msg, None))
     else if q = QosAtLeastOnce then
       andThen (svc_PMPoolGet s) (\<lambda>copyMsg.
       andThen (get_svc s) (\<lambda>this.
       andThen (gets (\<lambda>w. length (tw_calls w))) (\<lambda>task.
       andThen (modify (\<lambda>w. w\<lparr>tw_calls := tw_calls w @ [TwAdd (svc_ackTimeout this) s (cp copyMsg msg)]\<rparr>)) (\<lambda>_.
       andThen (upd_svc s (\<lambda>v. v\<lparr>Timers := (Timers v)(PacketId msg \<mapsto> task)\<rparr>)) (\<lambda>_.
       if closeLock this then blocked
       else
         andThen (upd_svc s (\<lambda>v. v\<lparr>closeLock := True\<rparr>)) (\<lambda>_.
         andThen (gets (\<lambda>w. case sess this of None \<Rightarrow> None | Some p \<Rightarrow> Option.bind (sess_at w p) Pub1ack)) (\<lambda>pub1ack.
         andThen (if pub1ack \<noteq> None then queue_Wait s QPub1ack (MPublish msg) onComplete now else yield (MPublish msg, None)) (\<lambda>(m, err).
         andThen (upd_svc s (\<lambda>v. v\<lparr>closeLock := False\<rparr>)) (\<lambda>_.
         andThen (lift_opt (the_publish m)) (\<lambda>m. yield (m, err)))))))))))
     else if q = QosExactlyOnce then
       andThen (queue_Wait s QPub2out (MPublish msg) onComplete now) (\<lambda>(m, err).
       andThen (lift_opt (the_publish m)) (\<lambda>m. yield (m, err)))
     else yield (msg, None))"

definition service_publish ::
    "(PublishMessage \<Rightarrow> PublishMessage \<Rightarrow> PublishMessage) \<Rightarrow> nat \<Rightarrow> PublishMessage \<Rightarrow> callback \<Rightarrow> int
     \<Rightarrow> (PublishMessage \<times> error option, broker) act" where
  "service_publish cp s msg onComplete now =
     andThen (sendData s (MPublish msg)) (\<lambda>(m, _, err).
     andThen (lift_opt (the_publish m)) (\<lambda>msg.
     andThen (get_svc s) (\<lambda>this.
     if err \<noteq> None then yield (msg, Some (send_error this (message_Type m) err))
     else publish_wait cp s msg onComplete now)))"

text \<open>The function that the timer wheel runs when a task is due.\<close>

definition publish_timeout :: "nat \<Rightarrow> PublishMessage \<Rightarrow> (unit, broker) act" where
  "publish_timeout s copyMsg =
     upd_svc s (\<lambda>v. v\<lparr>Timers := (Timers v)(PacketId copyMsg := None), svc_pm := PMPoolPut (svc_pm v) copyMsg\<rparr>)"

section \<open>The client's requests\<close>

definition send_and_wait ::
    "nat \<Rightarrow> ackq \<Rightarrow> message \<Rightarrow> callback \<Rightarrow> int \<Rightarrow> (error option, broker) act" where
  "send_and_wait s k msg cb now =
     andThen (sendData s msg) (\<lambda>(msg, _, err).
     andThen (get_svc s) (\<lambda>this.
     if err \<noteq> None then yield (Some (send_error this (message_Type msg) err))
     else andThen (queue_Wait s k msg cb now) (\<lambda>(_, err). yield err)))"

definition service_subscribe :: "nat \<Rightarrow> SubscribeMessage \<Rightarrow> callback \<Rightarrow> bool \<Rightarrow> int \<Rightarrow> (error option, broker) act" where
  "service_subscribe s msg onComplete onPublish now =
     (if \<not> onPublish then yield (Some (Errorf ''onPublish function is nil. No need to subscribe.'' []))
      else send_and_wait s QSuback (MSubscribe msg) (SubscribeOnc onComplete) now)"

definition service_unsubscribe :: "nat \<Rightarrow> UnsubscribeMessage \<Rightarrow> callback \<Rightarrow> int \<Rightarrow> (error option, broker) act" where
  "service_unsubscribe s msg onComplete now = send_and_wait s QUnsuback (MUnsubscribe msg) (UnsubscribeOnc onComplete) now"

definition service_ping :: "nat \<Rightarrow> callback \<Rightarrow> int \<Rightarrow> (error option, broker) act" where
  "service_ping s onComplete now = send_and_wait s QPingack (MPingreq NewPingreqMessage) onComplete now"

definition service_isDone :: "service \<Rightarrow> bool" where
  "service_isDone this \<longleftrightarrow> svc_done this = Some True"

definition service_cid :: "broker \<Rightarrow> service \<Rightarrow> bytes option" where
  "service_cid w this =
     map_option (\<lambda>i. decimal (unat (svc_id this)) @ str ''/'' @ i)
       (Session_ID (Option.bind (sess this) (sess_at w)))"

end
