(* ===== verification/Process.thy ===== *)
theory Process
  imports Service
begin

text \<open>
  \<open>src/service/process.go\<close>: what a service does with a packet of any type, with the queues of its session, the
  channel of uploaded messages and the change of the heartbeat (\<open>updateHeartbeat\<close> of \<open>src/service/sendrecv.go\<close>).
\<close>

section \<open>Heartbeat\<close>

text \<open>What the goroutine \<open>updateHeartbeat\<close> does with an interval that it receives: the sum is of type \<open>int32\<close>.\<close>

definition updateHeartbeat :: "int \<Rightarrow> service \<Rightarrow> service" where
  "updateHeartbeat newKeepAlive v = v\<lparr>r_d := int32 (newKeepAlive + 5)\<rparr>"

text \<open>
  \<open>this.keepAliveCH <- h\<close>: the channel has no buffer, so that the sender waits for the goroutine, which runs until
  \<open>done\<close> is closed.  Sending on a closed channel panics, on a nil channel it blocks.
\<close>

definition keepAlive_send :: "nat \<Rightarrow> int \<Rightarrow> (unit, broker) act" where
  "keepAlive_send s h =
     andThen (get_svc s) (\<lambda>this.
     case keepAliveCH this of
       None \<Rightarrow> blocked
     | Some True \<Rightarrow> panicking
     | Some False \<Rightarrow> (if service_isDone this then blocked else upd_svc s (updateHeartbeat h)))"

section \<open>PUBLISH\<close>

abbreviation (input) heartbeat_topic :: string where "heartbeat_topic \<equiv> ''/sys/service/heartbeat/update''"

definition clamp_heartbeat :: "int \<Rightarrow> int" where
  "clamp_heartbeat h = (if h < 1 then 1 else if h > 2 * 3600 then 2 * 3600 else h)"

definition send_puback :: "nat \<Rightarrow> PublishMessage \<Rightarrow> (error option, broker) act" where
  "send_puback s msg =
     andThen (sendData s (MPuback (SetPacketId NewPubackMessage (PacketId msg)))) (\<lambda>(_, _, err). yield err)"

text \<open>\<open>select\<close> with a default: the message is dropped when the channel is full.\<close>

definition upload :: "UploadMsg \<Rightarrow> (unit, broker) act" where
  "upload u = modify (\<lambda>w. if length (MsgChan w) < MsgChan_cap then w\<lparr>MsgChan := MsgChan w @ [u]\<rparr> else w)"

definition processPublish :: "nat \<Rightarrow> PublishMessage \<Rightarrow> (error option, broker) act" where
  "processPublish s msg =
     andThen (get_svc s) (\<lambda>this.
     if topic msg = str heartbeat_topic then
       (case Atoi (payload msg) of
          Inl err \<Rightarrow> yield (Some err)
        | Inr h \<Rightarrow>
            andThen (keepAlive_send s (clamp_heartbeat h)) (\<lambda>_.
            andThen (lift_opt (QoS msg)) (\<lambda>q.
            if q = QosAtLeastOnce then send_puback s msg else yield None)))
     else
       andThen (lift_opt (QoS msg)) (\<lambda>q.
       if q = QosAtLeastOnce then
         andThen (send_puback s msg) (\<lambda>err.
         if err \<noteq> None then yield err
         else andThen (upload \<lparr>Msg = msg, up_DeviceName = productKey this, up_ProductKey = deviceName this\<rparr>) (\<lambda>_. yield None))
       else
         yield (Some (Errorf ''productKey %s deviceName %s invalid message QoS %d.''
                        [FBytes (productKey this), FBytes (deviceName this), FInt (uint q)]))))"

section \<open>SUBSCRIBE and UNSUBSCRIBE\<close>

text \<open>The return codes are the QoS asked for; no subscription is entered.\<close>

fun sub_retcodes :: "bytes list \<Rightarrow> bytes \<Rightarrow> bytes option" where
  "sub_retcodes [] qs = Some []"
| "sub_retcodes (t # ts) [] = None"
| "sub_retcodes (t # ts) (q # qs) = map_option ((#) q) (sub_retcodes ts qs)"

definition processSubscribe :: "nat \<Rightarrow> SubscribeMessage \<Rightarrow> (error option, broker) act" where
  "processSubscribe s msg =
     andThen (lift_opt (sub_retcodes (sub_topics msg) (sub_qos msg))) (\<lambda>retcodes.
     case AddReturnCodes (SetPacketId NewSubackMessage (PacketId msg)) retcodes of
       (resp, Some err) \<Rightarrow> yield (Some err)
     | (resp, None) \<Rightarrow> andThen (sendData s (MSuback resp)) (\<lambda>(_, _, err). yield err))"

definition processUnsubscribe :: "nat \<Rightarrow> UnsubscribeMessage \<Rightarrow> (error option, broker) act" where
  "processUnsubscribe s msg =
     andThen (sendData s (MUnsuback (SetPacketId NewUnsubackMessage (PacketId msg)))) (\<lambda>(_, _, err). yield err)"

section \<open>Acknowledged messages\<close>

definition service_onPublish :: "PublishMessage \<Rightarrow> error option" where
  "service_onPublish msg = None"

definition complete_callback :: "ackmsg \<Rightarrow> message \<Rightarrow> message \<Rightarrow> (unit, broker) act" where
  "complete_callback a msg ack =
     (case OnComplete a of
        None \<Rightarrow> yield ()
      | Some i \<Rightarrow>
          andThen (get_callback i) (\<lambda>cb.
          if cb \<noteq> NilFunc then andThen (run_callback cb msg (Some ack) None) (\<lambda>_. yield ()) else yield ()))"

text \<open>One round of the loop; the messages that cannot be decoded are skipped.\<close>

definition acked_one :: "nat \<Rightarrow> ackq \<Rightarrow> ackmsg \<Rightarrow> (unit, broker) act" where
  "acked_one s k a =
     (case message_New (Mtype a) of
        Inl _ \<Rightarrow> yield ()
      | Inr m0 \<Rightarrow>
          andThen (lift_opt (message_Decode m0 (Msgbuf a))) (\<lambda>(msg, _, err).
          if err \<noteq> None then yield ()
          else case message_New (State a) of
            Inl _ \<Rightarrow> yield ()
          | Inr a0 \<Rightarrow>
              andThen (lift_opt (message_Decode a0 (Ackbuf a))) (\<lambda>(ack, _, err).
              if err \<noteq> None then yield ()
              else if State a \<notin> {PUBREL, PUBACK, PUBCOMP, SUBACK, UNSUBACK, PINGRESP} then yield ()
              else
                andThen (if State a = PUBREL then andThen (lift_opt (the_publish msg)) (\<lambda>pm. yield (service_onPublish pm))
                         else yield None) (\<lambda>_.
                andThen (complete_callback a msg ack) (\<lambda>_.
                on_queue s k (\<lambda>q g. Some (((), q\<lparr>pool := BytesPool_Put (BytesPool_Put (pool q) (Ackbuf a)) (Msgbuf a)\<rparr>), g)))))))"

definition processAcked :: "nat \<Rightarrow> ackq \<Rightarrow> (unit, broker) act" where
  "processAcked s k =
     andThen (on_queue s k (\<lambda>q g. map_option (\<lambda>q. ((ackdone q, q), g)) (Acked q))) (each (acked_one s k))"

section \<open>Every packet\<close>

abbreviation errDisconnect :: error where "errDisconnect \<equiv> ErrNew ''Disconnect''"

definition processIncoming :: "nat \<Rightarrow> message \<Rightarrow> (error option, broker) act" where
  "processIncoming s msg =
     (let reply = (\<lambda>r. andThen (sendData s r) (\<lambda>(_, _, err). yield err));
          ack_then = (\<lambda>k f. andThen (queue_Ack s k msg) (\<lambda>err. if err \<noteq> None then yield err else f));
          acked = (\<lambda>k. andThen (queue_Ack s k msg) (\<lambda>_. andThen (processAcked s k) (\<lambda>_. yield None)))
      in case msg of
           MPublish m \<Rightarrow> processPublish s m
         | MPuback m \<Rightarrow> acked QPub1ack
         | MPubrec m \<Rightarrow> ack_then QPub2out (reply (MPubrel (SetPacketId NewPubrelMessage (PacketId m))))
         | MPubrel m \<Rightarrow>
             ack_then QPub2in
               (andThen (processAcked s QPub2in) (\<lambda>_. reply (MPubcomp (SetPacketId NewPubcompMessage (PacketId m)))))
         | MPubcomp m \<Rightarrow> ack_then QPub2out (andThen (processAcked s QPub2out) (\<lambda>_. yield None))
         | MSubscribe m \<Rightarrow> processSubscribe s m
         | MSuback m \<Rightarrow> acked QSuback
         | MUnsubscribe m \<Rightarrow> processUnsubscribe s m
         | MUnsuback m \<Rightarrow> acked QUnsuback
         | MPingreq m \<Rightarrow> reply (MPingresp NewPingrespMessage)
         | MPingresp m \<Rightarrow> acked QPingack
         | MDisconnect m \<Rightarrow>
             andThen (on_session s (\<lambda>ss g.
                        do { c \<leftarrow> Cmsg ss; Some (((), ss\<lparr>Cmsg := Some (SetWillFlag c False)\<rparr>), g) })) (\<lambda>_.
             yield (Some errDisconnect))
         | _ \<Rightarrow>
             andThen (get_svc s) (\<lambda>this.
             yield (Some (Errorf ''%s invalid message type %s.''
                            [FBytes (productKey this @ str '':'' @ deviceName this), FStr (MessageType_Name (message_Type msg))]))))"

end
