(* ===== verification/Ack_Spec.thy ===== *)
theory Ack_Spec
  imports Ackqueue
begin

text \<open>
  What the acknowledgement queue of \<open>src/sessions/ackqueue.go\<close> promises: a first-in-first-out list of packet
  identifiers, each marked when its acknowledgement is complete.  The operations of the ring buffer are
  shown to simulate it, for every interleaving of \<open>Wait\<close>, \<open>Ack\<close>, \<open>Acked\<close> and the ticks of \<open>Clear\<close>.
\<close>

section \<open>Buffers\<close>

text \<open>A buffer as \<open>make\<close> returns it, as long as its array.\<close>

definition whole :: "gslice \<Rightarrow> bool" where
  "whole b \<longleftrightarrow> sl_len b = length (sl_arr b)"

definition pool_ok :: "BytesPool \<Rightarrow> bool" where
  "pool_ok bp \<longleftrightarrow> has_New bp \<and> width bp = 8192 \<and> (\<forall>b \<in> set (items bp). whole b \<and> sl_len b = 8192)"

lemma whole_make [simp]: "whole (make_bytes n)" "whole (slice_of bs)"
  by (simp_all add: whole_def make_bytes_def)

lemma whole_wf: "whole b \<Longrightarrow> wf_slice b"
  by (simp add: whole_def wf_slice_def)

lemma whole_fill: "whole b \<Longrightarrow> length w \<le> sl_len b \<Longrightarrow> whole (fill b w)"
  by (simp add: whole_def)

text \<open>The pool returns a buffer that is long enough, whichever item it picks.\<close>

lemma Get_ok:
  assumes "pool_ok bp" and "0 \<le> n"
  shows "\<exists>b bp'. BytesPool_Get bp n = Some (b, bp') \<and> whole b \<and> n \<le> go_len b \<and> pool_ok bp'"
proof (cases "n < width bp")
  case True
  let ?k = "case picks bp of [] \<Rightarrow> length (items bp) | k # _ \<Rightarrow> k"
  have sub: "set (take ?k (items bp) @ drop (Suc ?k) (items bp)) \<subseteq> set (items bp)"
    using set_take_subset set_drop_subset by fastforce
  show ?thesis
  proof (cases "?k < length (items bp)")
    case k: True
    then have "items bp ! ?k \<in> set (items bp)" by (rule nth_mem)
    then have "whole (items bp ! ?k)" "sl_len (items bp ! ?k) = 8192" using assms(1) by (auto simp: pool_ok_def)
    with True k assms(1) sub show ?thesis by (auto simp: BytesPool_Get_def Let_def pool_ok_def go_len_def)
  next
    case False
    with True assms(1) show ?thesis by (simp add: BytesPool_Get_def Let_def pool_ok_def)
  qed
next
  case False
  with assms show ?thesis by (simp add: BytesPool_Get_def pool_ok_def)
qed

lemma Put_ok: "pool_ok bp \<Longrightarrow> whole b \<Longrightarrow> pool_ok (BytesPool_Put bp b)"
  by (auto simp: BytesPool_Put_def pool_ok_def whole_def go_cap_def)

section \<open>Messages that fit\<close>

text \<open>
  A message that can be stored: \<open>Len\<close> answers, and \<open>Encode\<close> succeeds on every buffer that is long enough.
\<close>

definition fits :: "message \<Rightarrow> bool" where
  "fits m \<longleftrightarrow>
     (\<forall>g. \<exists>n m1. message_Len m = Some (n, m1) \<and> 0 \<le> n \<and> message_PacketId m1 = message_PacketId m
        \<and> (\<forall>b. whole b \<and> n \<le> go_len b \<longrightarrow>
             (\<exists>m2 b' k g'. message_Encode m1 b g = Some ((m2, b', k, None), g') \<and> whole b')))"

lemma fits_publish:
  assumes "message_good (MPublish m)"
  shows "fits (MPublish m)"
  unfolding fits_def
proof
  fix g
  obtain m1 m' where m': "publish_Len m = Some (int (length (message_wire (MPublish m'))), m1)"
    "\<And>dst. wf_slice dst \<Longrightarrow> length (message_wire (MPublish m')) \<le> sl_len dst \<Longrightarrow>
      publish_Encode m1 dst g =
        Some ((m', fill dst (message_wire (MPublish m')), int (length (message_wire (MPublish m'))), None),
              snd (sent (MPublish m) g))"
    using publish_encodes [OF assms, of g] by blast
  have id: "message_PacketId (MPublish m1) = message_PacketId (MPublish m)"
    using m'(1) by (auto simp: publish_Len_def packet_Len_def SetRemainingLength_def message_PacketId_def
        PacketId_def header.defs Let_def split: if_splits bind_splits)
  have "\<exists>m2 b' k g'. message_Encode (MPublish m1) b g = Some ((m2, b', k, None), g') \<and> whole b'"
    if "whole b \<and> int (length (message_wire (MPublish m'))) \<le> go_len b" for b
    using that m'(2) [of b] whole_fill [of b "message_wire (MPublish m')"] whole_wf [of b]
    by (simp add: go_len_def del: message_wire.simps)
  with m'(1) id show "\<exists>n m1. message_Len (MPublish m) = Some (n, m1) \<and> 0 \<le> n \<and> message_PacketId m1 = message_PacketId (MPublish m)
      \<and> (\<forall>b. whole b \<and> n \<le> go_len b \<longrightarrow>
           (\<exists>m2 b' k g'. message_Encode m1 b g = Some ((m2, b', k, None), g') \<and> whole b'))"
    by (simp del: message_wire.simps)
qed

text \<open>An acknowledgement as it was received: its bytes are copied.\<close>

lemma encode_clean_whole:
  assumes "wf_slice (dbuf m)" and "whole b" and "go_len (dbuf m) \<le> go_len b"
  shows "\<exists>b' k. encode_clean what m b = Some (m, b', k, None) \<and> whole b'"
  using assms length_slice_bytes [OF assms(1)] whole_fill [of b "slice_bytes (dbuf m)"]
  by (simp add: encode_clean_def go_len_def slice_copy_fit)

lemma fits_clean:
  "\<not> dirty m \<Longrightarrow> wf_slice (dbuf m) \<Longrightarrow> C \<in> {MPuback, MPubrec, MPubrel, MPubcomp, MUnsuback} \<Longrightarrow> fits (C m)"
  using encode_clean_whole [of m _ "''puback''"]
  by (auto simp: fits_def puback_Len_def packet_Len_def puback_Encode_def) fastforce+

section \<open>The operations on the list of messages\<close>

lemma queue_of_head:
  assumes "queue_of q (a # ms)"
  shows "ring_get q (qhead q) = Some (Some a)" and "ring_set q (qhead q) v = Some (q\<lparr>ring := (ring q)[nat (qhead q) := v]\<rparr>)"
    and "0 < qcount q"
proof -
  have ok: "ring_ok q" using assms by (simp add: queue_of_def)
  moreover have "ring q ! nat (slot q 0) = Some a" using assms unfolding queue_of_def by auto
  ultimately show "ring_get q (qhead q) = Some (Some a)"
      "ring_set q (qhead q) v = Some (q\<lparr>ring := (ring q)[nat (qhead q) := v]\<rparr>)"
    using slot_bounds [OF ok, of 0] by (simp_all add: slot_0 ring_get_def ring_set_def)
  show "0 < qcount q" using assms by (simp add: queue_of_def)
qed

text \<open>Fields of the queue that the refinement does not look at.\<close>

lemma queue_of_other [simp]:
  "queue_of (q\<lparr>pool := x\<rparr>) ms = queue_of q ms" "queue_of (q\<lparr>ackdone := d\<rparr>) ms = queue_of q ms"
  "queue_of (q\<lparr>ping := p\<rparr>) ms = queue_of q ms"
  by (simp_all add: queue_of_def ring_ok_def slot_def)

lemma increment_set [simp]: "aq_increment (q\<lparr>ring := r\<rparr>) n = aq_increment q n" "aq_increment (q\<lparr>pool := x\<rparr>) n = aq_increment q n"
  "aq_increment (q\<lparr>emap := e\<rparr>) n = aq_increment q n" "aq_increment (q\<lparr>ackdone := d\<rparr>) n = aq_increment q n"
  by (simp_all add: aq_increment_def aq_index_def)

abbreviation popped :: "Ackqueue \<Rightarrow> ackmsg \<Rightarrow> Ackqueue" where
  "popped q a \<equiv> q\<lparr>ring := (ring q)[nat (qhead q) := None], qhead := (qhead q + 1) mod qsize q,
                 qcount := qcount q - 1, emap := (emap q)(Pktid a := None)\<rparr>"

lemma removeHead_ok:
  assumes "queue_of q (a # ms)"
  shows "removeHead q = Some (popped q a, None)"
proof -
  have ok: "ring_ok q" using assms by (simp add: queue_of_def)
  show ?thesis using queue_of_head [OF assms]
    by (simp add: removeHead_def aq_empty_def increment_mod [OF ok])
qed

abbreviation complete :: "ackmsg \<Rightarrow> bool" where
  "complete a \<equiv> ack_complete (State a)"

lemma acked_loop_ok:
  "queue_of q ms \<Longrightarrow>
   \<exists>q'. acked_loop q = Some q' \<and> queue_of q' (dropWhile complete ms) \<and> ackdone q' = ackdone q @ takeWhile complete ms
     \<and> pool q' = pool q \<and> ping q' = ping q"
proof (induction ms arbitrary: q)
  case Nil
  then have "qcount q = 0" by (simp add: queue_of_def)
  with Nil show ?case by (simp add: acked_loop.simps [of q])
next
  case (Cons a ms)
  note h = queue_of_head [OF Cons.prems]
  let ?q = "popped (q\<lparr>ackdone := ackdone q @ [a]\<rparr>) a"
  have pop: "removeHead (q\<lparr>ackdone := ackdone q @ [a]\<rparr>) = Some (?q, None)"
    using Cons.prems by (intro removeHead_ok) simp
  show ?case
  proof (cases "complete a")
    case True
    have "queue_of ?q ms" using Cons.prems by (intro queue_of_pop) simp
    from Cons.IH [OF this] obtain q' where "acked_loop ?q = Some q'" "queue_of q' (dropWhile complete ms)"
      "ackdone q' = ackdone ?q @ takeWhile complete ms" "pool q' = pool ?q" "ping q' = ping ?q" by blast
    with True h pop show ?thesis by (simp add: acked_loop.simps [of q])
  next
    case False
    with h Cons.prems show ?thesis by (simp add: acked_loop.simps [of q])
  qed
qed

lemma clear_head_ok:
  assumes "queue_of q (a # ms)"
  shows "\<exists>q'. clear_head q a = Some q' \<and> queue_of q' ms \<and> ping q' = ping q \<and> ackdone q' = ackdone q
           \<and> qhead q' = aq_increment q' (qhead q)
           \<and> pool q' = BytesPool_Put (BytesPool_Put (pool q) (Msgbuf a)) (Ackbuf a)"
proof -
  let ?bp = "BytesPool_Put (BytesPool_Put (pool q) (Msgbuf a)) (Ackbuf a)" and ?q = "q\<lparr>pool := BytesPool_Put (BytesPool_Put (pool q) (Msgbuf a)) (Ackbuf a)\<rparr>"
  have q: "queue_of ?q (a # ms)" using assms by simp
  have ok: "ring_ok q" using assms by (simp add: queue_of_def)
  have "clear_head q a = Some (popped ?q a)"
    using queue_of_head(2) [OF q, of None] by (simp add: clear_head_def Let_def increment_mod [OF ok])
  moreover have "queue_of (popped ?q a) ms" by (rule queue_of_pop [OF q])
  moreover have "qhead (popped ?q a) = aq_increment (popped ?q a) (qhead q)"
    using increment_mod [OF ok] by (simp add: aq_increment_def aq_index_def)
  ultimately show ?thesis by simp
qed

abbreviation expired :: "int \<Rightarrow> ackmsg \<Rightarrow> bool" where
  "expired now a \<equiv> timestamp a + 5 < now"

lemma clear_loop1_ok:
  "queue_of q ms \<Longrightarrow> pool_ok (pool q) \<Longrightarrow> \<forall>a \<in> set ms. whole (Msgbuf a) \<and> whole (Ackbuf a) \<Longrightarrow>
   \<exists>q'. clear_loop1 now (qhead q) q = Some q' \<and> queue_of q' (dropWhile (expired now) ms) \<and> pool_ok (pool q')
     \<and> ping q' = ping q \<and> ackdone q' = ackdone q"
proof (induction ms arbitrary: q)
  case Nil
  then have "qcount q = 0" by (simp add: queue_of_def)
  with Nil show ?case by (simp add: clear_loop1.simps [of now _ q])
next
  case (Cons a ms)
  note h = queue_of_head [OF Cons.prems(1)]
  show ?case
  proof (cases "expired now a")
    case True
    obtain q1 where q1: "clear_head q a = Some q1" "queue_of q1 ms" "ping q1 = ping q" "ackdone q1 = ackdone q"
        "qhead q1 = aq_increment q1 (qhead q)" "pool q1 = BytesPool_Put (BytesPool_Put (pool q) (Msgbuf a)) (Ackbuf a)"
      using clear_head_ok [OF Cons.prems(1)] by blast
    have "pool_ok (pool q1)" unfolding q1(6) using Cons.prems(2,3) by (simp add: Put_ok)
    from Cons.IH [OF q1(2) this] Cons.prems(3) obtain q' where
      "clear_loop1 now (qhead q1) q1 = Some q'" "queue_of q' (dropWhile (expired now) ms)" "pool_ok (pool q')"
      "ping q' = ping q1" "ackdone q' = ackdone q1" by auto
    with True h q1 show ?thesis by (simp add: clear_loop1.simps [of now _ q])
  next
    case False
    with h Cons.prems show ?thesis by (simp add: clear_loop1.simps [of now _ q])
  qed
qed

text \<open>There are only \<open>2 ^ 16\<close> packet identifiers, so growing never overflows.\<close>

lemma queue_of_count: "queue_of q ms \<Longrightarrow> qcount q \<le> 65536"
proof -
  assume q: "queue_of q ms"
  then have "length ms = card (set (map Pktid ms))" by (simp add: queue_of_def distinct_card flip: set_map)
  also have "\<dots> \<le> card (UNIV :: uint16 set)" by (intro card_mono) simp_all
  also have "\<dots> = 65536" by (simp add: card_word)
  finally show ?thesis using q by (simp add: queue_of_def)
qed

lemma make_room:
  assumes "queue_of q ms"
  shows "\<exists>q'. (if aq_full q then aq_grow q else Some q) = Some q' \<and> queue_of q' ms \<and> qcount q' < qsize q'
           \<and> pool q' = pool q \<and> ping q' = ping q \<and> ackdone q' = ackdone q"
proof (cases "aq_full q")
  case True
  then have "qsize q \<le> (2 ^ 63 - 1) div 2" using queue_of_count [OF assms] by (simp add: aq_full_def)
  from grow_ok [OF assms True this] obtain em where
    "aq_grow q = Some (q\<lparr>qsize := 2 * qsize q, qmask := 2 * qsize q - 1,
       ring := map Some ms @ replicate (length ms) None, qhead := 0, qtail := int (length ms), emap := em\<rparr>)"
    "queue_of (q\<lparr>qsize := 2 * qsize q, qmask := 2 * qsize q - 1,
       ring := map Some ms @ replicate (length ms) None, qhead := 0, qtail := int (length ms), emap := em\<rparr>) ms"
    by blast
  moreover have "0 < qsize q" using assms ring_ok_size by (simp add: queue_of_def)
  ultimately show ?thesis using True by (simp add: aq_full_def)
next
  case False
  with assms show ?thesis by (auto simp: aq_full_def queue_of_def ring_ok_def)
qed

lemma emap_None: "queue_of q ms \<Longrightarrow> emap q p = None \<longleftrightarrow> p \<notin> Pktid ` set ms"
proof -
  assume q: "queue_of q ms"
  have "emap q p \<noteq> None \<longleftrightarrow> (\<exists>k < length ms. Pktid (ms ! k) = p)" using q unfolding queue_of_def by fastforce
  also have "\<dots> \<longleftrightarrow> p \<in> Pktid ` set ms" by (metis image_iff in_set_conv_nth)
  finally show ?thesis by blast
qed

text \<open>Storing a message with a new identifier, and one with an identifier that is waiting already.\<close>

definition encoded_into :: "message \<Rightarrow> uint64 \<Rightarrow> message \<Rightarrow> gslice \<Rightarrow> uint64 \<Rightarrow> bool" where
  "encoded_into m g m' buf g' \<longleftrightarrow>
     (\<exists>n m1 b k. message_Len m = Some (n, m1) \<and> whole b \<and> n \<le> go_len b \<and> message_Encode m1 b g = Some ((m', buf, k, None), g'))"

lemma aq_insert_new:
  assumes q: "queue_of q ms" and pool: "pool_ok (pool q)" and fit: "fits m" and id: "message_PacketId m \<notin> Pktid ` set ms"
  shows "\<exists>q' m' g' a. aq_insert q (message_PacketId m) m oc now g = Some ((q', m', None), g') \<and> queue_of q' (ms @ [a])
           \<and> pool_ok (pool q') \<and> ping q' = ping q \<and> ackdone q' = ackdone q
           \<and> Pktid a = message_PacketId m \<and> State a = RESERVED \<and> timestamp a = now \<and> OnComplete a = oc
           \<and> whole (Msgbuf a) \<and> whole (Ackbuf a) \<and> encoded_into m g m' (Msgbuf a) g'
           \<and> Some (Mtype a) = map_option (message_Type \<circ> snd) (message_Len m)"
proof -
  obtain q1 where q1: "(if aq_full q then aq_grow q else Some q) = Some q1" "queue_of q1 ms" "qcount q1 < qsize q1"
      "pool q1 = pool q" "ping q1 = ping q" "ackdone q1 = ackdone q"
    using make_room [OF q] by blast
  obtain n m1 where m1: "message_Len m = Some (n, m1)" "0 \<le> n" "message_PacketId m1 = message_PacketId m"
      "\<And>b. whole b \<Longrightarrow> n \<le> go_len b \<Longrightarrow>
         \<exists>m2 b' k g'. message_Encode m1 b g = Some ((m2, b', k, None), g') \<and> whole b'"
    using fit unfolding fits_def by meson
  obtain b bp where b: "BytesPool_Get (pool q1) n = Some (b, bp)" "whole b" "n \<le> go_len b" "pool_ok bp"
    using Get_ok [OF pool m1(2)] q1(4) by auto
  obtain m2 b' k g' where m2: "message_Encode m1 b g = Some ((m2, b', k, None), g')" "whole b'"
    using m1(4) [OF b(2,3)] by blast
  let ?a = "\<lparr>Mtype = message_Type m1, State = RESERVED, Pktid = message_PacketId m, Msgbuf = b',
             Ackbuf = slice_of [], OnComplete = oc, timestamp = now\<rparr>"
  let ?q = "q1\<lparr>pool := bp\<rparr>"
  let ?q' = "?q\<lparr>ring := (ring ?q)[nat (qtail ?q) := Some ?a], emap := (emap ?q)(Pktid ?a \<mapsto> qtail ?q),
            qtail := (qtail ?q + 1) mod qsize ?q, qcount := qcount ?q + 1\<rparr>"
  have ok: "ring_ok q1" using q1(2) by (simp add: queue_of_def)
  have em: "emap q1 (message_PacketId m) = None" using emap_None [OF q1(2)] id by simp
  have "queue_of ?q' (ms @ [?a])" by (rule queue_of_push) (use q1(2,3) em in simp_all)
  moreover have "aq_insert q (message_PacketId m) m oc now g = Some ((?q', m2, None), g')"
  proof -
    have "0 \<le> qtail q1" "qtail q1 < int (length (ring q1))"
      using ok ring_ok_size [OF ok] by (auto simp: ring_ok_def)
    then show ?thesis
      using q1(1) em m1(1,3) b(1) m2(1)
      by (simp add: aq_insert_def ring_set_def Let_def increment_mod [OF ok])
  qed
  moreover have "encoded_into m g m2 b' g'" using m1(1) b(2,3) m2(1) by (auto simp: encoded_into_def)
  ultimately show ?thesis using b(4) q1(5,6) m1(1) m2(2)
    by (intro exI [of _ ?q'] exI [of _ m2] exI [of _ g'] exI [of _ ?a]) simp
qed

lemma aq_insert_dup:
  assumes q: "queue_of q ms" and id: "message_PacketId m \<in> Pktid ` set ms"
    and dup: "\<And>pm. m = MPublish pm \<Longrightarrow> Dup pm \<noteq> None"
  shows "\<exists>q' e. aq_insert q (message_PacketId m) m oc now g = Some ((q', m, e), g) \<and> queue_of q' ms
           \<and> pool q' = pool q \<and> ping q' = ping q \<and> ackdone q' = ackdone q"
proof -
  obtain q1 where q1: "(if aq_full q then aq_grow q else Some q) = Some q1" "queue_of q1 ms"
      "pool q1 = pool q" "ping q1 = ping q" "ackdone q1 = ackdone q"
    using make_room [OF q] by blast
  moreover obtain i where "emap q1 (message_PacketId m) = Some i" using emap_None [OF q1(2)] id by fastforce
  ultimately show ?thesis using dup by (cases m) (auto simp: aq_insert_def)
qed

lemma Ack_ok:
  assumes q: "queue_of q ms" and pool: "pool_ok (pool q)" and fit: "fits m"
    and t: "message_Type m \<in> {PUBACK, PUBREC, PUBREL, PUBCOMP, SUBACK, UNSUBACK}"
    and k: "k < length ms" "Pktid (ms ! k) = message_PacketId m"
  shows "\<exists>q' m' g' b. Ack q m g = Some ((q', m', None), g') \<and> whole b \<and> encoded_into m g m' b g'
           \<and> queue_of q' (ms[k := (ms ! k)\<lparr>State := message_Type m, Ackbuf := b\<rparr>])
           \<and> pool_ok (pool q') \<and> ping q' = ping q \<and> ackdone q' = ackdone q"
proof -
  have ok: "ring_ok q" using q by (simp add: queue_of_def)
  have em: "emap q (message_PacketId m) = Some (slot q k)" using q k unfolding queue_of_def by blast
  have get: "ring_get q (slot q k) = Some (Some (ms ! k))"
    using slot_bounds [OF ok, of k] q k(1) by (simp add: ring_get_def queue_of_def)
  obtain n m1 where m1: "message_Len m = Some (n, m1)" "0 \<le> n"
      "\<And>b. whole b \<Longrightarrow> n \<le> go_len b \<Longrightarrow>
         \<exists>m2 b' k g'. message_Encode m1 b g = Some ((m2, b', k, None), g') \<and> whole b'"
    using fit unfolding fits_def by meson
  obtain b bp where b: "BytesPool_Get (pool q) n = Some (b, bp)" "whole b" "n \<le> go_len b" "pool_ok bp"
    using Get_ok [OF pool m1(2)] by blast
  obtain m2 b' j g' where m2: "message_Encode m1 b g = Some ((m2, b', j, None), g')" "whole b'"
    using m1(3) [OF b(2,3)] by blast
  let ?a = "(ms ! k)\<lparr>State := message_Type m, Ackbuf := b'\<rparr>"
  let ?q = "(q\<lparr>pool := bp\<rparr>)\<lparr>ring := (ring (q\<lparr>pool := bp\<rparr>))[nat (slot (q\<lparr>pool := bp\<rparr>) k) := Some ?a]\<rparr>"
  have sl: "slot (q\<lparr>pool := bp\<rparr>) k = slot q k" by (simp add: slot_def)
  have "queue_of ?q (ms[k := ?a])" by (rule queue_of_change) (use q k in simp_all)
  moreover have "Ack q m g = Some ((?q, m2, None), g')"
    using t em get m1(1) b(1) m2(1) slot_bounds [OF ok, of k] sl
    by (simp add: Ack_def Let_def ring_set_def del: insert_iff)
  moreover have "encoded_into m g m2 b' g'" using m1(1) b(2,3) m2(1) by (auto simp: encoded_into_def)
  ultimately show ?thesis using b(4) m2(2) by (intro exI [of _ ?q] exI [of _ m2] exI [of _ g'] exI [of _ b']) simp
qed

section \<open>The contract\<close>

text \<open>
  Pending messages: the packet identifier, whether the acknowledgement is complete, and the time since
  when it waits.
\<close>

type_synonym pending = "(uint16 \<times> bool \<times> int) list"

datatype ack_op = Waiting uint16 int | Acking uint16 bool | Collect | Expire int

text \<open>One step: the pending messages afterwards and the identifiers handed back.\<close>

fun ack_spec :: "ack_op \<Rightarrow> pending \<Rightarrow> pending \<times> uint16 list" where
  "ack_spec (Waiting i t) ps = (if i \<in> fst ` set ps then ps else ps @ [(i, False, t)], [])"
| "ack_spec (Acking i c) ps = (map (\<lambda>(j, b, t). if j = i then (j, c, t) else (j, b, t)) ps, [])"
| "ack_spec Collect ps = (dropWhile (\<lambda>(i, b, t). b) ps, map fst (takeWhile (\<lambda>(i, b, t). b) ps))"
| "ack_spec (Expire now) ps = (dropWhile (\<lambda>(i, b, t). t + 5 < now) ps, [])"

fun ack_spec_run :: "ack_op list \<Rightarrow> pending \<Rightarrow> pending \<times> uint16 list" where
  "ack_spec_run [] ps = (ps, [])"
| "ack_spec_run (op # ops) ps =
     (case ack_spec op ps of (ps, out) \<Rightarrow> case ack_spec_run ops ps of (ps, out') \<Rightarrow> (ps, out @ out'))"

text \<open>The identifiers that a run takes in: a message whose identifier is pending is not taken again.\<close>

fun entered :: "ack_op list \<Rightarrow> pending \<Rightarrow> uint16 list" where
  "entered [] ps = []"
| "entered (op # ops) ps =
     (case op of Waiting i t \<Rightarrow> if i \<in> fst ` set ps then [] else [i] | _ \<Rightarrow> []) @ entered ops (fst (ack_spec op ps))"

lemma ack_spec_fifo:
  assumes "\<forall>now. op \<noteq> Expire now" and "ack_spec op ps = (ps', out)"
  shows "out @ map fst ps' = map fst ps @ entered [op] ps"
proof (cases op)
  case (Waiting i t)
  with assms(2) show ?thesis by (cases "i \<in> fst ` set ps") (simp, clarsimp)
next
  case (Acking i c)
  then have "map fst ps' = map fst ps" using assms(2) by (auto simp: comp_def case_prod_unfold)
  with Acking assms(2) show ?thesis by auto
next
  case Collect
  then show ?thesis using assms(2) by (auto simp flip: map_append)
qed (use assms in auto)

lemma ack_spec_run_fifo:
  "\<forall>now. Expire now \<notin> set ops \<Longrightarrow> ack_spec_run ops ps = (ps', out) \<Longrightarrow>
   out @ map fst ps' = map fst ps @ entered ops ps"
proof (induction ops arbitrary: ps ps' out)
  case (Cons op ops)
  obtain ps1 out1 where 1: "ack_spec op ps = (ps1, out1)" by (cases "ack_spec op ps")
  obtain ps2 out2 where 2: "ack_spec_run ops ps1 = (ps2, out2)" by (cases "ack_spec_run ops ps1")
  have "out1 @ map fst ps1 = map fst ps @ entered [op] ps" using ack_spec_fifo [OF _ 1] Cons.prems(1) by auto
  moreover have "out2 @ map fst ps2 = map fst ps1 @ entered ops ps1" using Cons.IH [OF _ 2] Cons.prems(1) by auto
  moreover have "ps' = ps2" "out = out1 @ out2" using Cons.prems(2) 1 2 by auto
  ultimately show ?case using 1 by simp
qed simp

text \<open>Running a list of operations of an implementation, collecting what is handed back.\<close>

fun run_ops :: "('op \<Rightarrow> 's \<Rightarrow> ('s \<times> 'o list) option) \<Rightarrow> 'op list \<Rightarrow> 's \<Rightarrow> ('s \<times> 'o list) option" where
  "run_ops step [] s = Some (s, [])"
| "run_ops step (op # ops) s =
     do { (s, out) \<leftarrow> step op s; (s, out') \<leftarrow> run_ops step ops s; Some (s, out @ out') }"

locale ack_store =
  fixes step :: "'op \<Rightarrow> 's \<Rightarrow> ('s \<times> uint16 list) option"
    and rep :: "'s \<Rightarrow> pending \<Rightarrow> bool"
    and lab :: "'op \<Rightarrow> ack_op"
    and fine :: "'op \<Rightarrow> bool"
  assumes sim: "rep s ps \<Longrightarrow> fine op \<Longrightarrow> ack_spec (lab op) ps = (ps', out) \<Longrightarrow>
    \<exists>s'. step op s = Some (s', out) \<and> rep s' ps'"
begin

lemma run_refines:
  "\<forall>op \<in> set ops. fine op \<Longrightarrow> rep s ps \<Longrightarrow> ack_spec_run (map lab ops) ps = (ps', out) \<Longrightarrow>
   \<exists>s'. run_ops step ops s = Some (s', out) \<and> rep s' ps'"
proof (induction ops arbitrary: s ps ps' out)
  case (Cons op ops)
  obtain ps1 out1 where 1: "ack_spec (lab op) ps = (ps1, out1)" by (cases "ack_spec (lab op) ps")
  obtain ps2 out2 where 2: "ack_spec_run (map lab ops) ps1 = (ps2, out2)" by (cases "ack_spec_run (map lab ops) ps1")
  obtain s1 where s1: "step op s = Some (s1, out1)" "rep s1 ps1" using sim [OF Cons.prems(2) _ 1] Cons.prems(1) by auto
  from Cons.IH [OF _ s1(2) 2] Cons.prems(1) obtain s2 where "run_ops step ops s1 = Some (s2, out2)" "rep s2 ps2" by auto
  with s1 1 2 Cons.prems(3) show ?case by auto
qed simp

lemma in_order:
  assumes "\<forall>op \<in> set ops. fine op \<and> (\<forall>now. lab op \<noteq> Expire now)" and "rep s ps"
  shows "\<exists>s' out ps'. run_ops step ops s = Some (s', out) \<and> rep s' ps'
           \<and> out @ map fst ps' = map fst ps @ entered (map lab ops) ps"
proof -
  obtain ps' out where r: "ack_spec_run (map lab ops) ps = (ps', out)" by (cases "ack_spec_run (map lab ops) ps")
  with run_refines [OF _ assms(2) r] assms(1) obtain s' where "run_ops step ops s = Some (s', out)" "rep s' ps'" by auto
  moreover have "out @ map fst ps' = map fst ps @ entered (map lab ops) ps"
  proof (rule ack_spec_run_fifo [OF allI r])
    show "Expire now \<notin> set (map lab ops)" for now using assms(1) by (metis imageE list.set_map)
  qed
  ultimately show ?thesis by blast
qed

end

section \<open>The queue keeps it\<close>

datatype aq_op = OpWait message "nat option" int | OpAck message | OpAcked | OpTick int

definition aq_step :: "aq_op \<Rightarrow> Ackqueue \<times> uint64 \<Rightarrow> ((Ackqueue \<times> uint64) \<times> uint16 list) option" where
  "aq_step op s =
     (case (op, s) of
        (OpWait m oc now, (q, g)) \<Rightarrow> map_option (\<lambda>((q, _), g). ((q, g), [])) (Wait q m oc now g)
      | (OpAck m, (q, g)) \<Rightarrow> map_option (\<lambda>((q, _), g). ((q, g), [])) (Ack q m g)
      | (OpAcked, (q, g)) \<Rightarrow> map_option (\<lambda>q. ((q, g), map Pktid (ackdone q))) (Acked q)
      | (OpTick now, (q, g)) \<Rightarrow> map_option (\<lambda>(q, _). ((q, g), [])) (Clear_tick now q))"

fun aq_label :: "aq_op \<Rightarrow> ack_op" where
  "aq_label (OpWait m oc now) = Waiting (message_PacketId m) now"
| "aq_label (OpAck m) = Acking (message_PacketId m) (ack_complete (message_Type m))"
| "aq_label OpAcked = Collect"
| "aq_label (OpTick now) = Expire now"

text \<open>Messages that are acknowledged by identifier, and the acknowledgements for them.\<close>

fun aq_fine :: "aq_op \<Rightarrow> bool" where
  "aq_fine (OpWait m oc now) \<longleftrightarrow>
     fits m \<and> (case m of MPublish pm \<Rightarrow> Dup pm \<noteq> None \<and> QoS pm \<notin> {None, Some QosAtMostOnce}
                       | MSubscribe _ \<Rightarrow> True | MUnsubscribe _ \<Rightarrow> True | _ \<Rightarrow> False)"
| "aq_fine (OpAck m) \<longleftrightarrow> fits m \<and> message_Type m \<in> {PUBACK, PUBREC, PUBREL, PUBCOMP, SUBACK, UNSUBACK}"
| "aq_fine OpAcked \<longleftrightarrow> True"
| "aq_fine (OpTick now) \<longleftrightarrow> True"

definition entry :: "ackmsg \<Rightarrow> uint16 \<times> bool \<times> int" where
  "entry a = (Pktid a, complete a, timestamp a)"

definition aq_rep :: "Ackqueue \<times> uint64 \<Rightarrow> pending \<Rightarrow> bool" where
  "aq_rep s ps \<longleftrightarrow>
     (\<exists>ms. queue_of (fst s) ms \<and> ps = map entry ms \<and> pool_ok (pool (fst s))
        \<and> (\<forall>a \<in> set ms. whole (Msgbuf a) \<and> whole (Ackbuf a))
        \<and> (\<exists>p. ping (fst s) = Some p \<and> State p \<noteq> PINGRESP))"

lemma aq_rep_new:
  assumes "newAckqueue n ''Pub1ack'' ks = Some q" and "1 \<le> n" and "n \<le> 2 ^ 62"
  shows "aq_rep (q, g) []"
proof -
  have "pool_ok (pool q)" "ping q = Some ackmsg0"
    using assms(1) by (auto simp: newAckqueue_def Let_def BytesPool_init_def pool_ok_def split: if_splits)
  with queue_of_new(1) [OF assms] show ?thesis by (simp add: aq_rep_def)
qed

lemma sim_wait:
  assumes "aq_rep (q, g) ps" and fine: "aq_fine (OpWait m oc now)"
  shows "\<exists>s'. aq_step (OpWait m oc now) (q, g) = Some (s', []) \<and> aq_rep s' (fst (ack_spec (Waiting (message_PacketId m) now) ps))"
proof -
  obtain ms p where q: "queue_of q ms" "ps = map entry ms" "pool_ok (pool q)"
      "\<forall>a \<in> set ms. whole (Msgbuf a) \<and> whole (Ackbuf a)" "ping q = Some p" "State p \<noteq> PINGRESP"
    using assms(1) by (auto simp: aq_rep_def)
  have fit: "fits m" using fine by simp
  have W: "Wait q m oc now g = map_option (\<lambda>((q, m, _), g). ((q, m, None), g)) (aq_insert q (message_PacketId m) m oc now g)"
    using fine by (cases m; cases "aq_insert q (message_PacketId m) m oc now g") (auto simp: Wait_def Let_def)
  have ids: "fst ` set ps = Pktid ` set ms" by (simp add: q(2) entry_def image_image)
  show ?thesis
  proof (cases "message_PacketId m \<in> Pktid ` set ms")
    case True
    have dup: "Dup pm \<noteq> None" if "m = MPublish pm" for pm using fine that by auto
    from aq_insert_dup [OF q(1) True dup, of oc now g] obtain q' e where
      "aq_insert q (message_PacketId m) m oc now g = Some ((q', m, e), g)" "queue_of q' ms" "pool q' = pool q" "ping q' = ping q"
      by blast
    with True ids q W show ?thesis by (auto simp: aq_step_def aq_rep_def)
  next
    case False
    obtain q' m' g' a where "aq_insert q (message_PacketId m) m oc now g = Some ((q', m', None), g')" "queue_of q' (ms @ [a])"
        "pool_ok (pool q')" "ping q' = ping q" "Pktid a = message_PacketId m" "State a = RESERVED" "timestamp a = now"
        "whole (Msgbuf a)" "whole (Ackbuf a)"
      using aq_insert_new [OF q(1,3) fit False, of oc now g] by blast
    with False ids q W show ?thesis
      by (auto simp: aq_step_def aq_rep_def entry_def ack_complete_def intro!: exI [of _ "ms @ [a]"])
  qed
qed

lemma sim_ack:
  assumes "aq_rep (q, g) ps" and fine: "aq_fine (OpAck m)"
  shows "\<exists>s'. aq_step (OpAck m) (q, g) = Some (s', [])
           \<and> aq_rep s' (fst (ack_spec (Acking (message_PacketId m) (ack_complete (message_Type m))) ps))"
proof -
  obtain ms p where q: "queue_of q ms" "ps = map entry ms" "pool_ok (pool q)"
      "\<forall>a \<in> set ms. whole (Msgbuf a) \<and> whole (Ackbuf a)" "ping q = Some p" "State p \<noteq> PINGRESP"
    using assms(1) by (auto simp: aq_rep_def)
  have fit: "fits m" and t: "message_Type m \<in> {PUBACK, PUBREC, PUBREL, PUBCOMP, SUBACK, UNSUBACK}"
    using fine by simp_all
  let ?mark = "\<lambda>(j, b, t). if j = message_PacketId m then (j, ack_complete (message_Type m), t) else (j, b, t :: int)"
  show ?thesis
  proof (cases "message_PacketId m \<in> Pktid ` set ms")
    case False
    then have "Pktid a \<noteq> message_PacketId m" if "a \<in> set ms" for a using that by (metis imageI)
    then have "map ?mark ps = ps" unfolding q(2) by (auto simp: entry_def intro!: map_idI)
    moreover have "emap q (message_PacketId m) = None" using False emap_None [OF q(1)] by blast
    then have "Ack q m g = Some ((q, m, None), g)" using t by (simp add: Ack_def Let_def del: insert_iff)
    ultimately show ?thesis using assms(1) by (simp add: aq_step_def)
  next
    case True
    then obtain k where k: "k < length ms" "Pktid (ms ! k) = message_PacketId m" by (metis imageE in_set_conv_nth)
    obtain q' m' g' b where q': "Ack q m g = Some ((q', m', None), g')" "whole b"
        "queue_of q' (ms[k := (ms ! k)\<lparr>State := message_Type m, Ackbuf := b\<rparr>])" "pool_ok (pool q')" "ping q' = ping q"
      using Ack_ok [OF q(1,3) fit t k, of g] by blast
    have "map ?mark ps = map entry (ms[k := (ms ! k)\<lparr>State := message_Type m, Ackbuf := b\<rparr>])"
    proof (rule nth_equalityI)
      fix j assume j: "j < length (map ?mark ps)"
      have "Pktid (ms ! j) = message_PacketId m \<longleftrightarrow> j = k"
        using q(1) j k nth_eq_iff_index_eq [of "map Pktid ms" j k] unfolding queue_of_def q(2) by auto
      with j k q(2) show "map ?mark ps ! j = map entry (ms[k := (ms ! k)\<lparr>State := message_Type m, Ackbuf := b\<rparr>]) ! j"
        by (cases "j = k") (simp_all add: entry_def)
    qed (simp add: q(2))
    moreover have "\<forall>a \<in> set (ms[k := (ms ! k)\<lparr>State := message_Type m, Ackbuf := b\<rparr>]). whole (Msgbuf a) \<and> whole (Ackbuf a)"
      using q(4) q'(2) k(1) by (auto dest!: set_update_subset_insert [THEN subsetD])
    ultimately show ?thesis using q' q(5,6) by (auto simp: aq_step_def aq_rep_def)
  qed
qed

lemma sim_acked:
  assumes "aq_rep (q, g) ps"
  shows "\<exists>s'. aq_step OpAcked (q, g) = Some (s', map fst (takeWhile (\<lambda>(i, b, t). b) ps))
           \<and> aq_rep s' (dropWhile (\<lambda>(i, b, t). b) ps)"
proof -
  obtain ms p where q: "queue_of q ms" "ps = map entry ms" "pool_ok (pool q)"
      "\<forall>a \<in> set ms. whole (Msgbuf a) \<and> whole (Ackbuf a)" "ping q = Some p" "State p \<noteq> PINGRESP"
    using assms(1) by (auto simp: aq_rep_def)
  have "queue_of (q\<lparr>ackdone := []\<rparr>) ms" using q(1) by simp
  from acked_loop_ok [OF this] obtain q' where q': "acked_loop (q\<lparr>ackdone := []\<rparr>) = Some q'"
    "queue_of q' (dropWhile complete ms)" "ackdone q' = takeWhile complete ms" "pool q' = pool q" "ping q' = ping q" by auto
  have "Acked q = Some q'" using q(5,6) q'(1) by (simp add: Acked_def Let_def)
  moreover have "(\<lambda>(i, b, t). b) \<circ> entry = complete" by (auto simp: entry_def fun_eq_iff)
  then have "takeWhile (\<lambda>(i, b, t). b) ps = map entry (takeWhile complete ms)"
    "dropWhile (\<lambda>(i, b, t). b) ps = map entry (dropWhile complete ms)"
    unfolding q(2) by (simp_all add: takeWhile_map dropWhile_map)
  moreover have "\<forall>a \<in> set (dropWhile complete ms). whole (Msgbuf a) \<and> whole (Ackbuf a)"
    using q(4) set_dropWhileD by fast
  moreover have "map fst (map entry xs) = map Pktid xs" for xs by (simp add: entry_def)
  ultimately show ?thesis using q' q(3,5,6) by (auto simp: aq_step_def aq_rep_def)
qed

lemma sim_tick:
  assumes "aq_rep (q, g) ps"
  shows "\<exists>s'. aq_step (OpTick now) (q, g) = Some (s', []) \<and> aq_rep s' (dropWhile (\<lambda>(i, b, t). t + 5 < now) ps)"
proof -
  obtain ms p where q: "queue_of q ms" "ps = map entry ms" "pool_ok (pool q)"
      "\<forall>a \<in> set ms. whole (Msgbuf a) \<and> whole (Ackbuf a)" "ping q = Some p" "State p \<noteq> PINGRESP"
    using assms(1) by (auto simp: aq_rep_def)
  from clear_loop1_ok [OF q(1,3,4), of now] obtain q' where q': "clear_loop1 now (qhead q) q = Some q'"
    "queue_of q' (dropWhile (expired now) ms)" "pool_ok (pool q')" "ping q' = ping q" by blast
  have "ring q \<noteq> []" using q(1) by (auto simp: queue_of_def ring_ok_def)
  then have "Clear_tick now q = Some (q', True)" using q'(1) by (simp add: Clear_tick_def)
  moreover have "(\<lambda>(i, b, t). t + 5 < now) \<circ> entry = expired now" by (auto simp: entry_def fun_eq_iff)
  then have "dropWhile (\<lambda>(i, b, t). t + 5 < now) ps = map entry (dropWhile (expired now) ms)"
    unfolding q(2) by (simp add: dropWhile_map)
  moreover have "\<forall>a \<in> set (dropWhile (expired now) ms). whole (Msgbuf a) \<and> whole (Ackbuf a)"
    using q(4) set_dropWhileD by fast
  ultimately show ?thesis using q' q(5,6) by (auto simp: aq_step_def aq_rep_def)
qed

interpretation aq: ack_store aq_step aq_rep aq_label aq_fine
proof unfold_locales
  fix s ps op ps' out
  assume a: "aq_rep s ps" "aq_fine op" "ack_spec (aq_label op) ps = (ps', out)"
  obtain q g where s: "s = (q, g)" by (cases s)
  show "\<exists>s'. aq_step op s = Some (s', out) \<and> aq_rep s' ps'"
  proof (cases op)
    case (OpWait m oc now)
    with sim_wait [of q g ps m oc now] a s show ?thesis by auto
  next
    case (OpAck m)
    with sim_ack [of q g ps m] a s show ?thesis by auto
  next
    case OpAcked
    with sim_acked [of q g ps] a s show ?thesis by auto
  next
    case (OpTick now)
    with sim_tick [of q g ps now] a s show ?thesis by auto
  qed
qed

section \<open>Properties\<close>

text \<open>A PUBLISH with QoS 1 and the identifier 5 that is to be sent, and the PUBACK for it as received.\<close>

definition waiting_publish :: PublishMessage where
  "waiting_publish =
     \<lparr>remlen = 0, mtypeflags = Own [0x32], packetId = Own [0, 5], dbuf = slice_of [], dirty = True,
      topic = [97], payload = [1]\<rparr>"

definition received_puback :: PubackMessage where
  "received_puback =
     \<lparr>remlen = 2, mtypeflags = InDbuf 0 1, packetId = InDbuf 2 2, dbuf = slice_of [0x40, 2, 0, 5], dirty = False\<rparr>"

lemma example_ids:
  "message_PacketId (MPublish waiting_publish) = 5" "message_PacketId (MPuback received_puback) = 5"
  "message_Type (MPuback received_puback) = PUBACK"
  by code_simp+

lemma example_fine: "aq_fine (OpWait (MPublish waiting_publish) oc now)" "aq_fine (OpAck (MPuback received_puback))"
proof -
  have "message_good (MPublish waiting_publish)"
    by (simp add: message_good_def waiting_publish_def MessageType_Valid_iff sendable_def flags_ok_def
        ValidQos_def publish_len_def publish_id_bytes_def ValidTopic_def views_ok_def qos_of_def)
  moreover have "Dup waiting_publish = Some False" "QoS waiting_publish = Some 1" by code_simp+
  ultimately show "aq_fine (OpWait (MPublish waiting_publish) oc now)" by (simp add: fits_publish)
  have "fits (MPuback received_puback)" by (rule fits_clean) (simp_all add: received_puback_def)
  then show "aq_fine (OpAck (MPuback received_puback))" by (simp add: example_ids)
qed

lemma new_queue: "\<exists>q. newAckqueue 16 t ks = Some q"
proof -
  have "powerOfTwo64 16" by code_simp
  then show ?thesis by (simp add: newAckqueue_def Let_def)
qed

text \<open>
  C2: the ring buffer implements the list: started empty by \<open>newAckqueue\<close>, every sequence of \<open>Wait\<close>, \<open>Ack\<close>, \<open>Acked\<close>
  and ticks of \<open>Clear\<close>, in any order, runs without a panic, whatever the pool of buffers hands out and
  however often the ring has to grow or wraps around; what \<open>Acked\<close> returns, and what stays in the queue, is
  what the plain first-in-first-out list of pending identifiers says.
\<close>

theorem ackqueue_refines_list:
  assumes "newAckqueue n ''Pub1ack'' ks = Some q" and "1 \<le> n" and "n \<le> 2 ^ 62"
    and "\<forall>op \<in> set ops. aq_fine op" and "ack_spec_run (map aq_label ops) [] = (ps, out)"
  shows "\<exists>s. run_ops aq_step ops (q, g) = Some (s, out) \<and> aq_rep s ps"
  by (rule aq.run_refines [OF assms(4) aq_rep_new [OF assms(1-3)] assms(5)])

theorem ackqueue_refines_list_witness:
  "\<exists>q s. newAckqueue 16 ''Pub1ack'' [] = Some q
     \<and> run_ops aq_step [OpWait (MPublish waiting_publish) None 0, OpAck (MPuback received_puback), OpAcked, OpTick 9] (q, 0) = Some (s, [5])
     \<and> aq_rep s []"
proof -
  obtain q where q: "newAckqueue 16 ''Pub1ack'' [] = Some q" using new_queue by blast
  let ?ops = "[OpWait (MPublish waiting_publish) None 0, OpAck (MPuback received_puback), OpAcked, OpTick 9]"
  have "ack_spec_run (map aq_label ?ops) [] = ([], [5])" by (simp add: example_ids ack_complete_def)
  from ackqueue_refines_list [OF q _ _ _ this, of 0] q show ?thesis by (auto simp: example_fine simp del: aq_fine.simps(1,2))
qed





text \<open>
  The capacity of a new queue is the size asked for, rounded up to a power of two, and less than twice
  that size; the queue starts empty.
\<close>

theorem queue_capacity:
  assumes "newAckqueue n t ks = Some q" and "1 \<le> n" and "n \<le> 2 ^ 62"
  shows "(\<exists>k. aq_cap q = 2 ^ k) \<and> n \<le> aq_cap q \<and> aq_cap q < 2 * n \<and> aq_len q = 0"
  using queue_of_new [OF assms] by (auto simp: aq_cap_def aq_len_def queue_of_def ring_ok_def)

theorem queue_capacity_witness:
  "\<exists>q. newAckqueue 16 ''Suback'' [] = Some q
     \<and> (\<exists>k. aq_cap q = 2 ^ k) \<and> 16 \<le> aq_cap q \<and> aq_cap q < 2 * 16 \<and> aq_len q = 0"
proof -
  obtain q where q: "newAckqueue 16 ''Suback'' [] = Some q" using new_queue by blast
  from queue_capacity [OF this] q show ?thesis by simp
qed

text \<open>
  C35: only the queue for outgoing QoS 1 messages has its pool of buffers set up: on a new queue of any other
  kind, waiting for the acknowledgement of a SUBSCRIBE of less than 8192 bytes panics.
\<close>

theorem other_queues_panic:
  assumes "newAckqueue n t ks = Some q" and "1 \<le> n" and "n \<le> 2 ^ 62" and "t \<noteq> ''Pub1ack''"
    and "message_Len (MSubscribe m) = Some (l, m1)" and "l < 8192"
  shows "Wait q (MSubscribe m) oc now g = None"
proof -
  have q: "queue_of q []" and nf: "\<not> aq_full q"
    using queue_of_new [OF assms(1-3)] assms(2) by (auto simp: aq_full_def queue_of_def)
  have "pool q = \<lparr>items = [], picks = ks, has_New = False, width = 8192\<rparr>"
    using assms(1,4) by (auto simp: newAckqueue_def Let_def split: if_splits)
  then have "BytesPool_Get (pool q) l = None" using assms(6) by (simp add: BytesPool_Get_def Let_def split: list.split)
  moreover have "emap q p = None" for p using emap_None [OF q] by simp
  ultimately show ?thesis using nf assms(5) by (simp add: Wait_def aq_insert_def)
qed

theorem other_queues_panic_witness:
  "\<exists>q. newAckqueue 16 ''Suback'' [] = Some q \<and> Wait q (MSubscribe NewSubscribeMessage) None 0 0 = None"
proof -
  obtain q where q: "newAckqueue 16 ''Suback'' [] = Some q" using new_queue by blast
  obtain l m1 where "message_Len (MSubscribe NewSubscribeMessage) = Some (l, m1)" "l < 8192"
  proof -
    have "map_option fst (message_Len (MSubscribe NewSubscribeMessage)) = Some 4" by code_simp
    then show thesis using that by (auto simp del: message_Len.simps)
  qed
  from other_queues_panic [OF q _ _ _ this] q show ?thesis by simp
qed

text \<open>
  C39: the check of the DUP flag is the wrong way round: when the identifier of a PUBLISH is already waiting,
  \<open>insert\<close> accepts the message silently if DUP is not set, and if it is set returns the error that says that it
  is not set.
\<close>

theorem dup_check_inverted:
  assumes "queue_of q ms" and "message_PacketId (MPublish m) \<in> Pktid ` set ms" and "Dup m = Some d"
  shows "\<exists>q'. queue_of q' ms
           \<and> aq_insert q (message_PacketId (MPublish m)) (MPublish m) oc now g =
               Some ((q', MPublish m,
                      if d then Some (Errorf ''ack/insert: duplicate packet ID for PUBLISH message, but DUP flag is not set'' [])
                      else None), g)"
proof -
  obtain q1 where q1: "(if aq_full q then aq_grow q else Some q) = Some q1" "queue_of q1 ms"
    using make_room [OF assms(1)] by blast
  moreover obtain i where "emap q1 (message_PacketId (MPublish m)) = Some i"
    using emap_None [OF q1(2)] assms(2) by fastforce
  ultimately show ?thesis using assms(3) by (simp add: aq_insert_def)
qed

text \<open>A queue of capacity 2 in which the message with the identifier 5 waits.\<close>

definition one_waiting :: Ackqueue where
  "one_waiting =
     \<lparr>qsize = 2, qmask = 1, qcount = 1, qhead = 0, qtail = 1, ping = Some ackmsg0, ring = [Some (ackmsg0\<lparr>Pktid := 5\<rparr>), None],
      emap = [5 \<mapsto> 0], ackdone = [], pool = \<lparr>items = [], picks = [], has_New = True, width = 8192\<rparr>, Done_closed = False\<rparr>"

lemma one_waiting_queue: "queue_of one_waiting [ackmsg0\<lparr>Pktid := 5\<rparr>]"
  by (auto simp: queue_of_def ring_ok_def slot_def one_waiting_def intro: exI [of _ 1])

theorem dup_check_inverted_witness:
  "\<exists>q'. queue_of q' [ackmsg0\<lparr>Pktid := 5\<rparr>]
     \<and> aq_insert one_waiting (message_PacketId (MPublish waiting_publish)) (MPublish waiting_publish) None 0 0 =
         Some ((q', MPublish waiting_publish,
                if False then Some (Errorf ''ack/insert: duplicate packet ID for PUBLISH message, but DUP flag is not set'' [])
                else None), 0)"
proof (rule dup_check_inverted [OF one_waiting_queue])
  show "Dup waiting_publish = Some False" by code_simp
qed (simp add: example_ids)

end
