(* ===== verification/Send_Props.thy ===== *)
theory Send_Props
  imports Process Ack_Spec
begin

text \<open>
  Sending through the pooled writers puts exactly the packet on the connection, and the operations on the queues of a
  session change that session alone.
\<close>

section \<open>Writers\<close>

text \<open>The pools of writers, which nothing else depends on.\<close>

abbreviation pools :: "bufwriter list \<Rightarrow> bufwriter list \<Rightarrow> nat list \<Rightarrow> broker \<Rightarrow> broker" where
  "pools p2 p4 pk w \<equiv> w\<lparr>bufioWriter2kPool := p2, bufioWriter4kPool := p4, bw_picks := pk\<rparr>"

lemma write_flush:
  assumes "bw_buf b = []" and "bw_err b = None" and "writable c"
  obtains b1 c1 b2 where "bw_Write b c p = (b1, c1)" and "bw_err b1 = None" and "bw_Flush b1 c1 = (b2, wrote c p)"
    and "bw_err b2 = None"
proof (cases "length p \<le> bw_size b")
  case True
  show thesis
  proof (rule that [of "b\<lparr>bw_buf := p\<rparr>" c "b\<lparr>bw_buf := []\<rparr>"])
    show "bw_Write b c p = (b\<lparr>bw_buf := p\<rparr>, c)" using True assms(1,2) by (simp add: bw_Write_def bw_Available_def Let_def)
    show "bw_Flush (b\<lparr>bw_buf := p\<rparr>) c = (b\<lparr>bw_buf := []\<rparr>, wrote c p)" using assms by (auto simp: bw_Flush_def)
  qed (use assms in simp_all)
next
  case False
  show thesis
  proof (rule that [of "b\<lparr>bw_err := None\<rparr>" "wrote c p" "b\<lparr>bw_err := None\<rparr>"])
    show "bw_Write b c p = (b\<lparr>bw_err := None\<rparr>, wrote c p)"
      using False assms by (simp add: bw_Write_def bw_Available_def Let_def)
    show "bw_Flush (b\<lparr>bw_err := None\<rparr>) (wrote c p) = (b\<lparr>bw_err := None\<rparr>, wrote c p)" using assms by (simp add: bw_Flush_def)
  qed simp_all
qed

lemma bw_pool_Get_ok: "\<exists>v p2 p4 pk. bw_pool_Get four w = (Done v, pools p2 p4 pk w)"
proof -
  let ?items = "if four then bufioWriter4kPool w else bufioWriter2kPool w"
  let ?k = "case bw_picks w of [] \<Rightarrow> length ?items | k # _ \<Rightarrow> k"
  let ?rest = "if ?k < length ?items then take ?k ?items @ drop (Suc ?k) ?items else ?items"
  have "bw_pool_Get four w =
    (Done (if ?k < length ?items then Some (?items ! ?k) else None),
     pools (if four then bufioWriter2kPool w else ?rest) (if four then ?rest else bufioWriter4kPool w) (tl (bw_picks w)) w)"
    by (simp add: bw_pool_Get_def Let_def)
  then show ?thesis by blast
qed

lemma newBufioWriterSize_ok:
  "\<exists>b p2 p4 pk. newBufioWriterSize n w = (Done b, pools p2 p4 pk w) \<and> bw_buf b = [] \<and> bw_err b = None"
proof (cases "bufioWriterPool n")
  case None
  then have "newBufioWriterSize n w = (Done (bw_new n), pools (bufioWriter2kPool w) (bufioWriter4kPool w) (bw_picks w) w)"
    by (simp add: newBufioWriterSize_def act_simps)
  moreover have "bw_buf (bw_new n) = []" "bw_err (bw_new n) = None" by (simp_all add: bw_new_def)
  ultimately show ?thesis by blast
next
  case (Some four)
  obtain v p2 p4 pk where "bw_pool_Get four w = (Done v, pools p2 p4 pk w)"
    using bw_pool_Get_ok by blast
  with Some show ?thesis
    by (auto simp: newBufioWriterSize_def act_simps bw_new_def bw_Reset_def split: option.split)
qed

lemma unchanged: "\<exists>p2 p4 pk. w = pools p2 p4 pk w"
proof -
  have "w = pools (bufioWriter2kPool w) (bufioWriter4kPool w) (bw_picks w) w" by simp
  then show ?thesis by blast
qed

lemma putBufioWriter_ok: "\<exists>p2 p4 pk. putBufioWriter b w = (Done (), pools p2 p4 pk w)"
proof (cases "bufioWriterPool (bw_Available (bw_Reset b))")
  case None
  then have "putBufioWriter b w = (Done (), pools (bufioWriter2kPool w) (bufioWriter4kPool w) (bw_picks w) w)"
    by (simp add: putBufioWriter_def act_simps Let_def)
  then show ?thesis by blast
next
  case (Some four)
  have "putBufioWriter b w = (Done (), pools (if four then bufioWriter2kPool w else bw_Reset b # bufioWriter2kPool w)
      (if four then bw_Reset b # bufioWriter4kPool w else bufioWriter4kPool w) (bw_picks w) w)"
    using Some by (simp add: putBufioWriter_def act_simps Let_def)
  then show ?thesis by blast
qed

lemma send_bytes_ok:
  assumes "c < length (conns w)" and "writable (conns w ! c)"
  shows "\<exists>p2 p4 pk. send_bytes c bs w = (Done None, pools p2 p4 pk (w\<lparr>conns := (conns w)[c := wrote (conns w ! c) bs]\<rparr>))"
proof -
  obtain b p2 p4 pk where b: "newBufioWriterSize (writer_size (length bs)) w = (Done b, pools p2 p4 pk w)" "bw_buf b = []" "bw_err b = None"
    using newBufioWriterSize_ok by blast
  obtain b1 c1 b2 where w: "bw_Write b (conns w ! c) bs = (b1, c1)" "bw_err b1 = None"
      "bw_Flush b1 c1 = (b2, wrote (conns w ! c) bs)" "bw_err b2 = None"
    by (rule write_flush [OF b(2,3) assms(2)])
  let ?w = "pools p2 p4 pk (w\<lparr>conns := (conns w)[c := wrote (conns w ! c) bs]\<rparr>)"
  have "\<exists>q2 q4 qk. (if writer_size (length bs) \<in> {2048, 4096, 8192} then putBufioWriter b2 else yield ()) ?w = (Done (), pools q2 q4 qk ?w)"
    using putBufioWriter_ok [of b2 ?w] unchanged [of ?w]
    by (cases "writer_size (length bs) \<in> {2048, 4096, 8192}") (simp_all only: if_True if_False act_eval prod.inject simp_thms)
  then obtain q2 q4 qk where p: "(if writer_size (length bs) \<in> {2048, 4096, 8192} then putBufioWriter b2 else yield ()) ?w = (Done (), pools q2 q4 qk ?w)"
    by blast
  have "on_conn c (bw_Flush b1) (pools p2 p4 pk (w\<lparr>conns := (conns w)[c := c1]\<rparr>)) = (Done b2, ?w)"
    using assms(1) w(3) by (simp add: on_conn_def)
  moreover have "on_conn c (\<lambda>c. bw_Write b c bs) (pools p2 p4 pk w) = (Done b1, pools p2 p4 pk (w\<lparr>conns := (conns w)[c := c1]\<rparr>))"
    using assms(1) w(1) by (simp add: on_conn_def)
  ultimately have "send_bytes c bs w = (Done None, pools q2 q4 qk ?w)"
    unfolding send_bytes_def Let_def using b(1) w(2,4)
    by (simp add: andThen_Done [where m = "if _ then _ else _", OF p] andThen_Done act_eval del: insert_iff if_split)
  then show ?thesis by auto
qed

section \<open>A packet\<close>

text \<open>A service that can send.\<close>

definition ready :: "broker \<Rightarrow> nat \<Rightarrow> nat \<Rightarrow> bool" where
  "ready w s c \<longleftrightarrow>
     s < length (services w) \<and> svc_conn (services w ! s) = Some c \<and> c < length (conns w) \<and> writable (conns w ! c)"

lemma sendData_encoded:
  assumes r: "ready w s c" and l: "message_Len m = Some (n, m1)"
    and e: "message_Encode m1 (make_bytes n) (gPacketId w) = Some ((m2, slice_of wire, n, None), g)" and n: "n = int (length wire)"
  shows "\<exists>p2 p4 pk. sendData s m w = (Done (m2, 0, None),
           pools p2 p4 pk (w\<lparr>gPacketId := g, conns := (conns w)[c := wrote (conns w ! c) wire]\<rparr>))"
proof -
  have "slice_range (slice_of wire) 0 n = Some (slice_of wire)"
    using n by (simp add: slice_range_def go_cap_def slice_of_def)
  moreover obtain p2 p4 pk where "send_bytes c wire (w\<lparr>gPacketId := g\<rparr>) =
      (Done None, pools p2 p4 pk (w\<lparr>gPacketId := g, conns := (conns w)[c := wrote (conns w ! c) wire]\<rparr>))"
    using send_bytes_ok [of c "w\<lparr>gPacketId := g\<rparr>" wire] r by (auto simp: ready_def)
  ultimately show ?thesis
    using r l e by (auto simp: sendData_def act_simps get_svc_def ready_def)
qed

lemma sendData_ok:
  assumes "ready w s c" and "message_good m"
  shows "\<exists>m2 p2 p4 pk. sendData s m w = (Done (m2, 0, None),
             pools p2 p4 pk (w\<lparr>gPacketId := snd (sent m (gPacketId w)), conns := (conns w)[c := wrote (conns w ! c) (message_wire m2)]\<rparr>))
           \<and> message_ok m2 \<and> content m2 = fst (sent m (gPacketId w)) \<and> kind m2 = kind m"
proof -
  obtain n m1 where 1: "message_Len m = Some (n, m1)" using mq.len_law [OF assms(2)] by blast
  obtain m2 where 2: "message_Encode m1 (make_bytes n) (gPacketId w) = Some ((m2, slice_of (message_wire m2), n, None), snd (sent m (gPacketId w)))"
    "message_ok m2" "content m2 = fst (sent m (gPacketId w))" "kind m2 = kind m" "n = int (length (message_wire m2))"
    using mq.enc_law [OF assms(2) 1, of "gPacketId w"] by blast
  show ?thesis using sendData_encoded [OF assms(1) 1 2(1,5)] 2(2-4) by blast
qed

text \<open>A PUBLISH stays one that can be sent, and gets an identifier.\<close>

lemma sendData_publish:
  assumes "ready w s c" and "message_good (MPublish m)" and "qos_of (mtypeflags_bytes m ! 0) \<noteq> 0"
  shows "\<exists>m2 p2 p4 pk. sendData s (MPublish m) w = (Done (MPublish m2, 0, None),
             pools p2 p4 pk (w\<lparr>gPacketId := snd (sent (MPublish m) (gPacketId w)),
               conns := (conns w)[c := wrote (conns w ! c) (message_wire (MPublish m2))]\<rparr>))
           \<and> message_good (MPublish m2) \<and> content (MPublish m2) = fst (sent (MPublish m) (gPacketId w)) \<and> PacketId m2 \<noteq> 0"
proof -
  obtain m1 m' where m': "message_ok (MPublish m')" "content (MPublish m') = fst (sent (MPublish m) (gPacketId w))"
    "encodable (MPublish m')" "PacketId m' \<noteq> 0"
    "publish_Len m = Some (int (length (message_wire (MPublish m'))), m1)"
    "\<And>dst. wf_slice dst \<Longrightarrow> length (message_wire (MPublish m')) \<le> sl_len dst \<Longrightarrow>
      publish_Encode m1 dst (gPacketId w) =
        Some ((m', fill dst (message_wire (MPublish m')), int (length (message_wire (MPublish m'))), None),
              snd (sent (MPublish m) (gPacketId w)))"
    using publish_encodes [OF assms(2), of "gPacketId w"] assms(3) by blast
  let ?n = "int (length (message_wire (MPublish m')))"
  have "message_Encode (MPublish m1) (make_bytes ?n) (gPacketId w) =
      Some ((MPublish m', slice_of (message_wire (MPublish m')), ?n, None), snd (sent (MPublish m) (gPacketId w)))"
    using m'(6) [of "make_bytes ?n"] fill_make_bytes [of ?n "message_wire (MPublish m')"] by (simp del: message_wire.simps)
  moreover have "message_Len (MPublish m) = Some (?n, MPublish m1)" using m'(5) by (simp del: message_wire.simps)
  ultimately show ?thesis
    using sendData_encoded [OF assms(1), of "MPublish m"] m'(1-4) unfolding message_good_def by blast
qed

section \<open>Sessions\<close>

text \<open>The session of a service.\<close>

definition session_of :: "broker \<Rightarrow> nat \<Rightarrow> Session \<Rightarrow> bool" where
  "session_of w s ss \<longleftrightarrow> s < length (services w) \<and> (\<exists>p. sess (services w ! s) = Some p \<and> sess_at w p = Some ss)"

definition put_session :: "nat \<Rightarrow> Session \<Rightarrow> broker \<Rightarrow> broker" where
  "put_session s ss w = put_sess (the (sess (services w ! s))) ss w"

lemma put_session_sess: "session_of w s ss \<Longrightarrow> \<exists>pkg. put_session s ss' w = w\<lparr>sess_pkg := pkg\<rparr>"
  by (auto simp: put_session_def put_sess_def session_of_def sess_at_def split: option.splits)

lemma put_session_fields [simp]:
  "services (put_session s ss w) = services w" "conns (put_session s ss w) = conns w" "server (put_session s ss w) = server w"
  "gPacketId (put_session s ss w) = gPacketId w" "MsgChan (put_session s ss w) = MsgChan w"
  "callbacks (put_session s ss w) = callbacks w" "tw_calls (put_session s ss w) = tw_calls w" "pushing (put_session s ss w) = pushing w"
  by (simp_all add: put_session_def put_sess_def split: option.split)

lemma sess_at_put:
  "sess_at (put_sess p ss w) q = (if q = p \<and> sess_at w p \<noteq> None then Some ss else sess_at w q)"
  by (auto simp: put_sess_def sess_at_def split: option.splits)

lemma sess_at_other [simp]:
  "sess_at (w\<lparr>conns := cs\<rparr>) = sess_at w" "sess_at (w\<lparr>services := vs\<rparr>) = sess_at w" "sess_at (w\<lparr>gPacketId := g\<rparr>) = sess_at w"
  "sess_at (w\<lparr>MsgChan := ms\<rparr>) = sess_at w" "sess_at (w\<lparr>callbacks := cbs\<rparr>) = sess_at w" "sess_at (w\<lparr>tw_calls := tc\<rparr>) = sess_at w"
  "sess_at (w\<lparr>bufioWriter2kPool := p2\<rparr>) = sess_at w" "sess_at (w\<lparr>bufioWriter4kPool := p4\<rparr>) = sess_at w"
  "sess_at (w\<lparr>bw_picks := pk\<rparr>) = sess_at w" "sess_at (w\<lparr>pushing := b\<rparr>) = sess_at w"
  by (simp_all add: sess_at_def fun_eq_iff cong: option.case_cong if_cong)

lemma session_of_put [simp]: "session_of w s ss \<Longrightarrow> session_of (put_session s ss' w) s ss'"
  by (auto simp: session_of_def) (simp add: put_session_def sess_at_put)

lemma on_session_ok:
  assumes "session_of w s ss" and "f ss (gPacketId w) = Some ((r, ss'), g)"
  shows "on_session s f w = (Done r, put_session s ss' (w\<lparr>gPacketId := g\<rparr>))"
  using assms by (auto simp: on_session_def session_of_def put_session_def)

lemma on_queue_ok:
  assumes "session_of w s ss" and "get_queue k ss = Some q" and "f q (gPacketId w) = Some ((r, q'), g)"
  shows "on_queue s k f w = (Done r, put_session s (set_queue k q' ss) (w\<lparr>gPacketId := g\<rparr>))"
proof -
  have "do { q \<leftarrow> get_queue k ss; ((r, q), g) \<leftarrow> f q (gPacketId w); Some ((r, set_queue k q ss), g) } = Some ((r, set_queue k q' ss), g)"
    using assms(2,3) by (cases k) simp_all
  then show ?thesis unfolding on_queue_def using assms(1) by (intro on_session_ok)
qed

lemma get_set_queue [simp]: "get_queue k (set_queue k q ss) = Some q"
  by (cases k) simp_all

lemma get_set_queue_other: "k \<noteq> j \<Longrightarrow> get_queue k (set_queue j q ss) = get_queue k ss"
  by (cases k; cases j) simp_all

end
