(* ===== verification/Receive.thy ===== *)
theory Receive
  imports Process
begin

text \<open>
  The receiving half of \<open>src/service/readwrite.go\<close> with \<open>timeoutReader\<close> of \<open>src/service/sendrecv.go\<close>: a \<open>bufio.Reader\<close> of
  1024 bytes on the connection, from which packet after packet is cut.
\<close>

section \<open>The buffered reader\<close>

definition timeoutReader_Read :: "conn \<Rightarrow> nat \<Rightarrow> bytes \<times> error option \<times> conn" where
  "timeoutReader_Read c sz = (if closed c then ([], Some net_ErrClosed, c) else conn_Read c sz)"

lemma timeoutReader_conn [simp]: "timeoutReader_Read c sz = conn_Read c sz"
  by (simp add: timeoutReader_Read_def conn_Read_def)

text \<open>A reader: the connection, the bytes that it holds, and the error that it keeps.\<close>

type_synonym breader = "conn \<times> bytes \<times> error option"

abbreviation defaultReadSize :: nat where "defaultReadSize \<equiv> 1024"

fun br_fill :: "nat \<Rightarrow> conn \<Rightarrow> bytes \<Rightarrow> breader" where
  "br_fill 0 c h = (c, h, Some (ErrNew ''multiple Read calls return no data or error''))"
| "br_fill (Suc k) c h =
     (case timeoutReader_Read c (defaultReadSize - length h) of
        (b, Some e, c) \<Rightarrow> (c, h @ b, Some e)
      | (b, None, c) \<Rightarrow> (if b = [] then br_fill k c h else (c, h @ b, None)))"

lemma br_fill_left:
  "br_fill k c h = (c', h', None) \<Longrightarrow> length h < defaultReadSize \<Longrightarrow> conn_left c' < conn_left c"
proof (induction k c h rule: br_fill.induct)
  case (2 k c h)
  obtain b e c1 where r: "conn_Read c (defaultReadSize - length h) = (b, e, c1)" by (cases "conn_Read c (defaultReadSize - length h)")
  show ?case
  proof (cases e)
    case None
    then have "conn_left c1 < conn_left c" using conn_Read_left r "2.prems"(2) by simp
    with "2.IH" "2.prems" r None show ?thesis by (cases "b = []") fastforce+
  qed (use "2.prems" r in simp)
qed simp

text \<open>\<open>Peek\<close>: the bytes, without removing them, or fewer bytes and the error.\<close>

function br_Peek :: "nat \<Rightarrow> breader \<Rightarrow> (bytes \<times> error option) \<times> breader" where
  "br_Peek n (c, h, e) =
     (if length h < n \<and> length h < defaultReadSize \<and> e = None then br_Peek n (br_fill 100 c h)
      else if defaultReadSize < n then ((h, Some (ErrNew ''bufio: buffer full'')), (c, h, e))
      else if length h < n then
        ((h, Some (case e of Some e \<Rightarrow> e | None \<Rightarrow> ErrNew ''bufio: buffer full'')), (c, h, None))
      else ((take n h, None), (c, h, e)))"
  by pat_completeness auto
termination
proof (relation "measure (\<lambda>(n, c, h, e). case e of None \<Rightarrow> Suc (conn_left c) | Some _ \<Rightarrow> 0)", simp, clarsimp)
  fix n c and h :: bytes
  assume "length h < defaultReadSize"
  then show "(case br_fill 100 c h of (c, h, e) \<Rightarrow> case e of None \<Rightarrow> Suc (conn_left c) | Some x \<Rightarrow> 0) < Suc (conn_left c)"
    by (cases "br_fill 100 c h") (auto dest: br_fill_left split: option.split)
qed

declare br_Peek.simps [simp del]

text \<open>\<open>Read\<close> into a slice of \<open>n\<close> bytes, and \<open>io.ReadFull\<close>.\<close>

definition br_Read :: "breader \<Rightarrow> nat \<Rightarrow> bytes \<times> error option \<times> breader" where
  "br_Read r n =
     (case r of (c, h, e) \<Rightarrow>
        if n = 0 then (if h \<noteq> [] then ([], None, r) else ([], e, (c, h, None)))
        else if h \<noteq> [] then (take n h, None, (c, drop n h, e))
        else if e \<noteq> None then ([], e, (c, [], None))
        else if defaultReadSize \<le> n then (case timeoutReader_Read c n of (b, e, c) \<Rightarrow> (b, e, (c, [], None)))
        else (case timeoutReader_Read c defaultReadSize of
                (b, e, c) \<Rightarrow> (if b = [] then ([], e, (c, [], None)) else (take n b, None, (c, drop n b, e)))))"

abbreviation reader_left :: "breader \<Rightarrow> nat" where
  "reader_left r \<equiv> (case r of (c, h, e) \<Rightarrow> conn_left c + length h)"

lemma conn_Read_total:
  assumes "conn_Read c sz = (b, None, c')" and "0 < sz"
  shows "length b + conn_left c' \<le> conn_left c" and "b = [] \<longrightarrow> conn_left c' < conn_left c"
  using assms conn_Read_left [OF assms] by (auto simp: conn_Read_def Let_def split: if_splits list.splits)

lemma conn_Read_err: "conn_Read c sz = (b, Some e, c') \<Longrightarrow> b = [] \<and> c' = c"
  by (auto simp: conn_Read_def Let_def split: if_splits)

lemma br_Read_left:
  assumes "br_Read r n = (b, None, r')" and "0 < n"
  shows "reader_left r' < reader_left r"
proof -
  obtain c h e where r: "r = (c, h, e)" by (cases r)
  show ?thesis
  proof (cases "h \<noteq> [] \<or> e \<noteq> None")
    case True
    with assms r show ?thesis by (auto simp: br_Read_def split: if_splits)
  next
    case False
    let ?sz = "if defaultReadSize \<le> n then n else defaultReadSize"
    obtain b1 e1 c1 where r1: "conn_Read c ?sz = (b1, e1, c1)" by (cases "conn_Read c ?sz")
    show ?thesis
    proof (cases e1)
      case None
      with conn_Read_total [of c ?sz b1 c1] conn_Read_left [of c ?sz b1 c1] assms False r r1 show ?thesis
        by (cases b1) (auto simp: br_Read_def split: if_splits)
    next
      case (Some e2)
      with conn_Read_err [of c ?sz b1 e2 c1] assms False r r1 show ?thesis by (auto simp: br_Read_def split: if_splits)
    qed
  qed
qed

function read_full :: "breader \<Rightarrow> nat \<Rightarrow> bytes \<Rightarrow> (bytes \<times> error option) \<times> breader" where
  "read_full r n acc =
     (if n = 0 then ((acc, None), r)
      else case br_Read r n of
        (b, Some e, r) \<Rightarrow>
          ((acc @ b, if n \<le> length b then None else Some (if acc @ b \<noteq> [] \<and> e = io_EOF then ErrNew ''unexpected EOF'' else e)), r)
      | (b, None, r) \<Rightarrow> read_full r (n - length b) (acc @ b))"
  by pat_completeness auto
termination
  by (relation "measure (\<lambda>(r, n, acc). reader_left r)") (auto dest!: br_Read_left [OF sym])

declare read_full.simps [simp del]

section \<open>The next packet\<close>

text \<open>
  The loop of \<open>getPeekMessageSize\<close>.  \<open>Peek\<close> returns an error whenever it returns fewer bytes, so that the test of the
  length never holds.
\<close>

function peek_header :: "nat \<Rightarrow> breader \<Rightarrow> (error + bytes) \<times> breader" where
  "peek_header cnt r =
     (if 5 < cnt then
        (Inl (Errorf ''readwrite/getPeekMessageSize: 4th byte of remaining length has continuation bit set'' []), r)
      else case br_Peek cnt r of
        ((b, Some err), r) \<Rightarrow> (Inl err, r)
      | ((b, None), r) \<Rightarrow> (if 0x80 \<le> b ! (cnt - 1) then peek_header (cnt + 1) r else (Inr b, r)))"
  by pat_completeness auto
termination
  by (relation "measure (\<lambda>(cnt, r). 6 - cnt)") auto

declare peek_header.simps [simp del]

definition getPeekMessageSize :: "breader \<Rightarrow> (error + (MessageType \<times> int)) \<times> breader" where
  "getPeekMessageSize r =
     (case peek_header 2 r of
        (Inl err, r) \<Rightarrow> (Inl err, r)
      | (Inr b, r) \<Rightarrow>
          (let (rl, m) = Uvarint (slice_of (tl b)) in (Inr (drop_bit 4 (hd b), int (unat rl) + 1 + m), r)))"

text \<open>
  The error of \<open>io.ReadFull\<close> is only logged: the bytes that are missing are decoded as zeros.  \<open>None\<close> is a panic of
  \<open>Decode\<close>.
\<close>

definition getPeekMessage :: "MessageType \<Rightarrow> int \<Rightarrow> breader \<Rightarrow> (message option \<times> error option) option \<times> breader" where
  "getPeekMessage mtype len r =
     (case read_full r (nat len) [] of
        ((b, _), r) \<Rightarrow>
          (let b = b @ replicate (nat len - length b) 0
           in case message_New mtype of
                Inl err \<Rightarrow> (Some (None, Some err), r)
              | Inr m0 \<Rightarrow> (map_option (\<lambda>(msg, _, err). (Some msg, err)) (message_Decode m0 (slice_of b)), r)))"

text \<open>An operation on the reader of the goroutine \<open>receiverData\<close> of a service.\<close>

definition on_reader :: "nat \<Rightarrow> (breader \<Rightarrow> 'r \<times> breader) \<Rightarrow> ('r, broker) act" where
  "on_reader s f =
     andThen (get_svc s) (\<lambda>this.
     andThen (on_conn (r_conn this) (\<lambda>c. case f (c, held this, held_err this) of (r, (c, h, e)) \<Rightarrow> ((r, h, e), c))) (\<lambda>(r, h, e).
     andThen (upd_svc s (\<lambda>v. v\<lparr>held := h, held_err := e\<rparr>)) (\<lambda>_. yield r)))"

end
