(* ===== verification/Receive_Props.thy ===== *)
theory Receive_Props
  imports Receive
begin

text \<open>
  The buffered reader cuts packets exactly: whatever portions the network delivers, the next packet is found and read
  whole, and what follows it stays in the stream.  The network is assumed to deliver at least a byte per read, as
  connections do.
\<close>

section \<open>The stream behind a reader\<close>

definition stream_of :: "breader \<Rightarrow> bytes" where
  "stream_of r = (case r of (c, h, e) \<Rightarrow> h @ incoming c)"

definition reader_ok :: "breader \<Rightarrow> bool" where
  "reader_ok r \<longleftrightarrow>
     (case r of (c, h, e) \<Rightarrow> \<not> closed c \<and> e = None \<and> 0 \<notin> set (chunks c) \<and> length h \<le> defaultReadSize)"

text \<open>The connection of a reader as another reader on it leaves it.\<close>

definition same_conn :: "breader \<Rightarrow> breader \<Rightarrow> bool" where
  "same_conn r r' \<longleftrightarrow> read_upto (fst r) (incoming (fst r')) (fst r')"

lemma same_conn_refl [simp]: "same_conn r r"
  by (simp add: same_conn_def)

lemma same_conn_trans: "same_conn r r' \<Longrightarrow> same_conn r' r'' \<Longrightarrow> same_conn r r''"
  unfolding same_conn_def by (rule read_upto_trans)

lemma conn_Read_some:
  assumes "\<not> closed c" and "incoming c \<noteq> []" and "0 \<notin> set (chunks c)" and "0 < sz"
  obtains b c' where "conn_Read c sz = (b, None, c')" and "b \<noteq> []" and "incoming c = b @ incoming c'" and "length b \<le> sz"
    and "read_upto c (incoming c') c'" and "\<not> closed c'" and "0 \<notin> set (chunks c')"
proof -
  let ?n = "case chunks c of [] \<Rightarrow> sz | k # _ \<Rightarrow> min k sz"
  let ?c = "c\<lparr>incoming := drop ?n (incoming c), chunks := tl (chunks c)\<rparr>"
  have n: "0 < ?n" "?n \<le> sz" using assms(3,4) by (auto split: list.split)
  show thesis
  proof (rule that [of "take ?n (incoming c)" ?c])
    show "conn_Read c sz = (take ?n (incoming c), None, ?c)" using assms(1,2) by (simp add: conn_Read_def Let_def)
    show "take ?n (incoming c) \<noteq> []" using n(1) assms(2) by simp
    show "incoming c = take ?n (incoming c) @ incoming ?c" by simp
    show "length (take ?n (incoming c)) \<le> sz" using n(2) by (simp add: min.coboundedI2)
    show "0 \<notin> set (chunks ?c)" using assms(3) by (cases "chunks c") auto
  qed (use assms(1) in simp_all)
qed

lemma br_fill_ok:
  assumes "reader_ok (c, h, None)" and "length h < defaultReadSize" and "incoming c \<noteq> []"
  shows "\<exists>r'. br_fill 100 c h = r' \<and> reader_ok r' \<and> stream_of r' = stream_of (c, h, None) \<and> same_conn (c, h, None) r'"
proof -
  have "\<not> closed c" "0 \<notin> set (chunks c)" "0 < defaultReadSize - length h" using assms by (auto simp: reader_ok_def)
  then obtain b c' where b: "conn_Read c (defaultReadSize - length h) = (b, None, c')" "b \<noteq> []" "incoming c = b @ incoming c'"
    "length b \<le> defaultReadSize - length h" "read_upto c (incoming c') c'" "\<not> closed c'" "0 \<notin> set (chunks c')"
    using conn_Read_some [OF _ assms(3)] by metis
  then have "br_fill 100 c h = (c', h @ b, None)" by (simp add: eval_nat_numeral)
  with b assms(2) show ?thesis by (simp add: reader_ok_def stream_of_def same_conn_def)
qed

lemma br_Peek_ok:
  assumes "reader_ok r" and "n \<le> length (stream_of r)" and "n \<le> defaultReadSize"
  shows "\<exists>r'. br_Peek n r = ((take n (stream_of r), None), r') \<and> reader_ok r' \<and> stream_of r' = stream_of r \<and> same_conn r r'"
  using assms
proof (induction n r rule: br_Peek.induct)
  case (1 n c h e)
  then have e: "e = None" by (simp add: reader_ok_def)
  show ?case
  proof (cases "length h < n")
    case True
    then have ne: "incoming c \<noteq> []" "length h < defaultReadSize" using "1.prems" by (auto simp: stream_of_def)
    obtain r' where r': "br_fill 100 c h = r'" "reader_ok r'" "stream_of r' = stream_of (c, h, None)" "same_conn (c, h, None) r'"
      using br_fill_ok [of c h] "1.prems" ne e by blast
    have "\<exists>r''. br_Peek n r' = ((take n (stream_of r'), None), r'') \<and> reader_ok r'' \<and> stream_of r'' = stream_of r' \<and> same_conn r' r''"
      using "1.IH" True ne e r' "1.prems" by simp
    then show ?thesis
      using True ne e r' same_conn_trans [OF r'(4)] by (subst br_Peek.simps) auto
  next
    case False
    with "1.prems" e show ?thesis by (subst br_Peek.simps) (simp add: stream_of_def)
  qed
qed

lemma peek_header_ok:
  assumes "reader_ok r" and "stream_of r = pre @ vs @ rest" and "varint_ok vs" and "cnt = Suc (length pre)"
    and "length pre + length vs \<le> 5"
  shows "\<exists>r'. peek_header cnt r = (Inr (pre @ vs), r') \<and> reader_ok r' \<and> stream_of r' = stream_of r \<and> same_conn r r'"
  using assms
proof (induction cnt r arbitrary: pre vs rule: peek_header.induct)
  case (1 cnt r)
  obtain v vs' where vs: "vs = v # vs'" using "1.prems" by (cases vs) (auto simp: varint_ok_def)
  have cnt: "\<not> 5 < cnt" using "1.prems" vs by simp
  obtain r' where r': "br_Peek cnt r = ((take cnt (stream_of r), None), r')" "reader_ok r'" "stream_of r' = stream_of r" "same_conn r r'"
    using br_Peek_ok [OF "1.prems"(1), of cnt] "1.prems" vs cnt by auto
  have t: "take cnt (stream_of r) = pre @ [v]" using "1.prems" vs by simp
  have n: "(pre @ [v]) ! (cnt - 1) = v" using "1.prems" by simp
  show ?case
  proof (cases "0x80 \<le> v")
    case True
    then have "varint_ok vs'" using "1.prems"(3) vs by (simp add: varint_ok_Cons linorder_not_less)
    then have "\<exists>r''. peek_header (cnt + 1) r' = (Inr ((pre @ [v]) @ vs'), r'') \<and> reader_ok r'' \<and> stream_of r'' = stream_of r' \<and> same_conn r' r''"
      using "1.prems" vs r' t n True cnt by (intro "1.IH" [OF cnt r'(1) [symmetric]]) (auto simp: t)
    then show ?thesis
      using cnt r' t n True vs same_conn_trans [OF r'(4)] by (subst peek_header.simps) auto
  next
    case False
    then have "vs' = []" using "1.prems"(3) vs by (simp add: varint_ok_Cons linorder_not_less)
    with False cnt r' t n vs show ?thesis by (subst peek_header.simps) simp
  qed
qed

section \<open>The next packet\<close>

lemma framed_split:
  assumes "framed t w"
  obtains b vs body where "w = b # vs @ body" and "varint_ok vs" and "length vs \<le> 4" and "drop_bit 4 b = t"
    and "Uvarint (slice_of vs) = (word_of_nat (length body), int (length vs))" and "unat (word_of_nat (length body) :: uint64) = length body"
proof -
  from assms obtain b body where w: "w = header_bytes b (int (length body)) @ body"
    and len: "int (length body) \<le> maxRemainingLength" and t: "drop_bit 4 b = t" by (auto simp: framed_def)
  let ?v = "word_of_nat (length body) :: uint64"
  have v: "unat ?v = length body" using len unat_remlen [of "int (length body)"] by simp
  have "length (uvarint_bytes ?v) \<le> 4" using len v by (subst length_uvarint_bytes) auto
  moreover have "Uvarint (slice_of (uvarint_bytes ?v)) = (?v, int (length (uvarint_bytes ?v)))"
    by (rule Uvarint_PutUvarint [where rest = "[]"]) simp
  ultimately show thesis
    using that [of b "uvarint_bytes ?v" body] w v t uvarint_bytes_ok by (simp add: header_bytes_def)
qed

lemma getPeekMessageSize_framed:
  assumes "reader_ok r" and "stream_of r = w @ rest" and "framed t w"
  shows "\<exists>r'. getPeekMessageSize r = (Inr (t, int (length w)), r') \<and> reader_ok r' \<and> stream_of r' = stream_of r \<and> same_conn r r'"
proof -
  obtain b vs body where w: "w = b # vs @ body" "varint_ok vs" "length vs \<le> 4" "drop_bit 4 b = t"
    "Uvarint (slice_of vs) = (word_of_nat (length body), int (length vs))" "unat (word_of_nat (length body) :: uint64) = length body"
    using framed_split [OF assms(3)] by metis
  have "\<exists>r'. peek_header 2 r = (Inr ([b] @ vs), r') \<and> reader_ok r' \<and> stream_of r' = stream_of r \<and> same_conn r r'"
    using assms w by (intro peek_header_ok) auto
  then show ?thesis using w arg_cong [OF w(6), of int] by (auto simp: getPeekMessageSize_def)
qed

lemma br_Read_ok:
  assumes "reader_ok r" and "stream_of r \<noteq> []" and "0 < n"
  obtains b r' where "br_Read r n = (b, None, r')" and "b \<noteq> []" and "stream_of r = b @ stream_of r'" and "length b \<le> n"
    and "reader_ok r'" and "same_conn r r'"
proof -
  obtain c h where r: "r = (c, h, None)" "\<not> closed c" "0 \<notin> set (chunks c)" "length h \<le> defaultReadSize"
    using assms(1) by (cases r) (auto simp: reader_ok_def)
  show thesis
  proof (cases "h = []")
    case False
    with r assms(3) show ?thesis
      by (intro that [of "take n h" "(c, drop n h, None)"])
         (auto simp: br_Read_def reader_ok_def stream_of_def same_conn_def min_def)
  next
    case True
    then have ne: "incoming c \<noteq> []" using assms(2) r by (simp add: stream_of_def)
    show ?thesis
    proof (cases "defaultReadSize \<le> n")
      case big: True
      obtain b c' where b: "conn_Read c n = (b, None, c')" "b \<noteq> []" "incoming c = b @ incoming c'"
        "length b \<le> n" "read_upto c (incoming c') c'" "\<not> closed c'" "0 \<notin> set (chunks c')"
        using conn_Read_some [OF r(2) ne r(3) assms(3)] by metis
      with True big r assms(3) show ?thesis
        by (intro that [of b "(c', [], None)"]) (auto simp: br_Read_def reader_ok_def stream_of_def same_conn_def)
    next
      case small: False
      obtain b c' where b: "conn_Read c defaultReadSize = (b, None, c')" "b \<noteq> []" "incoming c = b @ incoming c'"
        "length b \<le> defaultReadSize" "read_upto c (incoming c') c'" "\<not> closed c'" "0 \<notin> set (chunks c')"
        using conn_Read_some [OF r(2) ne r(3), of defaultReadSize] by auto
      with True small r assms(3) show ?thesis
        by (intro that [of "take n b" "(c', drop n b, None)"]) (auto simp: br_Read_def reader_ok_def stream_of_def same_conn_def min_def)
    qed
  qed
qed

lemma read_full_ok:
  assumes "reader_ok r" and "stream_of r = w @ rest" and "length w = n"
  shows "\<exists>r'. read_full r n acc = ((acc @ w, None), r') \<and> reader_ok r' \<and> stream_of r' = rest \<and> same_conn r r'"
  using assms
proof (induction r n acc arbitrary: w rule: read_full.induct)
  case (1 r n acc)
  show ?case
  proof (cases "n = 0")
    case True
    with "1.prems" show ?thesis by (simp add: read_full.simps)
  next
    case False
    then have "stream_of r \<noteq> []" "0 < n" using "1.prems" by auto
    then obtain b r' where b: "br_Read r n = (b, None, r')" "b \<noteq> []" "stream_of r = b @ stream_of r'" "length b \<le> n"
        "reader_ok r'" "same_conn r r'"
      by (rule br_Read_ok [OF "1.prems"(1)])
    then obtain w' where w': "w = b @ w'" "stream_of r' = w' @ rest"
      using "1.prems"(2,3) by (auto simp: append_eq_append_conv_if split: if_splits) (metis append_take_drop_id)
    have "\<exists>r''. read_full r' (n - length b) (acc @ b) = ((acc @ b @ w', None), r'') \<and> reader_ok r'' \<and> stream_of r'' = rest \<and> same_conn r' r''"
      using "1.IH" [OF False b(1) [symmetric] refl refl b(5) w'(2)] w' "1.prems"(3) by simp
    then show ?thesis
      using False b(1) w' same_conn_trans [OF b(6)] by (subst read_full.simps) auto
  qed
qed

lemma getPeekMessage_framed:
  assumes "reader_ok r" and "stream_of r = w @ rest"
  shows "\<exists>r'. getPeekMessage t (int (length w)) r =
           ((case message_New t of
               Inl err \<Rightarrow> Some (None, Some err)
             | Inr m0 \<Rightarrow> map_option (\<lambda>(msg, _, err). (Some msg, err)) (message_Decode m0 (slice_of w))), r')
         \<and> reader_ok r' \<and> stream_of r' = rest \<and> same_conn r r'"
  using read_full_ok [OF assms refl, of "[]"] by (auto simp: getPeekMessage_def split: sum.split)

end
