(* ===== verification/Broker_Server.thy ===== *)
theory Broker_Server
  imports Receive
begin

text \<open>
  The server: \<open>src/service/server.go\<close> (a new connection, the table of services), the end of a connection
  (\<open>newStopConnect\<close> of \<open>service.go\<close>, \<open>exceptionDisconnect\<close> and \<open>receiverData\<close> of \<open>readwrite.go\<close>), the goroutine of
  \<open>src/service/biz.go\<close> that passes uploaded messages on, and \<open>src/auth/auth.go\<close>.
\<close>

section \<open>Authentication\<close>

text \<open>Both calls only write a line to the log.\<close>

definition Login :: "bytes \<Rightarrow> bytes \<Rightarrow> bytes \<times> error option" where
  "Login ci pw = ([], None)"

definition Logout :: "service \<Rightarrow> error option" where
  "Logout svc = None"

section \<open>The end of a connection\<close>

definition service_key :: "service \<Rightarrow> bytes" where
  "service_key v = go_join [productKey v, deviceName v] (str '':'')"

definition deleteMapAndLogout :: "nat \<Rightarrow> (error option, broker) act" where
  "deleteMapAndLogout s =
     andThen (get_svc s) (\<lambda>svc.
     andThen (modify (\<lambda>w. w\<lparr>server := (server w)\<lparr>svcMap := AList.delete (service_key svc) (svcMap (server w))\<rparr>\<rparr>)) (\<lambda>_.
     yield (Logout svc)))"

text \<open>Closing a closed channel panics, as does \<open>Stop\<close> on a nil session; the mutex then stays locked.\<close>

definition newStopConnect :: "nat \<Rightarrow> (unit, broker) act" where
  "newStopConnect s =
     PanicHandler
       (andThen (get_svc s) (\<lambda>this.
        andThen (case svc_done this of
                   None \<Rightarrow> yield ()
                 | Some True \<Rightarrow> panicking
                 | Some False \<Rightarrow> upd_svc s (\<lambda>v. v\<lparr>svc_done := Some True\<rparr>)) (\<lambda>_.
        andThen (case svc_conn this of None \<Rightarrow> yield () | Some c \<Rightarrow> on_conn c (\<lambda>c. ((), conn_Close c))) (\<lambda>_.
        andThen (case keepAliveCH this of
                   None \<Rightarrow> yield ()
                 | Some True \<Rightarrow> panicking
                 | Some False \<Rightarrow> upd_svc s (\<lambda>v. v\<lparr>keepAliveCH := Some True\<rparr>)) (\<lambda>_.
        andThen (upd_svc s (\<lambda>v. v\<lparr>svc_conn := None\<rparr>)) (\<lambda>_.
        if closeLock this then blocked
        else
          andThen (upd_svc s (\<lambda>v. v\<lparr>closeLock := True\<rparr>)) (\<lambda>_.
          andThen (on_session s (\<lambda>ss g. do { ss \<leftarrow> Session_Stop ss; Some (((), ss), g) })) (\<lambda>_.
          upd_svc s (\<lambda>v. v\<lparr>sess := None, closeLock := False\<rparr>)))))))))"

text \<open>\<open>this.sessMgr.Del(svc.sess.ID())\<close>; a nil session panics.\<close>

definition del_session :: "nat \<Rightarrow> (unit, broker) act" where
  "del_session s =
     andThen (get_svc s) (\<lambda>svc.
     andThen (gets (\<lambda>w. Session_ID (Option.bind (sess svc) (sess_at w)))) (\<lambda>i.
     andThen (lift_opt i) (\<lambda>i.
     \<lambda>w. (case Option.bind (sessMgr (server w)) (\<lambda>k. sessions_Del k (sess_pkg w) i) of
            None \<Rightarrow> (Panicked, w)
          | Some pkg \<Rightarrow> (Done (), w\<lparr>sess_pkg := pkg\<rparr>)))))"

definition drop_service :: "nat \<Rightarrow> (unit, broker) act" where
  "drop_service s = andThen (del_session s) (\<lambda>_. newStopConnect s)"

text \<open>The reasons are those of \<open>src/consts/constants.go\<close>, by the name of the constant.\<close>

abbreviation set_reason :: "nat \<Rightarrow> string \<Rightarrow> (unit, broker) act" where
  "set_reason s r \<equiv> upd_svc s (\<lambda>v. v\<lparr>reason := r\<rparr>)"

text \<open>
  \<open>exceptionDisconnect\<close> looks the service up by its key.  In the branch for errors other than \<open>io.EOF\<close> the text of
  \<open>err\<close>, and then that of the result of \<open>Logout\<close>, is taken whether or not they are nil: a nil error panics.
\<close>

definition exceptionDisconnect :: "nat \<Rightarrow> error option \<Rightarrow> (unit, broker) act" where
  "exceptionDisconnect s err =
     andThen (get_svc s) (\<lambda>this.
     andThen (gets (\<lambda>w. map_of (svcMap (server w)) (service_key this))) (\<lambda>old.
     case old of
       None \<Rightarrow> yield ()
     | Some svc \<Rightarrow>
         (if err \<noteq> Some io_EOF then
            andThen (lift_opt err) (\<lambda>e.
            andThen (set_reason svc (if go_contains (error_text e) (str ''connection reset by peer'')
                                     then ''LogReasonValConnectionResetByPeer'' else ''LogReasonValKeepaliveTimeout'')) (\<lambda>_.
            andThen (deleteMapAndLogout svc) (\<lambda>val.
            andThen (lift_opt val) (\<lambda>_.
            drop_service svc))))
          else
            andThen (set_reason svc ''LogReasonValDeviceDisconnect'') (\<lambda>_.
            andThen (deleteMapAndLogout svc) (\<lambda>_.
            drop_service svc)))))"

section \<open>Receiving\<close>

text \<open>One round of the loop of \<open>receiverData\<close>; the result says whether the loop goes on.\<close>

definition receive_round :: "nat \<Rightarrow> (bool, broker) act" where
  "receive_round s =
     (let quit = (\<lambda>err. andThen (exceptionDisconnect s err) (\<lambda>_. yield False))
      in andThen (on_reader s getPeekMessageSize) (\<lambda>r.
         case r of
           Inl err \<Rightarrow> quit (Some err)
         | Inr (mType, n) \<Rightarrow>
             andThen (gets (\<lambda>w. MaxBufferSize (server w))) (\<lambda>maxsize.
             if maxsize < n then quit None
             else
               andThen (on_reader s (getPeekMessage mType n)) (\<lambda>d.
               andThen (lift_opt d) (\<lambda>(msg, err).
               if err \<noteq> None then quit err
               else
                 andThen (lift_opt msg) (\<lambda>msg.
                 andThen (processIncoming s msg) (\<lambda>err.
                 if err \<noteq> None then quit err
                 else andThen (get_svc s) (\<lambda>this. yield (\<not> service_isDone this)))))))))"

text \<open>The goroutine: a panic is recovered and ends it, as does a return; blocked for ever, it does not run again.\<close>

definition receiverData :: "nat \<Rightarrow> (unit, broker) act" where
  "receiverData s w =
     (let (r, w) = receive_round s w
      in if r = Done True then (Done (), w) else upd_svc s (\<lambda>v. v\<lparr>receiving := False\<rparr>) w)"

text \<open>The part before the loop.\<close>

definition receiver_start :: "nat \<Rightarrow> (unit, broker) act" where
  "receiver_start s =
     andThen (get_svc s) (\<lambda>this.
     case svc_conn this of
       None \<Rightarrow> yield ()
     | Some c \<Rightarrow>
         andThen (on_conn c (\<lambda>c. (closed c, c))) (\<lambda>cl.
         if cl then yield ()
         else upd_svc s (\<lambda>v. v\<lparr>r_conn := c, r_d := svc_keepAlive v + 5, held := [], held_err := None, receiving := True\<rparr>)))"

section \<open>A new connection\<close>

abbreviation (input) ErrInvalidUsername :: error where
  "ErrInvalidUsername \<equiv> ErrNew (''service'' @ [CHR 0xEF, CHR 0xBC, CHR 0x9A] @ ''invalid Username'')"
abbreviation (input) ErrInvalidPassword :: error where
  "ErrInvalidPassword \<equiv> ErrNew (''service'' @ [CHR 0xEF, CHR 0xBC, CHR 0x9A] @ ''invalid Password'')"

definition checkConfiguration :: "(error option, broker) act" where
  "checkConfiguration w =
     (let srv = server w
      in if configOnce srv then (Done None, w)
         else
           (let srv = srv\<lparr>KeepAlive := (if KeepAlive srv = 0 then 300 else KeepAlive srv),
                          ConnectTimeout := (if ConnectTimeout srv = 0 then 2 else ConnectTimeout srv),
                          AckTimeout := (if AckTimeout srv = 0 then 20 else AckTimeout srv),
                          TimeoutRetries := (if TimeoutRetries srv = 0 then 3 else TimeoutRetries srv),
                          SessionsProvider := (if SessionsProvider srv = [] then ''mem'' else SessionsProvider srv),
                          configOnce := True\<rparr>;
                (mgr, err) = sessions_NewManager (sess_pkg w) (SessionsProvider srv)
            in (Done err, w\<lparr>server := srv\<lparr>sessMgr := mgr\<rparr>\<rparr>)))"

definition server_write :: "nat \<Rightarrow> message \<Rightarrow> (error option, broker) act" where
  "server_write c m w =
     (if c < length (conns w) then
        (case writeMessage (Some (conns w ! c)) m (gPacketId w) of
           Some ((err, _, Some c'), g) \<Rightarrow> (Done err, w\<lparr>conns := (conns w)[c := c'], gPacketId := g\<rparr>)
         | _ \<Rightarrow> (Panicked, w))
      else (Panicked, w))"

text \<open>A CONNACK with a code other than 0; \<open>err\<close> is returned unless the write failed.\<close>

definition refuse :: "nat \<Rightarrow> ConnackMessage \<Rightarrow> ConnackCode \<Rightarrow> error option \<Rightarrow> (nat option \<times> error option, broker) act" where
  "refuse c resp code err =
     andThen (server_write c (MConnack (SetSessionPresent (SetReturnCode resp code) False))) (\<lambda>werr.
     yield (None, if werr \<noteq> None then werr else err))"

definition getSession ::
    "nat \<Rightarrow> ConnectMessage \<Rightarrow> ConnackMessage \<Rightarrow> bytes option \<Rightarrow> nat list
     \<Rightarrow> (ConnectMessage \<times> ConnackMessage \<times> error option, broker) act" where
  "getSession s req resp rnd ks =
     andThen (get_svc s) (\<lambda>svc.
     let req = (if clientId req = []
                then SetCleanSession (fst (SetClientId req (str ''internalclient'' @ decimal (unat (svc_id svc))))) True
                else req)
     in if sess svc \<noteq> None then yield (req, resp, None)
        else
          andThen (\<lambda>w. case Option.bind (sessMgr (server w)) (\<lambda>k. sessions_New k (sess_pkg w) (clientId req) rnd) of
                         None \<Rightarrow> (Panicked, w)
                       | Some (pkg, p, err) \<Rightarrow> (Done (p, err), w\<lparr>sess_pkg := pkg\<rparr>)) (\<lambda>(p, err).
          andThen (upd_svc s (\<lambda>v. v\<lparr>sess := Some p\<rparr>)) (\<lambda>_.
          if err \<noteq> None then yield (req, resp, err)
          else
            (let resp = SetSessionPresent resp False
             in andThen (on_session s (\<lambda>ss g. map_option (\<lambda>(ss, req, err). (((req, err), ss), g)) (Session_Init ss req ks))) (\<lambda>(req, err).
                yield (req, resp, err))))))"

text \<open>The service that \<open>handleConnection\<close> allocates.\<close>

definition new_service ::
    "Server \<Rightarrow> uint64 \<Rightarrow> nat \<Rightarrow> ConnectMessage \<Rightarrow> bytes \<Rightarrow> bytes \<Rightarrow> nat list \<Rightarrow> service" where
  "new_service srv i c req pk dn ps =
     \<lparr>svc_id = i, client = False, productKey = pk, deviceName = dn, svc_keepAlive = uint (keepAlive req),
      keepAliveCH = Some False, svc_ackTimeout = AckTimeout srv, svc_conn = Some c, sess = None, closeLock = False,
      svc_done = Some False, inStat = \<lparr>stat_bytes = 0, stat_msgs = 0\<rparr>, outStat = \<lparr>stat_bytes = 0, stat_msgs = 0\<rparr>,
      loginValue = [], svc_clientId = hd (go_split 124 (clientId req)), Timers = Map.empty,
      svc_pm = PMPool_init \<lparr>pm_items = [], pm_picks = ps, pm_New = False\<rparr>, reason = [],
      r_conn = c, r_d = 0, held = [], held_err = None, receiving = False\<rparr>"

definition add_service :: "nat \<Rightarrow> ConnectMessage \<Rightarrow> bytes \<Rightarrow> bytes \<Rightarrow> nat list \<Rightarrow> (nat, broker) act" where
  "add_service c req pk dn ps w =
     (let i = gsvcid w + 1
      in (Done (length (services w)), w\<lparr>gsvcid := i, services := services w @ [new_service (server w) i c req pk dn ps]\<rparr>))"

text \<open>A service with the same key is logged out and stopped first.\<close>

definition tick_off :: "bytes \<Rightarrow> (unit, broker) act" where
  "tick_off key =
     andThen (gets (\<lambda>w. map_of (svcMap (server w)) key)) (\<lambda>old.
     case old of
       None \<Rightarrow> yield ()
     | Some o1 \<Rightarrow>
         andThen (set_reason o1 ''LogReasonValTickOffDevice'') (\<lambda>_.
         andThen (deleteMapAndLogout o1) (\<lambda>_.
         drop_service o1)))"

definition storeMap :: "bytes \<Rightarrow> nat \<Rightarrow> (unit, broker) act" where
  "storeMap key s = modify (\<lambda>w. w\<lparr>server := (server w)\<lparr>svcMap := AList.update key s (svcMap (server w))\<rparr>\<rparr>)"

text \<open>The session, the CONNACK with code 0, the statistics and the start of the service.\<close>

definition accept_service ::
    "nat \<Rightarrow> nat \<Rightarrow> bytes \<Rightarrow> ConnectMessage \<Rightarrow> ConnackMessage \<Rightarrow> bytes option \<Rightarrow> nat list
     \<Rightarrow> (nat option \<times> error option, broker) act" where
  "accept_service c s key req resp rnd ks =
     andThen (getSession s req resp rnd ks) (\<lambda>(req, resp, err).
     if err \<noteq> None then yield (None, err)
     else
       (let resp = SetReturnCode resp ConnectionAccepted
        in andThen (server_write c (MConnack resp)) (\<lambda>err.
           if err \<noteq> None then yield (None, err)
           else
             andThen (upd_svc s (\<lambda>v. v\<lparr>inStat := increment (inStat v) (fst (connect_Len req)),
                                       outStat := increment (outStat v) (fst (connack_Len resp))\<rparr>)) (\<lambda>_.
             andThen (receiver_start s) (\<lambda>_.
             andThen (storeMap key s) (\<lambda>_. yield (Some s, None)))))))"

definition connect_request ::
    "nat \<Rightarrow> ConnectMessage \<Rightarrow> ConnackMessage \<Rightarrow> bytes option \<Rightarrow> nat list \<Rightarrow> nat list
     \<Rightarrow> (nat option \<times> error option, broker) act" where
  "connect_request c req resp rnd ks ps =
     (let req = (if keepAlive req = 0 then SetKeepAlive req (5 * 60) else req)
      in case go_split 38 (username req) of
           [dn, pk] \<Rightarrow>
             (if password req = [] then refuse c resp ErrBadClientIdOrUsernameOrPassword (Some ErrInvalidPassword)
              else
                (let key = go_join [pk, str '':'', dn] []
                 in andThen (add_service c req pk dn ps) (\<lambda>s.
                    andThen (tick_off key) (\<lambda>_.
                    case Login (clientId req) (password req) of (value, err) \<Rightarrow>
                    andThen (upd_svc s (\<lambda>v. v\<lparr>loginValue := value\<rparr>)) (\<lambda>_.
                    if err \<noteq> None then refuse c resp ErrAuthServerLoginFailed None
                    else accept_service c s key req resp rnd ks)))))
         | _ \<Rightarrow> refuse c resp ErrBadClientIdOrUsernameOrPassword (Some ErrInvalidUsername))"

definition read_connect :: "nat \<Rightarrow> (error + (ConnectMessage \<times> error option) option, broker) act" where
  "read_connect c = on_conn c (\<lambda>cn. case getConnectMessage (Some cn) of (r, cn') \<Rightarrow> (r, case cn' of Some x \<Rightarrow> x | None \<Rightarrow> cn))"

text \<open>
  \<open>handleConnection\<close> up to its deferred functions.  A CONNECT message that is refused by a code of its own is answered
  by that code, and the result of the write is returned, nil when it succeeds.
\<close>

definition handle_connect :: "nat \<Rightarrow> bytes option \<Rightarrow> nat list \<Rightarrow> nat list \<Rightarrow> (nat option \<times> error option, broker) act" where
  "handle_connect c rnd ks ps =
     (let resp = NewConnackMessage;
          fail = (\<lambda>err. case err of ConnackErr cerr \<Rightarrow> refuse c resp cerr None | _ \<Rightarrow> yield (None, Some err))
      in andThen (read_connect c) (\<lambda>r.
         case r of
           Inl err \<Rightarrow> fail err
         | Inr d \<Rightarrow>
             andThen (lift_opt d) (\<lambda>(req, err).
             case err of Some err \<Rightarrow> fail err | None \<Rightarrow> connect_request c req resp rnd ks ps)))"

text \<open>
  The connection is closed when an error is returned.  A panic is recovered, and as \<open>err\<close> is nil wherever one can
  arise, the connection then stays open.
\<close>

definition handleConnection ::
    "nat option \<Rightarrow> bytes option \<Rightarrow> nat list \<Rightarrow> nat list \<Rightarrow> (nat option \<times> error option, broker) act" where
  "handleConnection c rnd ks ps =
     (case c of
        None \<Rightarrow> yield (None, Some ErrInvalidConnectionType)
      | Some c \<Rightarrow>
          andThen checkConfiguration (\<lambda>err.
          if err \<noteq> None then yield (None, err)
          else (\<lambda>w. case handle_connect c rnd ks ps w of
                      (Done (svc, err), w) \<Rightarrow>
                        (if err = None then (Done (svc, err), w)
                         else andThen (on_conn c (\<lambda>c. ((), conn_Close c))) (\<lambda>_. yield (svc, err)) w)
                    | (Panicked, w) \<Rightarrow> (Done (None, None), w)
                    | (Stuck, w) \<Rightarrow> (Stuck, w))))"

section \<open>Shutting down\<close>

definition Server_Close :: "(error option, broker) act" where
  "Server_Close =
     andThen (gets (\<lambda>w. map snd (svcMap (server w)))) (\<lambda>ss.
     andThen (each (\<lambda>s. andThen (set_reason s ''LogReasonValServerClose'') (\<lambda>_.
                        andThen (deleteMapAndLogout s) (\<lambda>_. drop_service s))) ss) (\<lambda>_.
     \<lambda>w. (case sessMgr (server w) of
            None \<Rightarrow> (Done None, w)
          | Some k \<Rightarrow>
              (case sessions_Close k (sess_pkg w) of
                 None \<Rightarrow> (Panicked, w)
               | Some (pkg, _) \<Rightarrow> (Done None, w\<lparr>sess_pkg := pkg\<rparr>)))))"

section \<open>Passing uploaded messages on\<close>

definition server_PMPoolGet :: "(PublishMessage, broker) act" where
  "server_PMPoolGet =
     andThen (gets (\<lambda>w. PMPoolGet (srv_pm (server w)))) (\<lambda>r.
     andThen (lift_opt r) (\<lambda>(m, p).
     andThen (modify (\<lambda>w. w\<lparr>server := (server w)\<lparr>srv_pm := p\<rparr>\<rparr>)) (\<lambda>_. yield m)))"

definition download_topic :: "bytes \<Rightarrow> bytes \<Rightarrow> bytes" where
  "download_topic pk dn = str ''/sys/'' @ pk @ str ''/'' @ dn @ str ''/thing/download''"

text \<open>
  The goroutine of \<open>PushMsg\<close>, for one message: a topic with fewer than two segments ends it.  It recovers from nothing:
  a panic here ends the program.
\<close>

definition push_to :: "(PublishMessage \<Rightarrow> PublishMessage \<Rightarrow> PublishMessage) \<Rightarrow> nat \<Rightarrow> bytes \<Rightarrow> bytes \<Rightarrow> PublishMessage \<Rightarrow> int \<Rightarrow> (unit, broker) act" where
  "push_to cp s pk dn msg now =
     andThen server_PMPoolGet (\<lambda>pmsg.
     andThen (lift_opt (SetQoS pmsg QosAtLeastOnce)) (\<lambda>(pmsg, _).
     let pmsg = fst (SetTopic pmsg (download_topic pk dn));
         pmsg = SetPayload pmsg (payload msg)
     in andThen (service_publish cp s pmsg (ServiceOnComplete s) now) (\<lambda>(pmsg, _).
        modify (\<lambda>w. w\<lparr>server := (server w)\<lparr>srv_pm := PMPoolPut (srv_pm (server w)) pmsg\<rparr>\<rparr>))))"

definition PushMsg :: "(PublishMessage \<Rightarrow> PublishMessage \<Rightarrow> PublishMessage) \<Rightarrow> int \<Rightarrow> (unit, broker) act" where
  "PushMsg cp now w =
     (case MsgChan w of
        [] \<Rightarrow> (Done (), w)
      | u # us \<Rightarrow>
          (let w = w\<lparr>MsgChan := us\<rparr>; path = go_split 47 (topic (Msg u))
           in if length path < 2 then (Done (), w\<lparr>pushing := False\<rparr>)
              else
                (let pk = path ! (length path - 2); dn = path ! (length path - 1);
                     key = go_join (drop (length path - 2) path) (str '':'')
                 in case map_of (svcMap (server w)) key of
                      None \<Rightarrow> (Done (), w)
                    | Some s \<Rightarrow> push_to cp s pk dn (Msg u) now w)))"

end
