(* ===== verification/Broker_Flow.thy ===== *)
theory Broker_Flow
  imports Send_Props Receive_Props Broker_Server
begin

text \<open>
  What the handlers of \<open>Process\<close> and the goroutine \<open>receiverData\<close> do with a packet that a client sent: the reply that the
  client receives, and the changes of the broker.
\<close>

section \<open>Replies\<close>

text \<open>Bytes that are a packet with a given content, which every receiver reads as such.\<close>

definition packet_bytes :: "bytes \<Rightarrow> packet \<Rightarrow> bool" where
  "packet_bytes ws p \<longleftrightarrow> (\<exists>m. message_ok m \<and> content m = p \<and> ws = message_wire m)"

lemma packet_bytes_read:
  assumes "packet_bytes ws p"
  shows "\<exists>t m0 m k. framed t ws \<and> message_New t = Inr m0 \<and> message_Decode m0 (slice_of ws) = Some (m, k, None) \<and> content m = p"
proof -
  obtain m where m: "message_ok m" "content m = p" "ws = message_wire m" using assms by (auto simp: packet_bytes_def)
  obtain m0 where 0: "message_New (kind m) = Inr m0" using mq.new_law [OF m(1)] by blast
  from mq.dec_law [OF m(1) 0] mq.wire_law [OF m(1)] m 0 show ?thesis by (fastforce simp: framed_def simp del: message_wire.simps)
qed

text \<open>The broker after bytes were written to a connection; the pools of writers and the counter may have changed.\<close>

definition writes :: "nat \<Rightarrow> bytes \<Rightarrow> broker \<Rightarrow> broker \<Rightarrow> bool" where
  "writes c ws w w' \<longleftrightarrow>
     (\<exists>p2 p4 pk g. w' = pools p2 p4 pk (w\<lparr>gPacketId := g, conns := (conns w)[c := wrote (conns w ! c) ws]\<rparr>))"

lemma writes_fields:
  assumes "writes c ws w w'"
  shows "services w' = services w" and "MsgChan w' = MsgChan w" and "server w' = server w" and "callbacks w' = callbacks w"
    and "tw_calls w' = tw_calls w" and "sess_pkg w' = sess_pkg w" and "pushing w' = pushing w" and "sess_at w' = sess_at w"
    and "conns w' = (conns w)[c := wrote (conns w ! c) ws]"
  using assms by (auto simp: writes_def)

lemma writes_ready: "writes c ws w w' \<Longrightarrow> ready w s c \<Longrightarrow> ready w' s c"
  by (simp add: ready_def writes_fields writable_def)

lemma writes_session: "writes c ws w w' \<Longrightarrow> session_of w' s ss = session_of w s ss"
  by (simp add: session_of_def writes_fields)

definition replies :: "nat \<Rightarrow> packet \<Rightarrow> broker \<Rightarrow> broker \<Rightarrow> bool" where
  "replies c p w w' \<longleftrightarrow> (\<exists>ws. packet_bytes ws p \<and> writes c ws w w') \<and> gPacketId w' = gPacketId w"

lemma sendData_replies:
  assumes "ready w s c" and "message_good m" and "\<not> needs_id m"
  shows "\<exists>m2 w'. sendData s m w = (Done (m2, 0, None), w') \<and> replies c (content m) w w'"
proof -
  have "sent m (gPacketId w) = (content m, gPacketId w)" using assms(3) by (simp add: sent_def)
  with sendData_ok [OF assms(1,2)] obtain m2 p2 p4 pk where m2: "sendData s m w = (Done (m2, 0, None),
             pools p2 p4 pk (w\<lparr>gPacketId := gPacketId w, conns := (conns w)[c := wrote (conns w ! c) (message_wire m2)]\<rparr>))"
      "message_ok m2" "content m2 = content m"
    by auto
  let ?w = "pools p2 p4 pk (w\<lparr>gPacketId := gPacketId w, conns := (conns w)[c := wrote (conns w ! c) (message_wire m2)]\<rparr>)"
  have "writes c (message_wire m2) w ?w" unfolding writes_def by blast
  moreover have "packet_bytes (message_wire m2) (content m)" using m2(2,3) unfolding packet_bytes_def by metis
  ultimately have "replies c (content m) w ?w" unfolding replies_def by auto
  with m2(1) show ?thesis by blast
qed

lemma send_reply:
  assumes "ready w s c" and "message_good m" and "\<not> needs_id m"
  shows "\<exists>w'. andThen (sendData s m) (\<lambda>(_, _, err). yield err) w = (Done None, w') \<and> replies c (content m) w w'"
  using sendData_replies [OF assms] by (auto simp: act_simps)

lemma new_ack:
  assumes "MessageType_Valid t"
  shows "sendable (type_byte t) 2 (SetPacketId (fst (SetType header0 t)) v)" and "pid_ok (SetPacketId (fst (SetType header0 t)) v)"
    and "PacketId (SetPacketId (fst (SetType header0 t)) v) = v"
proof -
  let ?h = "fst (SetType header0 t)"
  have h: "dirty ?h" "views_ok ?h" "packetId ?h = Own []"
    using assms by (simp_all add: SetType_def write_mtypeflags_def ensure_mtypeflags_def header0_def views_ok_def)
  moreover have "flag_byte ?h (type_byte t)" using SetType_spec [OF assms] by blast
  ultimately show "sendable (type_byte t) 2 (SetPacketId ?h v)"
    using assms SetPacketId_flag_byte [of ?h "type_byte t" v]
    by (simp add: sendable_def type_byte_type flags_ok_def type_byte_flags DefaultFlags_def ValidQos_def)
  show "PacketId (SetPacketId ?h v) = v"
    using h SetPacketId_PacketId [of v ?h] by (cases "v = 0") (simp_all add: SetPacketId_def PacketId_def)
  show "pid_ok (SetPacketId ?h v)"
    using h by (simp add: pid_ok_def SetPacketId_def write_packetId_def Let_def)
qed

lemma ack_good:
  "message_good (MPuback (SetPacketId NewPubackMessage v))" "message_good (MPubrel (SetPacketId NewPubrelMessage v))"
  "message_good (MPubcomp (SetPacketId NewPubcompMessage v))" "message_good (MUnsuback (SetPacketId NewUnsubackMessage v))"
  "PacketId (SetPacketId NewPubackMessage v) = v" "PacketId (SetPacketId NewPubrelMessage v) = v"
  "PacketId (SetPacketId NewPubcompMessage v) = v" "PacketId (SetPacketId NewUnsubackMessage v) = v"
  unfolding NewPubackMessage_def NewPubrelMessage_def NewPubcompMessage_def NewUnsubackMessage_def
  by (simp_all add: message_good_def new_ack MessageType_Valid_iff)

section \<open>PUBLISH from a client\<close>

lemma processPublish_upload:
  assumes "ready w s c" and "QoS m = Some 1" and "topic m \<noteq> str heartbeat_topic"
  shows "\<exists>w1. replies c (PAck PUBACK (PacketId m)) w w1
     \<and> processIncoming s (MPublish m) w = (Done None, w1\<lparr>MsgChan := MsgChan w1 @
         (if length (MsgChan w) < MsgChan_cap
          then [\<lparr>Msg = m, up_DeviceName = productKey (services w ! s), up_ProductKey = deviceName (services w ! s)\<rparr>] else [])\<rparr>)"
proof -
  obtain m2 w1 where 1: "sendData s (MPuback (SetPacketId NewPubackMessage (PacketId m))) w = (Done (m2, 0, None), w1)"
      "replies c (PAck PUBACK (PacketId m)) w w1"
    using sendData_replies [OF assms(1) ack_good(1) [of "PacketId m"]] by (auto simp: ack_good)
  have "MsgChan w1 = MsgChan w" using 1(2) by (auto simp: replies_def writes_fields)
  moreover have "s < length (services w)" using assms(1) by (simp add: ready_def)
  ultimately show ?thesis using 1 assms(2,3)
    by (intro exI [of _ w1])
       (simp add: processIncoming_def processPublish_def send_puback_def upload_def act_simps get_svc_def)
qed

lemma processPublish_heartbeat:
  assumes "ready w s c" and "QoS m = Some 1" and "topic m = str heartbeat_topic" and "Atoi (payload m) = Inr h"
    and "keepAliveCH (services w ! s) = Some False" and "\<not> service_isDone (services w ! s)"
  shows "\<exists>w1. replies c (PAck PUBACK (PacketId m))
             (w\<lparr>services := (services w)[s := (services w ! s)\<lparr>r_d := int32 (clamp_heartbeat h + 5)\<rparr>]\<rparr>) w1
     \<and> processIncoming s (MPublish m) w = (Done None, w1)"
proof -
  let ?w = "w\<lparr>services := (services w)[s := (services w ! s)\<lparr>r_d := int32 (clamp_heartbeat h + 5)\<rparr>]\<rparr>"
  have s: "s < length (services w)" and r: "ready ?w s c" using assms(1) by (simp_all add: ready_def)
  from send_reply [OF r ack_good(1) [of "PacketId m"]] obtain w1 where
    "send_puback s m ?w = (Done None, w1)" "replies c (PAck PUBACK (PacketId m)) ?w w1"
    by (auto simp: send_puback_def ack_good)
  with s assms(2-) show ?thesis
    by (intro exI [of _ w1])
       (simp add: processIncoming_def processPublish_def keepAlive_send_def updateHeartbeat_def upd_svc_def get_svc_def act_simps)
qed

section \<open>SUBSCRIBE, UNSUBSCRIBE and PINGREQ\<close>

lemma sub_retcodes_all: "length ts = length qs \<Longrightarrow> sub_retcodes ts qs = Some qs"
  by (induction ts qs rule: list_induct2) simp_all

text \<open>The reply to a subscription, whose codes are the QoS that were asked for.\<close>

lemma suback_good:
  assumes "\<forall>q \<in> set qs. return_code_ok q" and "int (length qs) + 2 \<le> maxRemainingLength"
  shows "\<exists>r. AddReturnCodes (SetPacketId NewSubackMessage v) qs = (r, None) \<and> message_good (MSuback r)
           \<and> content (MSuback r) = PSuback v qs"
proof -
  let ?h = "SetPacketId NewSubackMessage v"
  let ?r = "?h\<lparr>returnCodes := qs, dirty := True\<rparr>"
  have n: "views_ok NewSubackMessage" "packetId NewSubackMessage = Own []" "returnCodes NewSubackMessage = []"
    by (simp_all add: NewSubackMessage_def SetType_def write_mtypeflags_def ensure_mtypeflags_def header0_def header.defs
        views_ok_def MessageType_Valid_iff)
  have f: "returnCodes ?h = []" using n(3) by (simp add: SetPacketId_def write_packetId_def Let_def split: prod.split)
  then have a: "AddReturnCodes ?h qs = (?r, None)" using assms(1) by (simp add: AddReturnCodes_def add_return_codes_loop_ok)
  have "flag_byte ?h (type_byte SUBACK)" using SetPacketId_flag_byte [OF n(1) New_flag_byte(9)] .
  then have "sendable (type_byte SUBACK) (suback_msglen ?r) ?r"
    using assms(2) by (simp add: sendable_def suback_msglen_def type_byte_type MessageType_Valid_iff flags_ok_def type_byte_flags DefaultFlags_def ValidQos_def)
  moreover have "PacketId ?h = v"
    using n SetPacketId_PacketId [of v NewSubackMessage] by (cases "v = 0") (simp_all add: SetPacketId_def PacketId_def)
  moreover have "PacketId ?r = PacketId ?h" by (simp add: PacketId_def)
  moreover have "pid_ok ?r" using n by (simp add: pid_ok_def SetPacketId_def write_packetId_def Let_def)
  ultimately show ?thesis using a assms(1) by (auto simp: message_good_def simp del: One_nat_def)
qed

lemma processSubscribe_ok:
  assumes "ready w s c" and "length (sub_topics m) = length (sub_qos m)" and "\<forall>q \<in> set (sub_qos m). return_code_ok q"
    and "int (length (sub_qos m)) + 2 \<le> maxRemainingLength"
  shows "\<exists>w'. processIncoming s (MSubscribe m) w = (Done None, w') \<and> replies c (PSuback (PacketId m) (sub_qos m)) w w'"
proof -
  obtain r where r: "AddReturnCodes (SetPacketId NewSubackMessage (PacketId m)) (sub_qos m) = (r, None)"
      "message_good (MSuback r)" "content (MSuback r) = PSuback (PacketId m) (sub_qos m)"
    using suback_good [OF assms(3,4)] by blast
  from send_reply [OF assms(1) r(2)] r(3) obtain w' where
    "andThen (sendData s (MSuback r)) (\<lambda>(_, _, err). yield err) w = (Done None, w')" "replies c (PSuback (PacketId m) (sub_qos m)) w w'"
    by auto
  with r(1) show ?thesis
    by (simp add: processIncoming_def processSubscribe_def sub_retcodes_all [OF assms(2)] act_simps)
qed

lemma processUnsubscribe_ok:
  assumes "ready w s c"
  shows "\<exists>w'. processIncoming s (MUnsubscribe m) w = (Done None, w') \<and> replies c (PAck UNSUBACK (PacketId m)) w w'"
  using send_reply [OF assms ack_good(4) [of "PacketId m"]]
  by (simp add: processIncoming_def processUnsubscribe_def ack_good)

lemma processPingreq_ok:
  assumes "ready w s c"
  shows "\<exists>w'. processIncoming s (MPingreq m) w = (Done None, w') \<and> replies c (PPlain PINGRESP) w w'"
proof -
  have "message_good (MPingresp NewPingrespMessage)"
    by (simp add: message_good_def NewPingrespMessage_def MessageType_Valid_iff sendable_def flags_ok_def SetType_def
        header0_def write_mtypeflags_def ensure_mtypeflags_def type_byte_def DefaultFlags_def)
  from send_reply [OF assms this] show ?thesis by (simp add: processIncoming_def)
qed

section \<open>The goroutine of a connection\<close>

abbreviation reader_of :: "broker \<Rightarrow> nat \<Rightarrow> breader" where
  "reader_of w s \<equiv> (conns w ! r_conn (services w ! s), held (services w ! s), held_err (services w ! s))"

text \<open>
  \<open>listening w s c\<close>: the goroutine of service \<open>s\<close> waits for a packet on the connection \<open>c\<close>, to which the service also writes.
\<close>

definition listening :: "broker \<Rightarrow> nat \<Rightarrow> nat \<Rightarrow> bool" where
  "listening w s c \<longleftrightarrow>
     ready w s c \<and> r_conn (services w ! s) = c \<and> reader_ok (reader_of w s) \<and> \<not> service_isDone (services w ! s)"

text \<open>What has arrived for the goroutine and was not cut into packets yet.\<close>

definition arrived :: "broker \<Rightarrow> nat \<Rightarrow> bytes" where
  "arrived w s = stream_of (reader_of w s)"

text \<open>The broker after the reader of a service has read on.\<close>

definition read_on :: "nat \<Rightarrow> bytes \<Rightarrow> broker \<Rightarrow> broker \<Rightarrow> bool" where
  "read_on s rest w w' \<longleftrightarrow>
     (\<exists>h i ks. h @ i = rest \<and> length h \<le> defaultReadSize \<and> 0 \<notin> set ks \<and>
        (let c = r_conn (services w ! s)
         in w' = w\<lparr>services := (services w)[s := (services w ! s)\<lparr>held := h, held_err := None\<rparr>],
                   conns := (conns w)[c := (conns w ! c)\<lparr>incoming := i, chunks := ks\<rparr>]\<rparr>))"

lemma nth_update_if: "xs[i := x] ! j = (if i = j \<and> i < length xs then x else xs ! j)"
  by (cases "i < length xs") (simp_all add: nth_list_update list_update_beyond)

lemma read_on_trans:
  assumes "read_on s x w w1" and "read_on s y w1 w2" and "s < length (services w)" and "r_conn (services w ! s) < length (conns w)"
  shows "read_on s y w w2"
proof -
  let ?c = "r_conn (services w ! s)"
  obtain h i ks where 1: "w1 = w\<lparr>services := (services w)[s := (services w ! s)\<lparr>held := h, held_err := None\<rparr>],
      conns := (conns w)[?c := (conns w ! ?c)\<lparr>incoming := i, chunks := ks\<rparr>]\<rparr>"
    using assms(1) by (auto simp: read_on_def Let_def)
  have "r_conn (services w1 ! s) = ?c" using 1 assms(3) by simp
  with assms(2) obtain h' i' ks' where "h' @ i' = y" "length h' \<le> defaultReadSize" "0 \<notin> set ks'"
    "w2 = w1\<lparr>services := (services w1)[s := (services w1 ! s)\<lparr>held := h', held_err := None\<rparr>],
      conns := (conns w1)[?c := (conns w1 ! ?c)\<lparr>incoming := i', chunks := ks'\<rparr>]\<rparr>"
    by (auto simp: read_on_def Let_def)
  with 1 assms(3,4) show ?thesis by (auto simp: read_on_def Let_def)
qed

lemma read_on_listening:
  assumes "read_on s rest w w'" and "listening w s c"
  shows "listening w' s c" and "arrived w' s = rest"
  using assms by (auto simp: read_on_def Let_def listening_def ready_def reader_ok_def writable_def service_isDone_def arrived_def stream_of_def)

lemma read_on_fields:
  assumes "read_on s rest w w'"
  shows "MsgChan w' = MsgChan w" and "server w' = server w" and "callbacks w' = callbacks w" and "tw_calls w' = tw_calls w"
    and "sess_pkg w' = sess_pkg w" and "sess_at w' = sess_at w" and "length (services w') = length (services w)"
    and "gPacketId w' = gPacketId w" and "outgoing (conns w' ! c) = outgoing (conns w ! c)" and "t \<noteq> s \<Longrightarrow> services w' ! t = services w ! t"
  using assms by (auto simp: read_on_def Let_def nth_update_if)

lemma on_reader_ok:
  assumes "listening w s c" and "f (reader_of w s) = (r, r')" and "reader_ok r'" and "same_conn (reader_of w s) r'"
  shows "\<exists>w'. on_reader s f w = (Done r, w') \<and> read_on s (stream_of r') w w'"
proof -
  obtain c' h e where r': "r' = (c', h, e)" by (cases r')
  then have e: "e = None" "length h \<le> defaultReadSize" "0 \<notin> set (chunks c')" using assms(3) by (auto simp: reader_ok_def)
  have c: "c < length (conns w)" "s < length (services w)" "r_conn (services w ! s) = c"
    using assms(1) by (auto simp: listening_def ready_def)
  obtain ks where ks: "c' = (conns w ! c)\<lparr>incoming := incoming c', chunks := ks\<rparr>"
    using assms(4) r' c(3) by (auto simp: same_conn_def read_upto_def)
  then have "ks = chunks c'" by (metis conn.select_convs(3) conn.surjective conn.update_convs(3))
  moreover have "on_reader s f w = (Done r, w\<lparr>services := (services w)[s := (services w ! s)\<lparr>held := h, held_err := None\<rparr>],
      conns := (conns w)[c := c']\<rparr>)"
    using assms(2) r' c e(1) by (simp add: on_reader_def get_svc_def on_conn_def upd_svc_def act_simps)
  ultimately show ?thesis using e c(3) ks
    unfolding read_on_def Let_def r' stream_of_def prod.case by metis
qed

lemma kind_content: "content m = content m' \<Longrightarrow> kind m = kind m'"
  by (cases m; cases m') simp_all

text \<open>A packet that has arrived is decoded and handled; an error of the handler ends the connection.\<close>

definition after_packet :: "nat \<Rightarrow> error option \<Rightarrow> (bool, broker) act" where
  "after_packet s err =
     (if err \<noteq> None then andThen (exceptionDisconnect s err) (\<lambda>_. yield False)
      else andThen (get_svc s) (\<lambda>this. yield (\<not> service_isDone this)))"

lemma receive_packet:
  assumes "listening w s c" and "arrived w s = ws @ rest" and "framed t ws" and "int (length ws) \<le> MaxBufferSize (server w)"
    and "message_New t = Inr m0" and "message_Decode m0 (slice_of ws) = Some (m, k, None)"
  shows "\<exists>w1. read_on s rest w w1 \<and> receive_round s w = andThen (processIncoming s m) (after_packet s) w1"
proof -
  have ok: "reader_ok (reader_of w s)" using assms(1) unfolding listening_def by blast
  obtain r1 where r1: "getPeekMessageSize (reader_of w s) = (Inr (t, int (length ws)), r1)" "reader_ok r1"
      "stream_of r1 = ws @ rest" "same_conn (reader_of w s) r1"
    using getPeekMessageSize_framed [OF ok _ assms(3), of rest] assms(2) by (auto simp: arrived_def)
  obtain w1 where w1: "on_reader s getPeekMessageSize w = (Done (Inr (t, int (length ws))), w1)" "read_on s (ws @ rest) w w1"
    using on_reader_ok [where f = getPeekMessageSize, OF assms(1) r1(1,2,4)] r1(3) by auto
  have l1: "listening w1 s c" "arrived w1 s = ws @ rest" using read_on_listening [OF w1(2) assms(1)] by auto
  have ok1: "reader_ok (reader_of w1 s)" using l1(1) unfolding listening_def by blast
  obtain r2 where r2: "getPeekMessage t (int (length ws)) (reader_of w1 s) = (Some (Some m, None), r2)" "reader_ok r2"
      "stream_of r2 = rest" "same_conn (reader_of w1 s) r2"
    using getPeekMessage_framed [OF ok1, of ws rest t] l1(2) assms(5,6) by (auto simp: arrived_def)
  obtain w2 where w2: "on_reader s (getPeekMessage t (int (length ws))) w1 = (Done (Some (Some m, None)), w2)" "read_on s rest w1 w2"
    using on_reader_ok [where f = "getPeekMessage t (int (length ws))", OF l1(1) r2(1,2,4)] r2(3) by auto
  have "read_on s rest w w2"
    by (rule read_on_trans [OF w1(2) w2(2)]) (use assms(1) in \<open>auto simp: listening_def ready_def\<close>)
  moreover have "server w1 = server w" using read_on_fields [OF w1(2)] by simp
  then have "receive_round s w = andThen (processIncoming s m) (after_packet s) w2"
    using w1(1) w2(1) assms(4) by (simp add: receive_round_def act_simps Let_def after_packet_def [abs_def])
  ultimately show ?thesis by blast
qed

text \<open>The round goes on when the handler succeeds.\<close>

lemma receiverData_ok:
  assumes "receive_round s w = andThen (processIncoming s m) (after_packet s) w1" and "processIncoming s m w1 = (Done None, w2)"
    and "s < length (services w2)" and "\<not> service_isDone (services w2 ! s)"
  shows "receiverData s w = (Done (), w2)"
  using assms by (simp add: receiverData_def after_packet_def act_simps get_svc_def)

end
