(* ===== verification/Broker_Push.thy ===== *)
theory Broker_Push
  imports Broker_Flow
begin

text \<open>
  A message on its way to a device: \<open>publish\<close> sends it and queues it in \<open>Pub1ack\<close> until the PUBACK of the device takes
  it, and every message before it that is acknowledged, out of the queue and stops its timer.
\<close>

section \<open>The queue of a service\<close>

text \<open>A buffer that starts with a PUBACK for an identifier.\<close>

definition holds_puback :: "gslice \<Rightarrow> uint16 \<Rightarrow> bool" where
  "holds_puback b i \<longleftrightarrow>
     (\<exists>h rest. sendable (type_byte PUBACK) 2 h \<and> PacketId h = i \<and> sl_arr b = puback_wire (type_byte PUBACK) h @ rest)"

text \<open>An entry of \<open>Pub1ack\<close> that \<open>publish\<close> made for the service \<open>s\<close>: a PUBLISH, and its PUBACK once it is acknowledged.\<close>

definition pub_entry :: "broker \<Rightarrow> nat \<Rightarrow> ackmsg \<Rightarrow> bool" where
  "pub_entry w s a \<longleftrightarrow>
     whole (Msgbuf a) \<and> whole (Ackbuf a) \<and> Mtype a = PUBLISH
     \<and> (\<exists>pm rest. message_ok (MPublish pm) \<and> sl_arr (Msgbuf a) = message_wire (MPublish pm) @ rest)
     \<and> (State a = RESERVED \<or> State a = PUBACK \<and> holds_puback (Ackbuf a) (Pktid a))
     \<and> (\<exists>i. OnComplete a = Some i \<and> i < length (callbacks w) \<and> callbacks w ! i = ServiceOnComplete s)"

definition pub_queue :: "broker \<Rightarrow> nat \<Rightarrow> Ackqueue \<Rightarrow> ackmsg list \<Rightarrow> bool" where
  "pub_queue w s q ms \<longleftrightarrow>
     queue_of q ms \<and> pool_ok (pool q) \<and> (\<exists>p. ping q = Some p \<and> State p \<noteq> PINGRESP) \<and> (\<forall>a \<in> set ms. pub_entry w s a)"

text \<open>A service to which messages can be pushed, and the messages that wait for the device's acknowledgement.\<close>

definition live :: "broker \<Rightarrow> nat \<Rightarrow> nat \<Rightarrow> ackmsg list \<Rightarrow> bool" where
  "live w s c ms \<longleftrightarrow>
     ready w s c \<and> \<not> closeLock (services w ! s) \<and> pm_New (svc_pm (services w ! s))
     \<and> (\<exists>ss q. session_of w s ss \<and> Pub1ack ss = Some q \<and> pub_queue w s q ms)"

lemma pub_entry_callbacks: "pub_entry w s a \<Longrightarrow> \<exists>cs. callbacks w' = callbacks w @ cs \<Longrightarrow> pub_entry w' s a"
  unfolding pub_entry_def by (auto simp: nth_append)

lemma pub_queue_callbacks: "pub_queue w s q ms \<Longrightarrow> \<exists>cs. callbacks w' = callbacks w @ cs \<Longrightarrow> pub_queue w' s q ms"
  unfolding pub_queue_def by (blast intro: pub_entry_callbacks)

lemma encoded_publish:
  assumes "encoded_into (MPublish m) g m' buf g'" and "message_good (MPublish m)"
  shows "\<exists>x rest. m' = MPublish x \<and> message_good (MPublish x) \<and> content (MPublish x) = fst (sent (MPublish m) g)
           \<and> g' = snd (sent (MPublish m) g) \<and> sl_arr buf = message_wire (MPublish x) @ rest"
proof -
  obtain n m1 b k where e: "message_Len (MPublish m) = Some (n, m1)" "whole b" "n \<le> go_len b"
      "message_Encode m1 b g = Some ((m', buf, k, None), g')"
    using assms(1) by (auto simp: encoded_into_def)
  obtain m2 x where x: "message_ok (MPublish x)" "content (MPublish x) = fst (sent (MPublish m) g)" "encodable (MPublish x)"
    "publish_Len m = Some (int (length (message_wire (MPublish x))), m2)"
    "\<And>dst. wf_slice dst \<Longrightarrow> length (message_wire (MPublish x)) \<le> sl_len dst \<Longrightarrow>
      publish_Encode m2 dst g =
        Some ((x, fill dst (message_wire (MPublish x)), int (length (message_wire (MPublish x))), None), snd (sent (MPublish m) g))"
    using publish_encodes [OF assms(2), of g] by blast
  have n: "n = int (length (message_wire (MPublish x)))" "m1 = MPublish m2"
    using e(1) x(4) by (simp_all del: message_wire.simps)
  then have "publish_Encode m2 b g =
      Some ((x, fill b (message_wire (MPublish x)), int (length (message_wire (MPublish x))), None), snd (sent (MPublish m) g))"
    using x(5) [OF whole_wf [OF e(2)]] e(3) by (simp add: go_len_def del: message_wire.simps)
  with e(4) n(2) have "m' = MPublish x" "buf = fill b (message_wire (MPublish x))" "g' = snd (sent (MPublish m) g)"
    by (auto simp del: message_wire.simps)
  with x(1-3) show ?thesis by (auto simp: message_good_def simp del: message_wire.simps)
qed

section \<open>Waiting for an acknowledgement\<close>

lemma PMPoolGet_New: "pm_New p \<Longrightarrow> \<exists>m p'. PMPoolGet p = Some (m, p') \<and> pm_New p'"
  by (auto simp: PMPoolGet_def Let_def split: list.split)

lemma Wait_publish:
  assumes "pub_queue w s q ms" and "message_good (MPublish m)" and "QoS m = Some 1" and "PacketId m \<notin> Pktid ` set ms"
    and "i < length (callbacks w)" and "callbacks w ! i = ServiceOnComplete s" and "PacketId m \<noteq> 0"
  shows "\<exists>q' x a. Wait q (MPublish m) (Some i) now g = Some ((q', MPublish x, None), g) \<and> pub_queue w s q' (ms @ [a])
           \<and> Pktid a = PacketId m \<and> State a = RESERVED \<and> timestamp a = now \<and> message_good (MPublish x)
           \<and> content (MPublish x) = content (MPublish m)"
proof -
  have q: "queue_of q ms" "pool_ok (pool q)" "\<forall>a \<in> set ms. pub_entry w s a" using assms(1) by (auto simp: pub_queue_def)
  have id: "message_PacketId (MPublish m) = PacketId m" by (simp add: message_PacketId_def PacketId_def header.defs)
  obtain q' m' g' a where a: "aq_insert q (PacketId m) (MPublish m) (Some i) now g = Some ((q', m', None), g')" "queue_of q' (ms @ [a])"
      "pool_ok (pool q')" "ping q' = ping q" "Pktid a = PacketId m" "State a = RESERVED" "timestamp a = now" "OnComplete a = Some i"
      "whole (Msgbuf a)" "whole (Ackbuf a)" "encoded_into (MPublish m) g m' (Msgbuf a) g'"
      "Some (Mtype a) = map_option (message_Type \<circ> snd) (message_Len (MPublish m))"
    using aq_insert_new [OF q(1,2) fits_publish [OF assms(2)], of "Some i" now g] assms(4) unfolding id by blast
  obtain x rest where x: "m' = MPublish x" "message_good (MPublish x)" "content (MPublish x) = fst (sent (MPublish m) g)"
      "g' = snd (sent (MPublish m) g)" "sl_arr (Msgbuf a) = message_wire (MPublish x) @ rest"
    using encoded_publish [OF a(11) assms(2)] by blast
  have s: "sent (MPublish m) g = (content (MPublish m), g)" using assms(7) by (simp add: sent_def)
  have "Mtype a = PUBLISH"
  proof -
    let ?b = "mtypeflags_bytes m ! 0"
    have snd: "sendable ?b (publish_len ?b m) m" "drop_bit 4 ?b = PUBLISH" using assms(2) by (simp_all add: message_good_def)
    then have "publish_Len m = Some (packet_Len (publish_len ?b m) m)"
      using publish_msglen_ok [of m ?b] by (simp add: publish_Len_def sendable_def)
    then have "Mtype a = message_Type (MPublish (m\<lparr>remlen := publish_len ?b m\<rparr>))"
      using a(12) packet_Len_sendable [OF snd(1)] by simp
    moreover have "flag_byte m ?b" using snd(1) by (simp add: sendable_def)
    ultimately show ?thesis using snd(2) Type_flag_byte [of "header.truncate (m\<lparr>remlen := publish_len ?b m\<rparr>)" ?b]
      by (simp add: message_Type_def header.defs)
  qed
  then have "pub_entry w s a"
    using a(6,8-10) x(2,5) assms(5,6) by (auto simp: pub_entry_def message_good_def simp del: message_wire.simps message_ok.simps)
  then have "pub_queue w s q' (ms @ [a])" using a(2-4) assms(1) q(3) by (auto simp: pub_queue_def)
  moreover have "Wait q (MPublish m) (Some i) now g = Some ((q', MPublish x, None), g)"
    using a(1) assms(3) x(1,4) s id by (simp add: Wait_def Let_def)
  ultimately show ?thesis using a(5-7) x(2,3) s by fastforce
qed

lemma queue_Wait_ok:
  assumes "session_of w s ss" and "get_queue k ss = Some q"
    and "Wait q m (Some (length (callbacks w))) now (gPacketId w) = Some ((q', m', e), g)"
  shows "queue_Wait s k m cb now w =
    (Done (m', e), put_session s (set_queue k q' ss) (w\<lparr>callbacks := callbacks w @ [cb], gPacketId := g\<rparr>))"
proof -
  let ?w = "w\<lparr>callbacks := callbacks w @ [cb]\<rparr>"
  have "session_of ?w s ss" using assms(1) by (simp add: session_of_def)
  then have "on_queue s k (\<lambda>q g. map_option (\<lambda>((q, m, e), g). (((m, e), q), g)) (Wait q m (Some (length (callbacks w))) now g)) ?w =
      (Done (m', e), put_session s (set_queue k q' ss) (?w\<lparr>gPacketId := g\<rparr>))"
    using assms(2,3) by (intro on_queue_ok) simp_all
  then show ?thesis by (simp add: queue_Wait_def new_callback_def act_simps)
qed

lemma session_of_service [simp]:
  assumes "\<And>v. sess (f v) = sess v" and "s < length (services w)"
  shows "session_of (w\<lparr>services := (services w)[t := f (services w ! t)]\<rparr>) s ss = session_of w s ss"
  using assms by (auto simp: session_of_def nth_update_if)

lemma session_of_other [simp]:
  "session_of (w\<lparr>conns := cs\<rparr>) s ss = session_of w s ss" "session_of (w\<lparr>tw_calls := tc\<rparr>) s ss = session_of w s ss"
  "session_of (w\<lparr>gPacketId := g\<rparr>) s ss = session_of w s ss" "session_of (w\<lparr>MsgChan := mc\<rparr>) s ss = session_of w s ss"
  "session_of (w\<lparr>callbacks := cbs\<rparr>) s ss = session_of w s ss"
  by (simp_all add: session_of_def)

text \<open>What \<open>publish\<close> does once the message is sent.\<close>

lemma publish_wait_ok:
  assumes "live w s c ms" and "message_good (MPublish m)" and "QoS m = Some 1" and "PacketId m \<noteq> 0" and "PacketId m \<notin> Pktid ` set ms"
  shows "\<exists>w' x a p cm. publish_wait cp s m (ServiceOnComplete s) now w = (Done (x, None), w')
     \<and> live w' s c (ms @ [a]) \<and> Pktid a = PacketId m \<and> State a = RESERVED \<and> timestamp a = now
     \<and> message_good (MPublish x) \<and> content (MPublish x) = content (MPublish m)
     \<and> services w' = (services w)[s := (services w ! s)\<lparr>svc_pm := p, Timers := (Timers (services w ! s))(PacketId m \<mapsto> length (tw_calls w))\<rparr>]
     \<and> tw_calls w' = tw_calls w @ [TwAdd (svc_ackTimeout (services w ! s)) s (cp cm m)]
     \<and> conns w' = conns w \<and> server w' = server w \<and> MsgChan w' = MsgChan w \<and> pushing w' = pushing w
     \<and> callbacks w' = callbacks w @ [ServiceOnComplete s] \<and> gPacketId w' = gPacketId w"
proof -
  let ?v = "services w ! s"
  have rd: "ready w s c" and lk: "\<not> closeLock ?v" and nw: "pm_New (svc_pm ?v)" using assms(1) by (auto simp: live_def)
  then have s: "s < length (services w)" by (simp add: ready_def)
  obtain ss q where q: "session_of w s ss" "Pub1ack ss = Some q" "pub_queue w s q ms" using assms(1) by (auto simp: live_def)
  obtain cm p where p: "PMPoolGet (svc_pm ?v) = Some (cm, p)" "pm_New p" using PMPoolGet_New [OF nw] by blast
  let ?upd = "\<lambda>l. (services w)[s := ?v\<lparr>svc_pm := p, Timers := (Timers ?v)(PacketId m \<mapsto> length (tw_calls w)), closeLock := l\<rparr>]"
  let ?tc = "tw_calls w @ [TwAdd (svc_ackTimeout ?v) s (cp cm m)]"
  let ?w1 = "w\<lparr>tw_calls := ?tc, services := ?upd True\<rparr>"
  let ?w2 = "?w1\<lparr>callbacks := callbacks w @ [ServiceOnComplete s]\<rparr>"
  have q2: "pub_queue ?w2 s q ms" by (rule pub_queue_callbacks [OF q(3)]) simp
  have "length (callbacks w) < length (callbacks ?w2)" "callbacks ?w2 ! length (callbacks w) = ServiceOnComplete s"
    by (simp_all add: nth_append)
  then obtain q' x a where x: "Wait q (MPublish m) (Some (length (callbacks w))) now (gPacketId w) = Some ((q', MPublish x, None), gPacketId w)"
      "pub_queue ?w2 s q' (ms @ [a])" "Pktid a = PacketId m" "State a = RESERVED" "timestamp a = now" "message_good (MPublish x)"
      "content (MPublish x) = content (MPublish m)"
    using Wait_publish [OF q2 assms(2,3,5) _ _ assms(4), of "length (callbacks w)" now "gPacketId w"] by blast
  have so: "session_of ?w1 s ss" using q(1) s by (auto simp: session_of_def)
  let ?w3 = "put_session s (ss\<lparr>Pub1ack := Some q'\<rparr>) (?w2\<lparr>gPacketId := gPacketId w\<rparr>)"
  have wait: "queue_Wait s QPub1ack (MPublish m) (ServiceOnComplete s) now ?w1 = (Done (MPublish x, None), ?w3)"
    using queue_Wait_ok [OF so, of QPub1ack q "MPublish m" now q' "MPublish x" None "gPacketId w"] q(2) x(1) by simp
  obtain sp where sp: "sess ?v = Some sp" "sess_at w sp = Some ss" using q(1) by (auto simp: session_of_def)
  let ?w4 = "?w3\<lparr>services := ?upd False\<rparr>"
  have "publish_wait cp s m (ServiceOnComplete s) now w = (Done (x, None), ?w4)"
    using assms(3) s p(1) lk wait sp q(2)
    by (simp add: publish_wait_def svc_PMPoolGet_def get_svc_def upd_svc_def act_simps)
  moreover have "live ?w4 s c (ms @ [a])"
  proof -
    have "session_of ?w3 s (ss\<lparr>Pub1ack := Some q'\<rparr>)" by (rule session_of_put) (use so in simp)
    then have "session_of ?w4 s (ss\<lparr>Pub1ack := Some q'\<rparr>)" using s by (auto simp: session_of_def)
    moreover have "pub_queue ?w4 s q' (ms @ [a])" by (rule pub_queue_callbacks [OF x(2)]) simp
    ultimately show ?thesis using rd s p(2) by (auto simp: live_def ready_def)
  qed
  moreover have e: "?upd False = (services w)[s := ?v\<lparr>svc_pm := p, Timers := (Timers ?v)(PacketId m \<mapsto> length (tw_calls w))\<rparr>]"
    using lk by (cases ?v) simp
  then have "services ?w4 = (services w)[s := ?v\<lparr>svc_pm := p, Timers := (Timers ?v)(PacketId m \<mapsto> length (tw_calls w))\<rparr>]"
    by (rule trans [rotated]) simp
  moreover have "tw_calls ?w4 = ?tc" "conns ?w4 = conns w" "server ?w4 = server w" "MsgChan ?w4 = MsgChan w" "pushing ?w4 = pushing w"
      "callbacks ?w4 = callbacks w @ [ServiceOnComplete s]" "gPacketId ?w4 = gPacketId w" by simp_all
  ultimately show ?thesis using x(3-) by blast
qed

lemma live_writes:
  assumes "writes c' ws w w'" and "live w s c ms"
  shows "live w' s c ms"
proof -
  obtain ss q where q: "ready w s c" "\<not> closeLock (services w ! s)" "pm_New (svc_pm (services w ! s))" "session_of w s ss"
      "Pub1ack ss = Some q" "pub_queue w s q ms" using assms(2) by (auto simp: live_def)
  have "pub_queue w' s q ms"
    by (rule pub_queue_callbacks [OF q(6)]) (simp add: writes_fields(4) [OF assms(1)])
  moreover have "ready w' s c"
    using q(1) by (simp add: ready_def writes_fields(1,9) [OF assms(1)] writable_def nth_update_if)
  ultimately show ?thesis
    using q(2-5) unfolding live_def writes_session [OF assms(1)] writes_fields(1) [OF assms(1)] by blast
qed

text \<open>\<open>publish\<close> of a message with QoS 1 and no identifier yet.\<close>

lemma service_publish_ok:
  assumes "live w s c ms" and "message_good (MPublish m)" and "mtypeflags_bytes m ! 0 = 0x32" and "PacketId m = 0"
    and "i = fst (next_packetId (gPacketId w))" and "i \<notin> Pktid ` set ms"
  shows "\<exists>w' x a p cm ws y. service_publish cp s m (ServiceOnComplete s) now w = (Done (x, None), w')
     \<and> packet_bytes ws (PPublish 0x32 (Some i) (topic m) (payload m)) \<and> conns w' = (conns w)[c := wrote (conns w ! c) ws]
     \<and> live w' s c (ms @ [a]) \<and> Pktid a = i \<and> State a = RESERVED \<and> timestamp a = now \<and> message_good (MPublish x)
     \<and> content (MPublish x) = PPublish 0x32 (Some i) (topic m) (payload m)
     \<and> services w' = (services w)[s := (services w ! s)\<lparr>svc_pm := p, Timers := (Timers (services w ! s))(i \<mapsto> length (tw_calls w))\<rparr>]
     \<and> content (MPublish y) = PPublish 0x32 (Some i) (topic m) (payload m)
     \<and> tw_calls w' = tw_calls w @ [TwAdd (svc_ackTimeout (services w ! s)) s (cp cm y)]
     \<and> server w' = server w \<and> MsgChan w' = MsgChan w \<and> pushing w' = pushing w"
proof -
  let ?p = "PPublish 0x32 (Some i) (topic m) (payload m)"
  have rd: "ready w s c" using assms(1) by (simp add: live_def)
  have q: "qos_of 0x32 = 1" by code_simp
  have sn: "fst (sent (MPublish m) (gPacketId w)) = ?p" using assms(3-5) q by (simp add: sent_def)
  obtain y p2 p4 pk where y: "sendData s (MPublish m) w = (Done (MPublish y, 0, None),
             pools p2 p4 pk (w\<lparr>gPacketId := snd (sent (MPublish m) (gPacketId w)),
               conns := (conns w)[c := wrote (conns w ! c) (message_wire (MPublish y))]\<rparr>))"
      "message_good (MPublish y)" "content (MPublish y) = ?p" "PacketId y \<noteq> 0"
    using sendData_publish [OF rd assms(2)] assms(3) q sn by (metis one_neq_zero)
  define w1 where "w1 = pools p2 p4 pk (w\<lparr>gPacketId := snd (sent (MPublish m) (gPacketId w)),
               conns := (conns w)[c := wrote (conns w ! c) (message_wire (MPublish y))]\<rparr>)"
  have wr: "writes c (message_wire (MPublish y)) w w1" unfolding writes_def w1_def by blast
  have pb: "packet_bytes (message_wire (MPublish y)) ?p" using y(2,3) unfolding packet_bytes_def message_good_def by blast
  have fb: "flag_byte y 0x32" "PacketId y = i"
    using y(2,3) q by (simp_all add: message_good_def sendable_def split: if_splits)
  then have "QoS y = Some 1" using QoS_flag_byte [OF fb(1)] q by simp
  then obtain w' x a p cm where w': "publish_wait cp s y (ServiceOnComplete s) now w1 = (Done (x, None), w')"
      "live w' s c (ms @ [a])" "Pktid a = i" "State a = RESERVED" "timestamp a = now" "message_good (MPublish x)"
      "content (MPublish x) = content (MPublish y)"
      "services w' = (services w1)[s := (services w1 ! s)\<lparr>svc_pm := p, Timers := (Timers (services w1 ! s))(i \<mapsto> length (tw_calls w1))\<rparr>]"
      "tw_calls w' = tw_calls w1 @ [TwAdd (svc_ackTimeout (services w1 ! s)) s (cp cm y)]"
      "conns w' = conns w1" "server w' = server w1" "MsgChan w' = MsgChan w1" "pushing w' = pushing w1"
    using publish_wait_ok [OF live_writes [OF wr assms(1)] y(2) _ y(4)] assms(6) fb(2) by metis
  have "s < length (services w1)" using rd by (simp add: ready_def writes_fields(1) [OF wr])
  then have "service_publish cp s m (ServiceOnComplete s) now w = (Done (x, None), w')"
    using y(1) [folded w1_def] w'(1) by (simp add: service_publish_def act_simps get_svc_def)
  then show ?thesis
    using pb w'(2-) y(3) unfolding writes_fields [OF wr] by metis
qed

section \<open>The pool of messages\<close>

text \<open>A message of the server's pool: a PUBLISH with QoS 0 or 1, without an identifier.\<close>

definition pm_item :: "PublishMessage \<Rightarrow> bool" where
  "pm_item m \<longleftrightarrow> (flag_byte m 0x30 \<or> flag_byte m 0x32) \<and> views_ok m \<and> PacketId m = 0"

definition pm_ok :: "PMPool \<Rightarrow> bool" where
  "pm_ok p \<longleftrightarrow> pm_New p \<and> (\<forall>m \<in> set (pm_items p). pm_item m)"

lemma PMPoolGet_ok:
  assumes "pm_ok p"
  shows "\<exists>m p'. PMPoolGet p = Some (m, p') \<and> pm_item m \<and> pm_ok p'"
proof -
  let ?k = "case pm_picks p of [] \<Rightarrow> length (pm_items p) | k # _ \<Rightarrow> k"
  have "pm_item (fst (SetType (header.extend header0 \<lparr>topic = [], payload = []\<rparr>) PUBLISH) :: PublishMessage)"
    by (simp add: pm_item_def SetType_def header0_def header.defs write_mtypeflags_def ensure_mtypeflags_def views_ok_def PacketId_def
        MessageType_Valid_iff DefaultFlags_def)
  moreover have "set (take ?k (pm_items p) @ drop (Suc ?k) (pm_items p)) \<subseteq> set (pm_items p)"
    using set_take_subset set_drop_subset by fastforce
  ultimately show ?thesis using assms
    by (cases "?k < length (pm_items p)") (auto simp: PMPoolGet_def Let_def pm_ok_def)
qed

lemma ClearPacketId_item:
  assumes "flag_byte m 0x32" and "views_ok m"
  shows "pm_item (ClearPacketId m)"
proof (cases "length (packetId_bytes m) = 2")
  case True
  obtain d v where w: "view_write (dbuf m) (packetId m) [0, 0] = (d, v)" by fastforce
  have "view_bytes d v = [0, 0]" by (rule view_bytes_write [OF w]) (simp add: True)
  then have "PacketId (ClearPacketId m) = 0" using True w by (simp add: ClearPacketId_def write_packetId_def PacketId_def be_word_def)
  moreover have "flag_byte (ClearPacketId m) 0x32"
  proof (cases "mtypeflags m")
    case (Own bs)
    with assms(1) True w show ?thesis by (simp add: ClearPacketId_def write_packetId_def)
  next
    case f: (InDbuf a0 n0)
    show ?thesis
    proof (cases "packetId m")
      case (Own bs)
      with assms(1) True w f show ?thesis by (auto simp: ClearPacketId_def write_packetId_def)
    next
      case p: (InDbuf a n)
      have "a0 + n0 \<le> a" using assms(2) f p by (simp add: views_ok_def)
      moreover have "a \<le> length (sl_arr (dbuf m))" using True p by (auto simp: min_def split: if_splits)
      ultimately have "take n0 (drop a0 (sl_arr d)) = take n0 (drop a0 (sl_arr (dbuf m)))"
        using w assms(1) f p by (cases "dbuf m") (auto simp: take_drop min_def)
      moreover have "v = InDbuf a n" using w p by auto
      ultimately show ?thesis using True p w f assms by (simp add: ClearPacketId_def write_packetId_def del: view_write.simps)
    qed
  qed
  moreover have "views_ok (ClearPacketId m)"
    using assms(2) True by (cases "packetId m") (auto simp: ClearPacketId_def write_packetId_def views_ok_def split: bview.splits)
  ultimately show ?thesis by (simp add: pm_item_def)
next
  case False
  with assms show ?thesis by (simp add: pm_item_def ClearPacketId_def PacketId_def)
qed

lemma SetQoS_item:
  assumes "pm_item m"
  shows "\<exists>m'. SetQoS m 1 = Some (m', None) \<and> flag_byte m' 0x32 \<and> views_ok m' \<and> PacketId m' = 0"
proof -
  let ?f = "\<lambda>b :: byte. (b AND 249) OR push_bit 1 1"
  obtain b where b: "flag_byte m b" "?f b = 0x32" using assms by (auto simp: pm_item_def)
  obtain m' where m': "update_flag_byte ?f m = Some m'" "flag_byte m' 0x32" using update_flag_byte_spec [OF b(1), of ?f] b(2) by auto
  have v: "views_ok m" "PacketId m = 0" using assms by (auto simp: pm_item_def)
  have w: "m' = write_mtypeflags m 0x32" using m'(1) b by (simp add: update_flag_byte_def split: if_splits)
  have "packetId_bytes m' = packetId_bytes m"
  proof (cases "mtypeflags m")
    case (Own bs)
    then show ?thesis by (simp add: w write_mtypeflags_def)
  next
    case f: (InDbuf a n)
    show ?thesis
    proof (cases "packetId m")
      case p: (InDbuf a' n')
      have "a + n \<le> a'" "n \<noteq> 0" "a < length (sl_arr (dbuf m))"
        using v(1) b(1) f p by (auto simp: views_ok_def intro: ccontr)
      then show ?thesis using f p by (simp add: w write_mtypeflags_def min_def drop_Cons' Suc_diff_le)
    qed (simp add: w f write_mtypeflags_def)
  qed
  then have "PacketId m' = 0" using v(2) by (simp only: PacketId_def)
  moreover have "views_ok m'"
    using v(1) by (cases "mtypeflags m") (auto simp: w write_mtypeflags_def views_ok_def split: bview.splits)
  ultimately show ?thesis using m' by (auto simp: SetQoS_def)
qed

section \<open>Passing a message on\<close>

lemma go_split_set: "p \<in> set (go_split sep s) \<Longrightarrow> set p \<subseteq> set s"
  by (induction s arbitrary: p) (fastforce split: if_splits list.splits)+

lemma str_set: "x \<in> set (str s) \<longleftrightarrow> x \<in> of_char ` set s"
  by (simp add: str_def)

lemma download_topic_valid:
  assumes "ValidTopic t" and "pk \<in> set (go_split 47 t)" and "dn \<in> set (go_split 47 t)"
  shows "ValidTopic (download_topic pk dn)"
proof -
  have "0x23 \<notin> set pk" "0x2B \<notin> set pk" "0x23 \<notin> set dn" "0x2B \<notin> set dn"
    using assms go_split_set by (fastforce simp: ValidTopic_def)+
  then show ?thesis by (simp add: ValidTopic_def download_topic_def str_def)
qed

text \<open>The size that a message to a device must not exceed.\<close>

definition pushable :: "bytes \<Rightarrow> bytes \<Rightarrow> bool" where
  "pushable t p \<longleftrightarrow> p \<noteq> [] \<and> length t \<le> 65535 \<and> 4 + int (length t) + int (length p) \<le> maxRemainingLength"

lemma live_server: "live (w\<lparr>server := srv\<rparr>) s c ms \<longleftrightarrow> live w s c ms" if "sessMgr srv = sessMgr (server w)"
proof -
  have "sess_at (w\<lparr>server := srv\<rparr>) = sess_at w" using that by (simp add: sess_at_def fun_eq_iff cong: option.case_cong if_cong)
  then show ?thesis by (simp add: live_def ready_def session_of_def pub_queue_def pub_entry_def)
qed

lemma push_to_ok:
  assumes "live w s c ms" and "pm_ok (srv_pm (server w))" and "ValidTopic (download_topic pk dn)"
    and "pushable (download_topic pk dn) (payload u)"
    and "i = fst (next_packetId (gPacketId w))" and "i \<notin> Pktid ` set ms"
  shows "\<exists>w' ws a p q cm y. push_to cp s pk dn u now w = (Done (), w')
     \<and> packet_bytes ws (PPublish 0x32 (Some i) (download_topic pk dn) (payload u)) \<and> conns w' = (conns w)[c := wrote (conns w ! c) ws]
     \<and> live w' s c (ms @ [a]) \<and> Pktid a = i \<and> State a = RESERVED \<and> timestamp a = now
     \<and> services w' = (services w)[s := (services w ! s)\<lparr>svc_pm := p, Timers := (Timers (services w ! s))(i \<mapsto> length (tw_calls w))\<rparr>]
     \<and> content (MPublish y) = PPublish 0x32 (Some i) (download_topic pk dn) (payload u)
     \<and> tw_calls w' = tw_calls w @ [TwAdd (svc_ackTimeout (services w ! s)) s (cp cm y)]
     \<and> server w' = (server w)\<lparr>srv_pm := q\<rparr> \<and> pm_ok q \<and> MsgChan w' = MsgChan w \<and> pushing w' = pushing w"
proof -
  let ?t = "download_topic pk dn"
  obtain m0 p0 where m0: "PMPoolGet (srv_pm (server w)) = Some (m0, p0)" "pm_item m0" "pm_ok p0" using PMPoolGet_ok [OF assms(2)] by blast
  obtain m1 where m1: "SetQoS m0 1 = Some (m1, None)" "flag_byte m1 0x32" "views_ok m1" "PacketId m1 = 0" using SetQoS_item [OF m0(2)] by blast
  let ?m = "m1\<lparr>topic := ?t, payload := payload u, dirty := True\<rparr>"
  have q: "qos_of 0x32 = 1" by code_simp
  have "publish_len 0x32 ?m = 4 + int (length ?t) + int (length (payload u))"
    by (simp add: publish_len_def publish_id_bytes_def q)
  then have good: "message_good (MPublish ?m)"
    using assms(3,4) m1(2,3)
    by (simp add: message_good_def sendable_def pushable_def views_ok_def flags_ok_def MessageType_Valid_iff ValidQos_def)
  have id: "PacketId ?m = 0" using m1(4) by (simp add: PacketId_def split: if_splits)
  let ?w = "w\<lparr>server := (server w)\<lparr>srv_pm := p0\<rparr>\<rparr>"
  have l: "live ?w s c ms" using assms(1) by (subst live_server) simp_all
  obtain w1 x a p cm ws y where 1: "service_publish cp s ?m (ServiceOnComplete s) now ?w = (Done (x, None), w1)"
     "packet_bytes ws (PPublish 0x32 (Some i) ?t (payload u))" "conns w1 = (conns w)[c := wrote (conns w ! c) ws]"
     "live w1 s c (ms @ [a])" "Pktid a = i" "State a = RESERVED" "timestamp a = now" "message_good (MPublish x)"
     "content (MPublish x) = PPublish 0x32 (Some i) ?t (payload u)"
     "services w1 = (services w)[s := (services w ! s)\<lparr>svc_pm := p, Timers := (Timers (services w ! s))(i \<mapsto> length (tw_calls w))\<rparr>]"
     "content (MPublish y) = PPublish 0x32 (Some i) ?t (payload u)"
     "tw_calls w1 = tw_calls w @ [TwAdd (svc_ackTimeout (services w ! s)) s (cp cm y)]"
     "server w1 = (server w)\<lparr>srv_pm := p0\<rparr>" "MsgChan w1 = MsgChan w" "pushing w1 = pushing w"
    using service_publish_ok [OF l good _ id, of i cp now] assms(5,6) m1(2) by (simp del: content.simps) metis
  let ?q = "PMPoolPut p0 x"
  let ?w' = "w1\<lparr>server := (server w1)\<lparr>srv_pm := ?q\<rparr>\<rparr>"
  have "flag_byte x 0x32" "views_ok x" using 1(8,9) by (simp_all add: message_good_def sendable_def)
  then have "pm_ok ?q" using m0(3) ClearPacketId_item [of x] by (simp add: pm_ok_def PMPoolPut_def)
  moreover have "push_to cp s pk dn u now w = (Done (), ?w')"
    using m0(1) m1(1) assms(3) 1(1,13)
    by (simp add: push_to_def server_PMPoolGet_def act_simps SetTopic_def SetPayload_def)
  moreover have "live ?w' s c (ms @ [a])" using 1(4) by (subst live_server) simp_all
  moreover have "server ?w' = (server w)\<lparr>srv_pm := ?q\<rparr>" using 1(13) by simp
  moreover have "conns ?w' = (conns w)[c := wrote (conns w ! c) ws]" "MsgChan ?w' = MsgChan w" "pushing ?w' = pushing w"
      "tw_calls ?w' = tw_calls w @ [TwAdd (svc_ackTimeout (services w ! s)) s (cp cm y)]"
      "services ?w' = (services w)[s := (services w ! s)\<lparr>svc_pm := p, Timers := (Timers (services w ! s))(i \<mapsto> length (tw_calls w))\<rparr>]"
    using 1 by simp_all
  ultimately show ?thesis using 1(2,5-7,11) by blast
qed

lemma PushMsg_ok:
  assumes "MsgChan w = u # us" and "go_split 47 (topic (Msg u)) = ps @ [pk, dn]"
    and "map_of (svcMap (server w)) (pk @ str '':'' @ dn) = Some s"
  shows "PushMsg cp now w = push_to cp s pk dn (Msg u) now (w\<lparr>MsgChan := us\<rparr>)"
  using assms by (simp add: PushMsg_def Let_def nth_append)

section \<open>The acknowledgement of a device\<close>

text \<open>A PUBACK as it was received.\<close>

definition puback_received :: "PubackMessage \<Rightarrow> uint16 \<Rightarrow> bool" where
  "puback_received p i \<longleftrightarrow>
     \<not> dirty p \<and> whole (dbuf p) \<and> PacketId p = i \<and> flag_byte p (type_byte PUBACK) \<and> holds_puback (dbuf p) i"

lemma decode_puback:
  assumes "whole b" and "holds_puback b i"
  shows "\<exists>p k. message_Decode (MPuback NewPubackMessage) b = Some (MPuback p, k, None) \<and> puback_received p i"
proof -
  obtain h rest where h: "sendable (type_byte PUBACK) 2 h" "PacketId h = i" "sl_arr b = puback_wire (type_byte PUBACK) h @ rest"
    using assms(2) by (auto simp: holds_puback_def)
  have l: "length (puback_wire (type_byte PUBACK) h) \<le> sl_len b" using assms(1) h(3) by (simp add: whole_def)
  let ?p = "(decoded NewPubackMessage b 2)\<lparr>packetId := InDbuf (length (header_bytes (type_byte PUBACK) 2)) 2, dirty := False\<rparr>"
  have "puback_Decode NewPubackMessage b = Some (?p, int (length (puback_wire (type_byte PUBACK) h)), None)"
    by (rule puback_Decode_ok [OF h(1) New_flag_byte(4) refl whole_wf [OF assms(1)] h(3) l])
  moreover have "PacketId ?p = i" using PacketId_ack_decoded [of b "header_bytes (type_byte PUBACK) 2" h rest] h(2,3) by (simp add: puback_wire_def)
  moreover have "flag_byte ?p (type_byte PUBACK)" using h(3) by (simp add: decoded_def assign_dbuf_def puback_wire_def header_bytes_def)
  moreover have "dbuf ?p = b" by (simp add: decoded_def assign_dbuf_def)
  ultimately show ?thesis using assms by (auto simp: puback_received_def)
qed

lemma encoded_puback:
  assumes "puback_received p i" and "encoded_into (MPuback p) g m' b g'"
  shows "holds_puback b i" and "g' = g"
proof -
  have p: "\<not> dirty p" "sl_len (dbuf p) = length (sl_arr (dbuf p))" "holds_puback (dbuf p) i"
    using assms(1) by (auto simp: puback_received_def whole_def)
  obtain b0 k where e: "whole b0" "go_len (dbuf p) \<le> go_len b0" "message_Encode (MPuback p) b0 g = Some ((m', b, k, None), g')"
    using assms(2) p(1) by (auto simp: encoded_into_def puback_Len_def packet_Len_def)
  have "b = fill b0 (slice_bytes (dbuf p))" "g' = g"
    using e p by (auto simp: puback_Encode_def encode_clean_def slice_copy_fit go_len_def slice_bytes_def split: if_splits)
  with p show "holds_puback b i" "g' = g" by (auto simp: holds_puback_def slice_bytes_def)
qed

lemma decode_entry:
  assumes "pub_entry w s a"
  shows "\<exists>m k. message_Decode (MPublish NewPublishMessage) (Msgbuf a) = Some (MPublish m, k, None)"
proof -
  obtain pm rest where pm: "message_ok (MPublish pm)" "sl_arr (Msgbuf a) = message_wire (MPublish pm) @ rest" "whole (Msgbuf a)"
    using assms by (auto simp: pub_entry_def)
  let ?b = "mtypeflags_bytes pm ! 0"
  have t: "drop_bit 4 (type_byte PUBLISH) = drop_bit 4 ?b"
    using pm(1) type_byte_type [of PUBLISH] by (simp add: MessageType_Valid_iff)
  have "publish_Decode NewPublishMessage (Msgbuf a) = Some (publish_received ?b pm NewPublishMessage (Msgbuf a), int (length (publish_wire ?b pm)), None)"
    by (rule publish_Decode_ok [OF _ New_flag_byte(3) t]) (use pm whole_wf [OF pm(3)] in \<open>simp_all add: whole_def\<close>)
  then show ?thesis by simp
qed

end
