(* ===== verification/Broker_Acked.thy ===== *)
theory Broker_Acked
  imports Broker_Push
begin

text \<open>
  What the PUBACK of a device does: it marks the message with its identifier, and the messages at the head of the queue
  that are marked leave it, each with a call of \<open>onComplete\<close> that stops its timer.
\<close>

section \<open>One acknowledged message\<close>

lemma pool_ok_Put: "pool_ok bp \<Longrightarrow> whole b \<Longrightarrow> pool_ok (BytesPool_Put bp b)"
  by (auto simp: pool_ok_def BytesPool_Put_def go_cap_def whole_def)

lemma puback_type: "puback_received p i \<Longrightarrow> message_Type (MPuback p) = PUBACK \<and> message_PacketId (MPuback p) = i"
  by (simp add: puback_received_def message_Type_def message_PacketId_def Type_flag_byte type_byte_type MessageType_Valid_iff)

abbreviation stop_timer :: "uint16 \<Rightarrow> service \<Rightarrow> service" where
  "stop_timer i v \<equiv> v\<lparr>Timers := (Timers v)(i := None)\<rparr>"

definition timer_calls :: "service \<Rightarrow> uint16 \<Rightarrow> tw_call list" where
  "timer_calls v i = (case Timers v i of Some t \<Rightarrow> [TwRemove t] | None \<Rightarrow> [])"

lemma onComplete_puback:
  assumes "puback_received p i" and "s < length (services w)"
  shows "service_onComplete s m (Some (MPuback p)) e w =
    (Done None, w\<lparr>tw_calls := tw_calls w @ timer_calls (services w ! s) i,
                  services := (services w)[s := stop_timer i (services w ! s)]\<rparr>)"
proof (cases "Timers (services w ! s) i")
  case None
  then have "stop_timer i (services w ! s) = services w ! s" by (simp add: fun_upd_idem)
  with None assms(2) puback_type [OF assms(1)] show ?thesis
    by (simp add: service_onComplete_def timer_calls_def get_svc_def act_simps)
next
  case (Some t)
  with assms(2) puback_type [OF assms(1)] show ?thesis
    by (simp add: service_onComplete_def timer_calls_def get_svc_def upd_svc_def act_simps)
qed

lemma acked_one_ok:
  assumes "live w s c ms" and "pub_entry w s a" and "State a = PUBACK"
  shows "\<exists>w'. acked_one s QPub1ack a w = (Done (), w') \<and> live w' s c ms
     \<and> services w' = (services w)[s := stop_timer (Pktid a) (services w ! s)]
     \<and> tw_calls w' = tw_calls w @ timer_calls (services w ! s) (Pktid a)
     \<and> conns w' = conns w \<and> callbacks w' = callbacks w \<and> server w' = server w \<and> MsgChan w' = MsgChan w"
proof -
  obtain ss q where q: "ready w s c" "\<not> closeLock (services w ! s)" "pm_New (svc_pm (services w ! s))" "session_of w s ss"
      "Pub1ack ss = Some q" "pub_queue w s q ms" using assms(1) by (auto simp: live_def)
  have s: "s < length (services w)" using q(1) by (simp add: ready_def)
  obtain i where a: "Mtype a = PUBLISH" "whole (Msgbuf a)" "whole (Ackbuf a)" "holds_puback (Ackbuf a) (Pktid a)" "OnComplete a = Some i"
      "i < length (callbacks w)" "callbacks w ! i = ServiceOnComplete s"
    using assms(2,3) by (auto simp: pub_entry_def)
  obtain m k where m: "message_Decode (MPublish NewPublishMessage) (Msgbuf a) = Some (MPublish m, k, None)"
    using decode_entry [OF assms(2)] by blast
  obtain p j where p: "message_Decode (MPuback NewPubackMessage) (Ackbuf a) = Some (MPuback p, j, None)" "puback_received p (Pktid a)"
    using decode_puback [OF a(3,4)] by blast
  let ?w1 = "w\<lparr>tw_calls := tw_calls w @ timer_calls (services w ! s) (Pktid a), services := (services w)[s := stop_timer (Pktid a) (services w ! s)]\<rparr>"
  have cb: "complete_callback a (MPublish m) (MPuback p) w = (Done (), ?w1)"
    using a(5-7) onComplete_puback [OF p(2) s] by (simp add: complete_callback_def get_callback_def act_simps)
  let ?q = "q\<lparr>pool := BytesPool_Put (BytesPool_Put (pool q) (Ackbuf a)) (Msgbuf a)\<rparr>"
  let ?w2 = "put_session s (ss\<lparr>Pub1ack := Some ?q\<rparr>) ?w1"
  have so: "session_of ?w1 s ss" using q(4) s by (auto simp: session_of_def)
  have put: "on_queue s QPub1ack (\<lambda>q g. Some (((), q\<lparr>pool := BytesPool_Put (BytesPool_Put (pool q) (Ackbuf a)) (Msgbuf a)\<rparr>), g)) ?w1 = (Done (), ?w2)"
    using on_queue_ok [OF so, of QPub1ack q _ "()" ?q "gPacketId ?w1"] q(5) by simp
  have "acked_one s QPub1ack a w = (Done (), ?w2)"
    using a(1) assms(3) m p(1) cb put by (simp add: acked_one_def message_New_def act_simps del: message_Decode.simps)
  moreover have "live ?w2 s c ms"
  proof -
    have "pub_queue w s ?q ms" using q(6) a(2,3) by (simp add: pub_queue_def pool_ok_Put)
    then have "pub_queue ?w2 s ?q ms" by (rule pub_queue_callbacks) simp
    moreover have "session_of ?w2 s (ss\<lparr>Pub1ack := Some ?q\<rparr>)" using so by (rule session_of_put)
    ultimately show ?thesis using q(1-3) s by (auto simp: live_def ready_def)
  qed
  ultimately show ?thesis by (intro exI [of _ ?w2]) simp
qed

section \<open>The loop\<close>

text \<open>The service without the timers of some identifiers, and the calls that stop them.\<close>

fun stop_timers :: "uint16 list \<Rightarrow> service \<Rightarrow> service" where
  "stop_timers [] v = v"
| "stop_timers (i # is) v = stop_timers is (stop_timer i v)"

fun timers_calls :: "uint16 list \<Rightarrow> service \<Rightarrow> tw_call list" where
  "timers_calls [] v = []"
| "timers_calls (i # is) v = timer_calls v i @ timers_calls is (stop_timer i v)"

lemma stop_timers_Timers: "Timers (stop_timers is v) = (\<lambda>i. if i \<in> set is then None else Timers v i)"
  by (induction "is" v rule: stop_timers.induct) (auto simp: fun_eq_iff)

lemma acked_each_ok:
  "live w s c ms \<Longrightarrow> \<forall>a \<in> set ds. pub_entry w s a \<and> State a = PUBACK \<Longrightarrow>
   \<exists>w'. each (acked_one s QPub1ack) ds w = (Done (), w') \<and> live w' s c ms
     \<and> services w' = (services w)[s := stop_timers (map Pktid ds) (services w ! s)]
     \<and> tw_calls w' = tw_calls w @ timers_calls (map Pktid ds) (services w ! s)
     \<and> conns w' = conns w \<and> server w' = server w \<and> MsgChan w' = MsgChan w"
proof (induction ds arbitrary: w)
  case Nil
  then show ?case by (simp add: act_simps)
next
  case (Cons a ds)
  obtain w1 where 1: "acked_one s QPub1ack a w = (Done (), w1)" "live w1 s c ms"
     "services w1 = (services w)[s := stop_timer (Pktid a) (services w ! s)]"
     "tw_calls w1 = tw_calls w @ timer_calls (services w ! s) (Pktid a)"
     "conns w1 = conns w" "callbacks w1 = callbacks w" "server w1 = server w" "MsgChan w1 = MsgChan w"
    using acked_one_ok [OF Cons.prems(1), of a] Cons.prems(2) by auto
  have s: "s < length (services w)" using Cons.prems(1) by (simp add: live_def ready_def)
  have "\<forall>d \<in> set ds. pub_entry w1 s d \<and> State d = PUBACK"
    using Cons.prems(2) 1(6) by (auto intro: pub_entry_callbacks)
  from Cons.IH [OF 1(2) this] obtain w2 where "each (acked_one s QPub1ack) ds w1 = (Done (), w2)" "live w2 s c ms"
     "services w2 = (services w1)[s := stop_timers (map Pktid ds) (services w1 ! s)]"
     "tw_calls w2 = tw_calls w1 @ timers_calls (map Pktid ds) (services w1 ! s)"
     "conns w2 = conns w1" "server w2 = server w1" "MsgChan w2 = MsgChan w1" by blast
  with 1 s show ?case by (auto simp: act_simps)
qed

text \<open>The messages of the queue once a PUBACK, which is kept in \<open>b\<close>, has arrived.\<close>

definition marked :: "uint16 \<Rightarrow> gslice \<Rightarrow> ackmsg list \<Rightarrow> ackmsg list" where
  "marked i b = map (\<lambda>a. if Pktid a = i then a\<lparr>State := PUBACK, Ackbuf := b\<rparr> else a)"

lemma Ack_puback:
  assumes "pub_queue w s q ms" and "puback_received p i"
  shows "\<exists>q' m' b. Ack q (MPuback p) g = Some ((q', m', None), g) \<and> pub_queue w s q' (marked i b ms)"
proof -
  have q: "queue_of q ms" "pool_ok (pool q)" "\<forall>a \<in> set ms. pub_entry w s a" and d: "distinct (map Pktid ms)"
    using assms(1) by (auto simp: pub_queue_def queue_of_def)
  have fit: "fits (MPuback p)" by (rule fits_clean) (use assms(2) whole_wf in \<open>auto simp: puback_received_def\<close>)
  note t = puback_type [OF assms(2)]
  show ?thesis
  proof (cases "i \<in> Pktid ` set ms")
    case False
    then have "marked i b ms = ms" for b unfolding marked_def by (intro map_idI) auto
    moreover have "emap q i = None" using False emap_None [OF q(1)] by blast
    then have "Ack q (MPuback p) g = Some ((q, MPuback p, None), g)" using t by (simp add: Ack_def Let_def)
    ultimately show ?thesis using assms(1) by metis
  next
    case True
    then obtain k where k: "k < length ms" "Pktid (ms ! k) = i" by (metis imageE in_set_conv_nth)
    obtain q' m' g' b where a: "Ack q (MPuback p) g = Some ((q', m', None), g')" "whole b" "encoded_into (MPuback p) g m' b g'"
        "queue_of q' (ms[k := (ms ! k)\<lparr>State := PUBACK, Ackbuf := b\<rparr>])" "pool_ok (pool q')" "ping q' = ping q"
      using Ack_ok [OF q(1,2) fit, of k g] k t by auto
    have "ms[k := (ms ! k)\<lparr>State := PUBACK, Ackbuf := b\<rparr>] = marked i b ms"
      unfolding marked_def using k nth_eq_iff_index_eq [OF d]
      by (intro nth_equalityI) (auto simp: nth_list_update)
    moreover have "pub_entry w s (a\<lparr>State := PUBACK, Ackbuf := b\<rparr>)" if "pub_entry w s a" "Pktid a = i" for a
      using that a(2) encoded_puback(1) [OF assms(2) a(3)] by (simp add: pub_entry_def)
    then have "\<forall>a \<in> set (marked i b ms). pub_entry w s a" using q(3) by (auto simp: marked_def)
    ultimately show ?thesis using a encoded_puback(2) [OF assms(2) a(3)] assms(1) by (auto simp: pub_queue_def)
  qed
qed

lemma Acked_pub:
  assumes "pub_queue w s q ms"
  shows "\<exists>q'. Acked q = Some q' \<and> pub_queue w s q' (dropWhile complete ms) \<and> ackdone q' = takeWhile complete ms"
proof -
  have q: "queue_of q ms" "pool_ok (pool q)" "\<forall>a \<in> set ms. pub_entry w s a" and p: "\<exists>p. ping q = Some p \<and> State p \<noteq> PINGRESP"
    using assms by (auto simp: pub_queue_def)
  have "queue_of (q\<lparr>ackdone := []\<rparr>) ms" using q(1) by simp
  from acked_loop_ok [OF this] obtain q' where q': "acked_loop (q\<lparr>ackdone := []\<rparr>) = Some q'"
    "queue_of q' (dropWhile complete ms)" "ackdone q' = takeWhile complete ms" "pool q' = pool q" "ping q' = ping q" by auto
  moreover have "Acked q = Some q'" using p q'(1) by (auto simp: Acked_def Let_def)
  moreover have "\<forall>a \<in> set (dropWhile complete ms). pub_entry w s a" using q(3) set_dropWhileD by fast
  ultimately show ?thesis using q(2) p by (auto simp: pub_queue_def)
qed

section \<open>The PUBACK of a device\<close>

lemma live_put_queue:
  assumes "live w s c ms" and "session_of w s ss" and "pub_queue w s q ms'"
  shows "live (put_session s (ss\<lparr>Pub1ack := Some q\<rparr>) w) s c ms'"
proof -
  let ?w = "put_session s (ss\<lparr>Pub1ack := Some q\<rparr>) w"
  have "session_of ?w s (ss\<lparr>Pub1ack := Some q\<rparr>)" using assms(2) by (rule session_of_put)
  moreover have "pub_queue ?w s q ms'" using assms(3) by (rule pub_queue_callbacks) simp
  ultimately show ?thesis using assms(1) by (auto simp: live_def ready_def)
qed

lemma processPuback_ok:
  assumes "live w s c ms" and "puback_received p i"
  shows "\<exists>w' b. processIncoming s (MPuback p) w = (Done None, w') \<and> live w' s c (dropWhile complete (marked i b ms))
     \<and> services w' = (services w)[s := stop_timers (map Pktid (takeWhile complete (marked i b ms))) (services w ! s)]
     \<and> tw_calls w' = tw_calls w @ timers_calls (map Pktid (takeWhile complete (marked i b ms))) (services w ! s)
     \<and> conns w' = conns w \<and> server w' = server w \<and> MsgChan w' = MsgChan w"
proof -
  obtain ss q where q: "session_of w s ss" "Pub1ack ss = Some q" "pub_queue w s q ms" using assms(1) by (auto simp: live_def)
  obtain q1 m' b where 1: "Ack q (MPuback p) (gPacketId w) = Some ((q1, m', None), gPacketId w)" "pub_queue w s q1 (marked i b ms)"
    using Ack_puback [OF q(3) assms(2)] by blast
  let ?ms = "marked i b ms"
  let ?ss1 = "ss\<lparr>Pub1ack := Some q1\<rparr>"
  let ?w1 = "put_session s ?ss1 w"
  have a1: "queue_Ack s QPub1ack (MPuback p) w = (Done None, ?w1)"
    using on_queue_ok [OF q(1), of QPub1ack q "\<lambda>q g. map_option (\<lambda>((q, m, e), g). ((e, q), g)) (Ack q (MPuback p) g)" None q1 "gPacketId w"]
      q(2) 1(1) by (simp add: queue_Ack_def)
  have l1: "live ?w1 s c ?ms" by (rule live_put_queue [OF assms(1) q(1) 1(2)])
  have s1: "session_of ?w1 s ?ss1" using q(1) by (rule session_of_put)
  have p1: "pub_queue ?w1 s q1 ?ms" using 1(2) by (rule pub_queue_callbacks) simp
  obtain q2 where 2: "Acked q1 = Some q2" "pub_queue ?w1 s q2 (dropWhile complete ?ms)" "ackdone q2 = takeWhile complete ?ms"
    using Acked_pub [OF p1] by blast
  let ?w2 = "put_session s (?ss1\<lparr>Pub1ack := Some q2\<rparr>) ?w1"
  have l2: "live ?w2 s c (dropWhile complete ?ms)" by (rule live_put_queue [OF l1 s1 2(2)])
  have a2: "on_queue s QPub1ack (\<lambda>q g. map_option (\<lambda>q. ((ackdone q, q), g)) (Acked q)) ?w1 = (Done (takeWhile complete ?ms), ?w2)"
    using on_queue_ok [OF s1, of QPub1ack q1 "\<lambda>q g. map_option (\<lambda>q. ((ackdone q, q), g)) (Acked q)" "takeWhile complete ?ms" q2 "gPacketId ?w1"]
      2(1,3) by (simp del: put_session_fields)
  have "State a = PUBACK" if "complete a" "pub_entry w s a" for a
    using that by (auto simp: pub_entry_def ack_complete_def)
  then have "\<forall>a \<in> set (takeWhile complete ?ms). pub_entry ?w2 s a \<and> State a = PUBACK"
    using 1(2) set_takeWhileD by (fastforce simp: pub_queue_def intro: pub_entry_callbacks)
  from acked_each_ok [OF l2 this] obtain w' where w': "each (acked_one s QPub1ack) (takeWhile complete ?ms) ?w2 = (Done (), w')"
     "live w' s c (dropWhile complete ?ms)"
     "services w' = (services w)[s := stop_timers (map Pktid (takeWhile complete ?ms)) (services w ! s)]"
     "tw_calls w' = tw_calls w @ timers_calls (map Pktid (takeWhile complete ?ms)) (services w ! s)"
     "conns w' = conns w" "server w' = server w" "MsgChan w' = MsgChan w" by auto
  have "processIncoming s (MPuback p) w = (Done None, w')"
    using a1 a2 w'(1) by (simp add: processIncoming_def processAcked_def act_simps)
  with w' show ?thesis by blast
qed

text \<open>The bytes of a PUBACK are received as such.\<close>

lemma puback_arrives:
  assumes "packet_bytes ws (PAck PUBACK i)"
  shows "\<exists>p k. framed PUBACK ws \<and> message_New PUBACK = Inr (MPuback NewPubackMessage)
           \<and> message_Decode (MPuback NewPubackMessage) (slice_of ws) = Some (MPuback p, k, None) \<and> puback_received p i"
proof -
  obtain m where m: "message_ok m" "content m = PAck PUBACK i" "ws = message_wire m" using assms by (auto simp: packet_bytes_def)
  then obtain h where h: "m = MPuback h" "PacketId h = i" by (cases m) simp_all
  have "holds_puback (slice_of ws) i" using m h by (auto simp: holds_puback_def)
  from decode_puback [OF _ this] have "\<exists>p k. message_Decode (MPuback NewPubackMessage) (slice_of ws) = Some (MPuback p, k, None) \<and> puback_received p i"
    by simp
  moreover have "framed PUBACK ws" using mq.wire_law [OF m(1)] m(3) h(1) by (auto simp: framed_def)
  ultimately show ?thesis by (simp add: message_New_def)
qed

lemma publish_arrives:
  assumes "packet_bytes ws (PPublish b i t pl)"
  shows "\<exists>m k. framed PUBLISH ws \<and> message_New PUBLISH = Inr (MPublish NewPublishMessage)
           \<and> message_Decode (MPublish NewPublishMessage) (slice_of ws) = Some (MPublish m, k, None)
           \<and> flag_byte m b \<and> topic m = t \<and> payload m = pl \<and> (qos_of b \<noteq> 0 \<longrightarrow> i = Some (PacketId m)) \<and> ValidTopic t"
proof -
  obtain m0 where m0: "message_ok m0" "content m0 = PPublish b i t pl" "ws = message_wire m0" using assms by (auto simp: packet_bytes_def)
  then obtain x where x: "m0 = MPublish x" by (cases m0) simp_all
  have f: "mtypeflags_bytes x ! 0 = b" "topic x = t" "payload x = pl" "i = (if qos_of b \<noteq> 0 then Some (PacketId x) else None)"
    using m0(2) x by auto
  let ?src = "slice_of (publish_wire b x)"
  have ty: "drop_bit 4 (type_byte PUBLISH) = drop_bit 4 b"
    using m0(1) x f(1) type_byte_type [of PUBLISH] by (simp add: MessageType_Valid_iff)
  have "publish_Decode NewPublishMessage ?src = Some (publish_received b x NewPublishMessage ?src, int (length (publish_wire b x)), None)"
    by (rule publish_Decode_ok [OF _ New_flag_byte(3) ty, where rest = "[]"]) (use m0(1) x f(1) in simp_all)
  moreover have "framed PUBLISH ws" using mq.wire_law [OF m0(1)] m0(3) x by (auto simp: framed_def)
  moreover have "ws = publish_wire b x" using m0(3) x f(1) by simp
  ultimately show ?thesis
    using publish_received_fields [of ?src b x "[]" NewPublishMessage] f m0(1) x
    by (intro exI [of _ "publish_received b x NewPublishMessage ?src"]) (auto simp: message_New_def)
qed

end
