(* ===== verification/Session_Props.thy ===== *)
theory Session_Props
  imports Session
begin

text \<open>
  What sessions promise: \<open>Init\<close> keeps a faithful copy of the CONNECT message and sets up the will, the topics of
  a session form a map, and the provider is a table of sessions by client identifier (locale
  \<open>session_table\<close>, kept by the provider in memory and by the manager).
\<close>

section \<open>Initialisation\<close>

text \<open>\<open>m\<close> is encoded as the CONNECT packet \<open>w\<close>.\<close>

definition carries :: "ConnectMessage \<Rightarrow> ConnectMessage \<Rightarrow> bool" where
  "carries m w \<longleftrightarrow>
     message_ok (MConnect w)
     \<and> (\<exists>m1 m2 k. connect_Len m = (int (length (message_wire (MConnect w))), m1)
          \<and> connect_Encode m1 (make_bytes (int (length (message_wire (MConnect w))))) =
              Some (m2, slice_of (message_wire (MConnect w)), k, None)
          \<and> clientId m2 = clientId w)"

lemma carries_good:
  assumes "message_good (MConnect m)"
  shows "\<exists>w. carries m w \<and> content (MConnect w) = content (MConnect m)"
proof -
  obtain n m1 where 1: "message_Len (MConnect m) = Some (n, m1)" using mq.len_law [OF assms] by blast
  then obtain c1 where c1: "m1 = MConnect c1" "connect_Len m = (n, c1)" by (cases "connect_Len m") auto
  obtain m2 where 2: "message_Encode m1 (make_bytes n) 0 = Some ((m2, slice_of (message_wire m2), n, None), snd (sent (MConnect m) 0))"
    "message_ok m2" "content m2 = fst (sent (MConnect m) 0)" "kind m2 = kind (MConnect m)" "n = int (length (message_wire m2))"
    using mq.enc_law [OF assms 1, of 0] by blast
  obtain c2 where c2: "m2 = MConnect c2" using 2(4) by (cases m2) simp_all
  have "carries m c2" unfolding carries_def
    using 2(1,2,5) c1 c2 by (auto simp del: message_wire.simps message_ok.simps)
  moreover have "content (MConnect c2) = content (MConnect m)" using 2(3) c2 by (simp add: sent_def)
  ultimately show ?thesis by blast
qed

lemma carries_received:
  assumes "\<not> dirty m" and "dbuf m = slice_of (message_wire (MConnect w))" and "message_ok (MConnect w)"
    and "clientId m = clientId w"
  shows "carries m w"
proof -
  let ?w = "message_wire (MConnect w)"
  have "connect_Encode m (make_bytes (int (length ?w))) = Some (m, slice_of ?w, int (length ?w), None)"
    using assms slice_copy_fit [of ?w "make_bytes (int (length ?w))"] fill_make_bytes [of "int (length ?w)" ?w]
    by (simp add: connect_Encode_def encode_clean_def go_len_def del: message_wire.simps)
  moreover have "connect_Len m = (int (length ?w), m)" using assms by (simp add: connect_Len_def packet_Len_def del: message_wire.simps)
  ultimately show ?thesis unfolding carries_def using assms(3,4) by blast
qed

lemma copy_connect_ok:
  assumes "carries m w"
  shows "\<exists>m' c. copy_connect s m = Some (s\<lparr>cbuf := slice_of (message_wire (MConnect w)), Cmsg := Some c\<rparr>, m', None)
           \<and> content (MConnect c) = content (MConnect w) \<and> clientId m' = clientId w"
proof -
  obtain m1 m2 k where ok: "message_ok (MConnect w)" and
    m: "connect_Len m = (int (length (message_wire (MConnect w))), m1)"
      "connect_Encode m1 (make_bytes (int (length (message_wire (MConnect w))))) =
         Some (m2, slice_of (message_wire (MConnect w)), k, None)" "clientId m2 = clientId w"
    using assms unfolding carries_def by blast
  have new: "message_New (kind (MConnect w)) = Inr (MConnect NewConnectMessage)" by (simp add: message_New_def)
  obtain m' j where d: "message_Decode (MConnect NewConnectMessage) (slice_of (message_wire (MConnect w))) = Some (m', j, None)"
    "content m' = content (MConnect w)" using mq.dec_law [OF ok new] by blast
  then obtain c where c: "m' = MConnect c" "connect_Decode NewConnectMessage (slice_of (message_wire (MConnect w))) = Some (c, j, None)"
    by (auto simp del: message_wire.simps)
  have "copy_connect s m = Some (s\<lparr>cbuf := slice_of (message_wire (MConnect w)), Cmsg := Some c\<rparr>, m2, None)"
    using m c(2) by (simp add: copy_connect_def del: message_wire.simps)
  then show ?thesis using d(2) c(1) m(3) by blast
qed

text \<open>The will as the CONNECT message describes it.\<close>

lemma will_of_ok:
  assumes "WillQos c \<in> {0, 1, 2}" and "ValidTopic (willTopic c)"
  shows "\<exists>w. will_of c = Some w \<and> topic w = willTopic c \<and> payload w = willMessage c
           \<and> QoS w = Some (WillQos c) \<and> Retain w = Some (WillRetain c) \<and> Dup w = Some False"
  using assms
  by (cases "WillRetain c")
     (auto simp: will_of_def SetQoS_def SetTopic_def SetPayload_def SetRetain_def update_flag_byte_def NewPublishMessage_def
      SetType_def header0_def write_mtypeflags_def ensure_mtypeflags_def type_byte_def DefaultFlags_def
      MessageType_Valid_iff QoS_def Retain_def Dup_def Flags_def header.defs Let_def)

lemma byte_le_2: "q \<le> 2 \<Longrightarrow> q \<in> {0, 1, 2}" for q :: byte
  by (simp, unat_arith)

text \<open>Messages with the same content have the same flags and, where the flags say so, the same fields.\<close>

lemma content_connect:
  assumes "content (MConnect c) = content (MConnect w)"
  shows "clientId c = clientId w" "WillFlag c = WillFlag w" "WillQos c = WillQos w" "WillRetain c = WillRetain w"
    and "WillFlag w \<Longrightarrow> willTopic c = willTopic w \<and> willMessage c = willMessage w"
proof -
  have f: "connectFlags c = connectFlags w" using assms by simp
  then show flags: "WillFlag c = WillFlag w" "WillQos c = WillQos w" "WillRetain c = WillRetain w"
    by (simp_all add: WillFlag_def WillQos_def WillRetain_def)
  show "clientId c = clientId w" using assms by simp
  show "WillFlag w \<Longrightarrow> willTopic c = willTopic w \<and> willMessage c = willMessage w" using assms flags by simp
qed

definition idle :: "Ackqueue \<Rightarrow> bool" where
  "idle q \<longleftrightarrow> queue_of q [] \<and> \<not> Done_closed q"

lemma new_session_queue: "\<exists>q. newAckqueue defaultQueueSize t ks = Some q \<and> idle q"
proof -
  have "powerOfTwo64 16" by code_simp
  then obtain q where q: "newAckqueue 16 t ks = Some q" by (simp add: newAckqueue_def Let_def)
  then have "\<not> Done_closed q" by (auto simp: newAckqueue_def Let_def split: if_splits)
  then show ?thesis using q queue_of_new(1) [OF q] by (simp add: idle_def)
qed

definition queues_empty :: "Session \<Rightarrow> bool" where
  "queues_empty s \<longleftrightarrow>
     (\<forall>q \<in> {Pub1ack s, Pub2in s, Pub2out s, Suback_queue s, Unsuback_queue s, Pingack s}. \<exists>a. q = Some a \<and> idle a)"

lemma Session_Init_ok:
  assumes c: "carries m w" and i: "\<not> initted s" and t: "WillFlag w \<longrightarrow> ValidTopic (willTopic w)"
  shows "\<exists>s' m' c. Session_Init s m ks = Some (s', m', None) \<and> initted s' \<and> Cmsg s' = Some c
           \<and> content (MConnect c) = content (MConnect w) \<and> session_id s' = clientId w \<and> session_topics s' = Some []
           \<and> queues_empty s'
           \<and> (if WillFlag w
               then \<exists>p. Will s' = Some p \<and> topic p = willTopic w \<and> payload p = willMessage w
                      \<and> QoS p = Some (WillQos w) \<and> Retain p = Some (WillRetain w)
               else Will s' = Will s)"
proof -
  obtain m' c where cc: "copy_connect s m = Some (s\<lparr>cbuf := slice_of (message_wire (MConnect w)), Cmsg := Some c\<rparr>, m', None)"
      "content (MConnect c) = content (MConnect w)" "clientId m' = clientId w"
    using copy_connect_ok [OF c] by blast
  note f = content_connect [OF cc(2)]
  let ?s = "s\<lparr>cbuf := slice_of (message_wire (MConnect w)), Cmsg := Some c\<rparr>"
  have "\<exists>p. (if WillFlag c then do { w \<leftarrow> will_of c; Some (?s\<lparr>Will := Some w\<rparr>) } else Some ?s) = Some (?s\<lparr>Will := p\<rparr>)
      \<and> (if WillFlag w
          then \<exists>q. p = Some q \<and> topic q = willTopic w \<and> payload q = willMessage w
                 \<and> QoS q = Some (WillQos w) \<and> Retain q = Some (WillRetain w)
          else p = Will s)"
  proof (cases "WillFlag w")
    case True
    have "connect_ok w" using c by (simp add: carries_def)
    then have "\<not> QosExactlyOnce < WillQos w" by (auto simp: connect_ok_def check_connect_flags_def split: if_splits)
    then have "WillQos c \<in> {0, 1, 2}" using byte_le_2 [of "WillQos w"] f(3) by (simp add: not_less)
    from will_of_ok [OF this] True t f show ?thesis by auto
  qed (use f in simp)
  then obtain p where p: "(if WillFlag c then do { w \<leftarrow> will_of c; Some (?s\<lparr>Will := Some w\<rparr>) } else Some ?s) = Some (?s\<lparr>Will := p\<rparr>)"
      "if WillFlag w then \<exists>q. p = Some q \<and> topic q = willTopic w \<and> payload q = willMessage w
         \<and> QoS q = Some (WillQos w) \<and> Retain q = Some (WillRetain w) else p = Will s" by blast
  obtain q1 q2 q3 q4 q5 q6 where q: "newAckqueue defaultQueueSize ''Pub1ack'' ks = Some q1"
      "newAckqueue defaultQueueSize ''Pub2in'' [] = Some q2" "newAckqueue defaultQueueSize ''Pub2out'' [] = Some q3"
      "newAckqueue defaultQueueSize ''Suback'' [] = Some q4" "newAckqueue defaultQueueSize ''Unsuback'' [] = Some q5"
      "newAckqueue defaultQueueSize ''Pingack'' [] = Some q6"
      "idle q1" "idle q2" "idle q3" "idle q4" "idle q5" "idle q6"
    using new_session_queue by metis
  let ?s' = "?s\<lparr>Will := p, session_topics := Some [], session_id := clientId m', Pub1ack := Some q1, Pub2in := Some q2,
      Pub2out := Some q3, Suback_queue := Some q4, Unsuback_queue := Some q5, Pingack := Some q6, initted := True\<rparr>"
  have "Session_Init s m ks = Some (?s', m', None)"
    using i cc(1) p(1) q by (simp add: Session_Init_def del: message_wire.simps)
  moreover have "queues_empty ?s'" using q by (simp add: queues_empty_def)
  ultimately show ?thesis using cc(2,3) p(2)
    by (intro exI [of _ ?s'] exI [of _ m'] exI [of _ c]) (simp del: content.simps message_wire.simps)
qed

lemma Session_Stop_ok: "queues_empty s \<Longrightarrow> \<exists>s'. Session_Stop s = Some s'"
  by (auto simp: queues_empty_def idle_def Session_Stop_def aq_Stop_def)

section \<open>The topics of a session\<close>

definition topics_of :: "Session \<Rightarrow> string \<Rightarrow> byte option" where
  "topics_of s = (case session_topics s of Some ts \<Rightarrow> map_of ts | None \<Rightarrow> (\<lambda>_. None))"

definition session_ok :: "Session \<Rightarrow> bool" where
  "session_ok s \<longleftrightarrow> initted s \<and> (\<exists>ts. session_topics s = Some ts \<and> distinct (map fst ts))"

lemma AddTopic_ok:
  assumes "session_ok s"
  shows "\<exists>s'. Session_AddTopic s t q = Some (s', None) \<and> session_ok s' \<and> topics_of s' = (topics_of s)(t \<mapsto> q)"
  using assms by (auto simp: session_ok_def Session_AddTopic_def topics_of_def distinct_update update_conv')

lemma RemoveTopic_ok:
  assumes "session_ok s"
  shows "\<exists>s'. Session_RemoveTopic s t = (s', None) \<and> session_ok s' \<and> topics_of s' = (topics_of s)(t := None)"
  using assms
  by (auto simp: session_ok_def Session_RemoveTopic_def topics_of_def delete_conv' distinct_delete)

lemma Topics_ok:
  assumes "session_ok s"
  shows "\<exists>ts qs. Session_Topics s = (ts, qs, None) \<and> distinct ts \<and> length qs = length ts
           \<and> (\<forall>t q. topics_of s t = Some q \<longleftrightarrow> (t, q) \<in> set (zip ts qs))"
proof -
  obtain al where al: "session_topics s = Some al" "distinct (map fst al)" "initted s" using assms by (auto simp: session_ok_def)
  then show ?thesis
    by (simp add: Session_Topics_def Let_def topics_of_def zip_map_fst_snd map_of_eq_Some_iff)
qed

section \<open>The table of sessions\<close>

locale session_table =
  fixes inv :: "'t \<Rightarrow> bool"
    and look :: "'t \<Rightarrow> bytes \<Rightarrow> nat option"
    and fresh :: "'t \<Rightarrow> nat"
    and new :: "'t \<Rightarrow> bytes \<Rightarrow> ('t \<times> nat \<times> error option) option"
    and get :: "'t \<Rightarrow> bytes \<Rightarrow> (nat option \<times> error option) option"
    and del :: "'t \<Rightarrow> bytes \<Rightarrow> 't option"
    and cnt :: "'t \<Rightarrow> int option"
  assumes new_law: "inv t \<Longrightarrow> sid \<noteq> [] \<Longrightarrow>
      \<exists>t'. new t sid = Some (t', fresh t, None) \<and> inv t' \<and> look t' = (look t)(sid \<mapsto> fresh t) \<and> fresh t < fresh t'"
    and get_law: "inv t \<Longrightarrow> \<exists>e. get t sid = Some (look t sid, e) \<and> (e = None \<longleftrightarrow> look t sid \<noteq> None)"
    and del_law: "inv t \<Longrightarrow> \<exists>t'. del t sid = Some t' \<and> inv t' \<and> look t' = (look t)(sid := None) \<and> fresh t' = fresh t"
    and cnt_law: "inv t \<Longrightarrow> cnt t = Some (int (card (dom (look t))))"
    and fresh_law: "inv t \<Longrightarrow> look t sid = Some p \<Longrightarrow> p < fresh t"
    and get_same: "inv t \<Longrightarrow> inv u \<Longrightarrow> look t sid = look u sid \<Longrightarrow> get t sid = get u sid"
begin

text \<open>A new session is found under its identifier, is none of the earlier ones, and is gone after \<open>Del\<close>.\<close>

lemma session_lifecycle:
  assumes "inv t" and "sid \<noteq> []"
  shows "\<exists>t1 t2 p e. new t sid = Some (t1, p, None) \<and> get t1 sid = Some (Some p, None) \<and> (\<forall>i. look t i \<noteq> Some p)
           \<and> (\<forall>i. i \<noteq> sid \<longrightarrow> get t1 i = get t i) \<and> del t1 sid = Some t2 \<and> get t2 sid = Some (None, Some e)
           \<and> cnt t2 = Some (int (card (dom (look t) - {sid}))) \<and> inv t2"
proof -
  obtain t1 where t1: "new t sid = Some (t1, fresh t, None)" "inv t1" "look t1 = (look t)(sid \<mapsto> fresh t)"
    using new_law [OF assms] by blast
  obtain t2 where t2: "del t1 sid = Some t2" "inv t2" "look t2 = (look t1)(sid := None)" using del_law [OF t1(2)] by blast
  have "get t1 sid = Some (Some (fresh t), None)" using get_law [OF t1(2), of sid] t1(3) by auto
  moreover have "get t1 i = get t i" if "i \<noteq> sid" for i
    using get_same [OF t1(2) assms(1), of i] t1(3) that by simp
  moreover obtain e where "get t2 sid = Some (None, Some e)" using get_law [OF t2(2), of sid] t2(3) by auto
  moreover have "look t i \<noteq> Some (fresh t)" for i using fresh_law [OF assms(1), of i] by auto
  moreover have "dom (look t2) = dom (look t) - {sid}" unfolding t2(3) t1(3) by auto
  ultimately show ?thesis using t1(1) t2 cnt_law [OF t2(2)] by auto
qed

end

text \<open>The provider keeps the table, and so does a manager on it.\<close>

definition prov_ok :: "memProvider \<Rightarrow> bool" where
  "prov_ok t \<longleftrightarrow> distinct (map fst (st t)) \<and> (\<forall>kp \<in> set (st t). snd kp < length (sess_store t))"

lemma prov_new:
  assumes "prov_ok t"
  shows "\<exists>t'. memProvider_New t sid = (t', length (sess_store t), None) \<and> prov_ok t'
           \<and> map_of (st t') = (map_of (st t))(sid \<mapsto> length (sess_store t))
           \<and> length (sess_store t) < length (sess_store t') \<and> sess_store t' ! length (sess_store t) = session0 sid"
proof -
  have "snd kp < Suc (length (sess_store t))" if "kp \<in> set (AList.update sid (length (sess_store t)) (st t))" for kp
  proof -
    have "kp = (sid, length (sess_store t)) \<or> kp \<in> set (st t)" using that by (rule set_update_snd)
    then show ?thesis using assms by (auto simp: prov_ok_def less_Suc_eq)
  qed
  with assms show ?thesis by (simp add: memProvider_New_def Let_def prov_ok_def distinct_update update_conv')
qed

lemma prov_del:
  assumes "prov_ok t"
  shows "prov_ok (memProvider_Del t sid)" "map_of (st (memProvider_Del t sid)) = (map_of (st t))(sid := None)"
    "sess_store (memProvider_Del t sid) = sess_store t"
proof -
  have "\<forall>kp \<in> set (AList.delete sid (st t)). snd kp < length (sess_store t)"
    using assms in_set_delete unfolding prov_ok_def by fast
  then show "prov_ok (memProvider_Del t sid)" using assms by (simp add: memProvider_Del_def prov_ok_def distinct_delete)
qed (simp_all add: memProvider_Del_def delete_conv')

lemma prov_count: "prov_ok t \<Longrightarrow> memProvider_Count t = int (card (dom (map_of (st t))))"
  using distinct_card [of "map fst (st t)"] by (simp add: memProvider_Count_def prov_ok_def dom_map_of_conv_image_fst)

interpretation mp: session_table prov_ok "\<lambda>t. map_of (st t)" "\<lambda>t. length (sess_store t)"
  "\<lambda>t sid. Some (memProvider_New t sid)" "\<lambda>t sid. Some (memProvider_Get t sid)"
  "\<lambda>t sid. Some (memProvider_Del t sid)" "\<lambda>t. Some (memProvider_Count t)"
proof unfold_locales
  show "map_of (st t) sid = Some p \<Longrightarrow> p < length (sess_store t)" if "prov_ok t" for t sid p
    using that by (auto simp: prov_ok_def dest!: map_of_SomeD)
  show "\<exists>t'. Some (memProvider_New t sid) = Some (t', length (sess_store t), None) \<and> prov_ok t'
      \<and> map_of (st t') = (map_of (st t))(sid \<mapsto> length (sess_store t)) \<and> length (sess_store t) < length (sess_store t')"
    if "prov_ok t" for t sid using prov_new [OF that, of sid] by auto
  show "\<exists>e. Some (memProvider_Get t sid) = Some (map_of (st t) sid, e) \<and> (e = None \<longleftrightarrow> map_of (st t) sid \<noteq> None)" for t sid
    by (cases "map_of (st t) sid") (simp_all add: memProvider_Get_def)
  show "\<exists>t'. Some (memProvider_Del t sid) = Some t' \<and> prov_ok t' \<and> map_of (st t') = (map_of (st t))(sid := None)
      \<and> length (sess_store t') = length (sess_store t)" if "prov_ok t" for t sid
    using prov_del [OF that, of sid] by auto
  show "Some (memProvider_Count t) = Some (int (card (dom (map_of (st t)))))" if "prov_ok t" for t
    using prov_count [OF that] by simp
  show "Some (memProvider_Get t sid) = Some (memProvider_Get u sid)" if "map_of (st t) sid = map_of (st u) sid" for t u sid
    using that by (simp add: memProvider_Get_def)
qed

definition smgr_ok :: "nat \<Rightarrow> sessions_pkg \<Rightarrow> bool" where
  "smgr_ok p pkg \<longleftrightarrow> p < length (sess_objects pkg) \<and> prov_ok (sess_objects pkg ! p)"

interpretation sm: session_table "smgr_ok p" "\<lambda>pkg. map_of (st (sess_objects pkg ! p))"
  "\<lambda>pkg. length (sess_store (sess_objects pkg ! p))" "\<lambda>pkg sid. sessions_New p pkg sid rnd" "sessions_Get p" "sessions_Del p"
  "sessions_Count p" for p rnd
proof unfold_locales
  fix pkg and sid :: bytes assume a: "smgr_ok p pkg" "sid \<noteq> []"
  then have p: "p < length (sess_objects pkg)" "prov_ok (sess_objects pkg ! p)" by (simp_all add: smgr_ok_def)
  obtain t where "memProvider_New (sess_objects pkg ! p) sid = (t, length (sess_store (sess_objects pkg ! p)), None)" "prov_ok t"
      "map_of (st t) = (map_of (st (sess_objects pkg ! p)))(sid \<mapsto> length (sess_store (sess_objects pkg ! p)))"
      "length (sess_store (sess_objects pkg ! p)) < length (sess_store t)"
    using prov_new [OF p(2), of sid] by blast
  with a p show "\<exists>t'. sessions_New p pkg sid rnd = Some (t', length (sess_store (sess_objects pkg ! p)), None) \<and> smgr_ok p t'
      \<and> map_of (st (sess_objects t' ! p)) = (map_of (st (sess_objects pkg ! p)))(sid \<mapsto> length (sess_store (sess_objects pkg ! p)))
      \<and> length (sess_store (sess_objects pkg ! p)) < length (sess_store (sess_objects t' ! p))"
    by (simp add: sessions_New_def on_sess_provider_def smgr_ok_def Let_def)
next
  fix pkg and sid :: bytes assume "smgr_ok p pkg"
  then have p: "p < length (sess_objects pkg)" "prov_ok (sess_objects pkg ! p)" by (simp_all add: smgr_ok_def)
  show "\<exists>e. sessions_Get p pkg sid = Some (map_of (st (sess_objects pkg ! p)) sid, e)
      \<and> (e = None \<longleftrightarrow> map_of (st (sess_objects pkg ! p)) sid \<noteq> None)"
    using p(1) by (cases "map_of (st (sess_objects pkg ! p)) sid")
       (simp_all add: sessions_Get_def on_sess_provider_def memProvider_Get_def)
  show "\<exists>t'. sessions_Del p pkg sid = Some t' \<and> smgr_ok p t'
      \<and> map_of (st (sess_objects t' ! p)) = (map_of (st (sess_objects pkg ! p)))(sid := None)
      \<and> length (sess_store (sess_objects t' ! p)) = length (sess_store (sess_objects pkg ! p))"
    using p prov_del [OF p(2), of sid] by (simp add: sessions_Del_def on_sess_provider_def smgr_ok_def)
  show "sessions_Count p pkg = Some (int (card (dom (map_of (st (sess_objects pkg ! p))))))"
    using p prov_count [OF p(2)] by (simp add: sessions_Count_def on_sess_provider_def)
next
  fix pkg k and sid :: bytes assume "smgr_ok p pkg" "map_of (st (sess_objects pkg ! p)) sid = Some k"
  then show "k < length (sess_store (sess_objects pkg ! p))" using mp.fresh_law by (simp add: smgr_ok_def)
next
  fix pkg pkg' and sid :: bytes
  assume "smgr_ok p pkg" "smgr_ok p pkg'" "map_of (st (sess_objects pkg ! p)) sid = map_of (st (sess_objects pkg' ! p)) sid"
  then show "sessions_Get p pkg sid = sessions_Get p pkg' sid"
    by (simp add: sessions_Get_def on_sess_provider_def memProvider_Get_def smgr_ok_def)
qed

section \<open>Properties\<close>


text \<open>A CONNECT of the client \<open>c\<close> with a will on the topic \<open>w\<close>, QoS 1.\<close>

definition example_connect :: ConnectMessage where
  "example_connect =
     NewConnectMessage\<lparr>connectFlags := 0x0E, version := 4, keepAlive := 10, clientId := [99], willTopic := [119],
       willMessage := [1], username := [], password := [], dirty := True\<rparr>"

lemma example_connect_good: "message_good (MConnect example_connect)"
proof -
  have v: "validClientId [99]" by code_simp
  have f: "flag_byte example_connect (type_byte CONNECT)"
    by (simp add: example_connect_def New_flag_byte)
  have "connect_ok example_connect"
    using v by (simp add: connect_ok_def check_connect_flags_def example_connect_def connect_flag_defs WillQos_def SupportedVersions_def)
  moreover have "0 \<le> connect_msglen example_connect" "connect_msglen example_connect \<le> maxRemainingLength"
    by (simp_all add: connect_msglen_def example_connect_def connect_flag_defs SupportedVersions_def)
  ultimately show ?thesis using f
    by (simp add: message_good_def sendable_def MessageType_Valid_iff flags_ok_def type_byte_def DefaultFlags_def)
       (simp add: example_connect_def)
qed

lemma example_carries: "\<exists>w. carries example_connect w \<and> (WillFlag w \<longrightarrow> ValidTopic (willTopic w))"
proof -
  obtain w where w: "carries example_connect w" "content (MConnect w) = content (MConnect example_connect)"
    using carries_good [OF example_connect_good] by blast
  have "WillFlag example_connect" "ValidTopic (willTopic example_connect)"
    by (simp_all add: example_connect_def connect_flag_defs ValidTopic_def)
  then show ?thesis using content_connect(2,5) [OF w(2)] w(1) by auto
qed


text \<open>
  The topics of a session form a map: \<open>AddTopic\<close> sets the QoS of one topic, \<open>RemoveTopic\<close> removes one, every
  other topic keeps its QoS, and \<open>Topics\<close> lists every topic once, with its QoS.
\<close>

theorem session_topics_map:
  assumes "session_ok s"
  shows "(\<exists>s'. Session_AddTopic s t q = Some (s', None) \<and> session_ok s' \<and> topics_of s' = (topics_of s)(t \<mapsto> q))
    \<and> (\<exists>s'. Session_RemoveTopic s t = (s', None) \<and> session_ok s' \<and> topics_of s' = (topics_of s)(t := None))
    \<and> (\<exists>ts qs. Session_Topics s = (ts, qs, None) \<and> distinct ts \<and> length qs = length ts
         \<and> (\<forall>u r. topics_of s u = Some r \<longleftrightarrow> (u, r) \<in> set (zip ts qs)))"
  using AddTopic_ok [OF assms] RemoveTopic_ok [OF assms] Topics_ok [OF assms] by blast

definition one_topic :: Session where
  "one_topic = (session0 [99])\<lparr>initted := True, session_topics := Some [(''a'', 1)]\<rparr>"

theorem session_topics_map_witness:
  "(\<exists>s'. Session_AddTopic one_topic ''b'' 2 = Some (s', None) \<and> session_ok s' \<and> topics_of s' = (topics_of one_topic)(''b'' \<mapsto> 2))
   \<and> (\<exists>s'. Session_RemoveTopic one_topic ''b'' = (s', None) \<and> session_ok s' \<and> topics_of s' = (topics_of one_topic)(''b'' := None))
   \<and> (\<exists>ts qs. Session_Topics one_topic = (ts, qs, None) \<and> distinct ts \<and> length qs = length ts
        \<and> (\<forall>u r. topics_of one_topic u = Some r \<longleftrightarrow> (u, r) \<in> set (zip ts qs)))"
  by (rule session_topics_map) (simp add: one_topic_def session_ok_def)

text \<open>
  C34: the life of a session in the table, through a manager: \<open>New\<close> returns a session that is none of the
  existing ones and that \<open>Get\<close> then finds under its identifier, no other identifier is affected, and after \<open>Del\<close>
  the session is gone and \<open>Count\<close> is the number of the others.
\<close>

theorem session_table_lifecycle:
  assumes "smgr_ok p pkg" and "sid \<noteq> []"
  shows "\<exists>pkg1 pkg2 k e. sessions_New p pkg sid rnd = Some (pkg1, k, None) \<and> sessions_Get p pkg1 sid = Some (Some k, None)
           \<and> (\<forall>i. map_of (st (sess_objects pkg ! p)) i \<noteq> Some k) \<and> (\<forall>i. i \<noteq> sid \<longrightarrow> sessions_Get p pkg1 i = sessions_Get p pkg i)
           \<and> sessions_Del p pkg1 sid = Some pkg2 \<and> sessions_Get p pkg2 sid = Some (None, Some e)
           \<and> sessions_Count p pkg2 = Some (int (card (dom (map_of (st (sess_objects pkg ! p))) - {sid}))) \<and> smgr_ok p pkg2"
  using assms by (rule sm.session_lifecycle)

theorem session_table_lifecycle_witness:
  "\<exists>pkg1 pkg2 k e. sessions_New 0 \<lparr>sess_providers = [(''mem'', 0)], sess_objects = [sessions_NewMemProvider]\<rparr> [99] None = Some (pkg1, k, None)
     \<and> sessions_Get 0 pkg1 [99] = Some (Some k, None)
     \<and> (\<forall>i. map_of (st (sess_objects \<lparr>sess_providers = [(''mem'', 0)], sess_objects = [sessions_NewMemProvider]\<rparr> ! 0)) i \<noteq> Some k)
     \<and> (\<forall>i. i \<noteq> [99] \<longrightarrow> sessions_Get 0 pkg1 i = sessions_Get 0 \<lparr>sess_providers = [(''mem'', 0)], sess_objects = [sessions_NewMemProvider]\<rparr> i)
     \<and> sessions_Del 0 pkg1 [99] = Some pkg2 \<and> sessions_Get 0 pkg2 [99] = Some (None, Some e)
     \<and> sessions_Count 0 pkg2 = Some (int (card (dom (map_of (st (sess_objects \<lparr>sess_providers = [(''mem'', 0)], sess_objects = [sessions_NewMemProvider]\<rparr> ! 0))) - {[99]})))
     \<and> smgr_ok 0 pkg2"
  by (rule session_table_lifecycle) (simp_all add: smgr_ok_def sessions_NewMemProvider_def prov_ok_def)

text \<open>
  C40: a stopped session panics: \<open>Stop\<close> drops the topics but leaves the session marked as initialised, so the
  next \<open>AddTopic\<close> writes to a nil map; and a second \<open>Stop\<close> panics as well.
\<close>

theorem stopped_session_panics:
  assumes "Session_Stop s = Some s'" and "initted s"
  shows "Session_AddTopic s' t q = None \<and> Session_Stop s' = None"
proof -
  have "Pub1ack s' = None" "session_topics s' = None" "initted s'"
    using assms unfolding Session_Stop_def by (auto simp: Option.bind_eq_Some_conv)
  then show ?thesis by (simp add: Session_Stop_def Session_AddTopic_def)
qed

theorem stopped_session_panics_witness:
  "\<exists>w s s' m'. carries example_connect w \<and> Session_Init (session0 []) example_connect [] = Some (s, m', None) \<and> Session_Stop s = Some s'
     \<and> Session_AddTopic s' ''a'' 1 = None \<and> Session_Stop s' = None"
proof -
  obtain w where w: "carries example_connect w" "WillFlag w \<longrightarrow> ValidTopic (willTopic w)" using example_carries by blast
  have "\<not> initted (session0 [])" by (simp add: session0_def)
  then obtain s m' where s: "Session_Init (session0 []) example_connect [] = Some (s, m', None)" "initted s" "queues_empty s"
    using Session_Init_ok [OF w(1) _ w(2), of "session0 []" "[]"] by blast
  obtain s' where s': "Session_Stop s = Some s'" using Session_Stop_ok [OF s(3)] by blast
  from stopped_session_panics [OF s' s(2)] s(1) s' w(1) show ?thesis by blast
qed

end
