(* ===== verification/Broker_Props.thy ===== *)
theory Broker_Props
  imports Broker_Acked Session_Props
begin

text \<open>
  What the broker promises to the devices that are connected: a message that a device uploads is acknowledged and reaches
  the device that its topic names, and the acknowledgement of that device ends the wait for it.
\<close>

section \<open>Rounds of a goroutine\<close>

lemma live_read_on:
  assumes "read_on s' rest w w'" and "live w s c ms"
  shows "live w' s c ms"
proof -
  obtain ss q where q: "ready w s c" "\<not> closeLock (services w ! s)" "pm_New (svc_pm (services w ! s))" "session_of w s ss"
      "Pub1ack ss = Some q" "pub_queue w s q ms" using assms(2) by (auto simp: live_def)
  have "pub_queue w' s q ms" by (rule pub_queue_callbacks [OF q(6)]) (simp add: read_on_fields(3) [OF assms(1)])
  moreover have "ready w' s c" "\<not> closeLock (services w' ! s)" "pm_New (svc_pm (services w' ! s))" "session_of w' s ss"
    using q assms(1) by (auto simp: read_on_def Let_def ready_def writable_def nth_update_if session_of_def split: if_splits)
  ultimately show ?thesis using q(5) by (auto simp: live_def)
qed

text \<open>A packet that has arrived, whose handler succeeds and does not stop the service.\<close>

lemma receive_and_handle:
  assumes "listening w s c" and "arrived w s = ws @ rest" and "framed t ws" and "int (length ws) \<le> MaxBufferSize (server w)"
    and "message_New t = Inr m0" and "message_Decode m0 (slice_of ws) = Some (m, k, None)"
    and "\<And>w1. read_on s rest w w1 \<Longrightarrow> listening w1 s c \<Longrightarrow> \<exists>w2. processIncoming s m w1 = (Done None, w2) \<and> P w1 w2 \<and> listening w2 s c"
  shows "\<exists>w1 w2. receiverData s w = (Done (), w2) \<and> read_on s rest w w1 \<and> P w1 w2 \<and> listening w2 s c"
proof -
  obtain w1 where w1: "read_on s rest w w1" "receive_round s w = andThen (processIncoming s m) (after_packet s) w1"
    using receive_packet [OF assms(1-6)] by blast
  obtain w2 where w2: "processIncoming s m w1 = (Done None, w2)" "P w1 w2" "listening w2 s c"
    using assms(7) [OF w1(1) read_on_listening(1) [OF w1(1) assms(1)]] by blast
  have "receiverData s w = (Done (), w2)"
    by (rule receiverData_ok [OF w1(2) w2(1)]) (use w2(3) in \<open>auto simp: listening_def ready_def\<close>)
  with w1(1) w2 show ?thesis by blast
qed

lemma listening_writes:
  assumes "writes c ws w w'" and "listening w s c"
  shows "listening w' s c" and "arrived w' s = arrived w s"
proof -
  have c: "c < length (conns w)" and r: "r_conn (services w ! s) = c" using assms(2) by (auto simp: listening_def ready_def)
  show "listening w' s c"
    using assms(2) writes_ready [OF assms(1)] c
    by (auto simp: listening_def writes_fields [OF assms(1)] reader_ok_def nth_update_if)
  show "arrived w' s = arrived w s" using c r by (simp add: arrived_def stream_of_def writes_fields [OF assms(1)])
qed

lemma listening_frame:
  "listening (w\<lparr>MsgChan := mc\<rparr>) s c = listening w s c" "arrived (w\<lparr>MsgChan := mc\<rparr>) s = arrived w s"
  by (simp_all add: listening_def ready_def arrived_def)

lemma upload_round:
  assumes "listening w s c" and "arrived w s = ws @ rest" and "packet_bytes ws (PPublish b (Some i) t pl)" and "qos_of b = 1"
    and "t \<noteq> str heartbeat_topic" and "int (length ws) \<le> MaxBufferSize (server w)" and "length (MsgChan w) < MsgChan_cap"
  shows "\<exists>w1 w2 m. receiverData s w = (Done (), w2\<lparr>MsgChan := MsgChan w @ [\<lparr>Msg = m, up_DeviceName = productKey (services w ! s),
             up_ProductKey = deviceName (services w ! s)\<rparr>]\<rparr>)
     \<and> topic m = t \<and> payload m = pl \<and> ValidTopic t \<and> read_on s rest w w1 \<and> replies c (PAck PUBACK i) w1 w2"
proof -
  obtain m k where m: "framed PUBLISH ws" "message_New PUBLISH = Inr (MPublish NewPublishMessage)"
      "message_Decode (MPublish NewPublishMessage) (slice_of ws) = Some (MPublish m, k, None)"
      "flag_byte m b" "topic m = t" "payload m = pl" "i = PacketId m" "ValidTopic t"
    using publish_arrives [OF assms(3)] assms(4) by auto
  have q: "QoS m = Some 1" using QoS_flag_byte [OF m(4)] assms(4) by simp
  have s: "s < length (services w)" using assms(1) by (simp add: listening_def ready_def)
  let ?u = "\<lambda>w. \<lparr>Msg = m, up_DeviceName = productKey (services w ! s), up_ProductKey = deviceName (services w ! s)\<rparr>"
  let ?P = "\<lambda>w1 w2. \<exists>w3. w2 = w3\<lparr>MsgChan := MsgChan w @ [?u w]\<rparr> \<and> replies c (PAck PUBACK i) w1 w3"
  have "\<exists>w1 w2. receiverData s w = (Done (), w2) \<and> read_on s rest w w1 \<and> ?P w1 w2 \<and> listening w2 s c"
  proof (rule receive_and_handle [OF assms(1,2) m(1) assms(6) m(2,3)])
    fix w1 assume 1: "read_on s rest w w1" "listening w1 s c"
    have mc: "MsgChan w1 = MsgChan w" using read_on_fields [OF 1(1)] by simp
    have u: "?u w1 = ?u w" using 1(1) s by (auto simp: read_on_def Let_def)
    have "ready w1 s c" using 1(2) by (simp add: listening_def)
    from processPublish_upload [OF this q, unfolded m(5), OF assms(5)] mc assms(7) obtain w3 where w3:
      "replies c (PAck PUBACK i) w1 w3" "processIncoming s (MPublish m) w1 = (Done None, w3\<lparr>MsgChan := MsgChan w3 @ [?u w1]\<rparr>)"
      by (auto simp: m(7))
    moreover have "MsgChan w3 = MsgChan w" using w3(1) mc by (auto simp: replies_def writes_fields)
    moreover have "listening w3 s c" using w3(1) listening_writes(1) [OF _ 1(2)] by (auto simp: replies_def)
    ultimately show "\<exists>w2. processIncoming s (MPublish m) w1 = (Done None, w2) \<and> ?P w1 w2 \<and> listening w2 s c"
      by (auto simp: u listening_frame)
  qed
  then show ?thesis using m(5,6,8) by blast
qed

section \<open>An example\<close>

text \<open>Two devices, \<open>a\<close> and \<open>b\<close> of the product \<open>p\<close>, connected on connections 0 and 1; \<open>q\<close> is the queue of both sessions.\<close>

definition example_server :: Server where
  "example_server =
     \<lparr>KeepAlive = 300, ConnectTimeout = 2, AckTimeout = 5, TimeoutRetries = 3, MaxBufferSize = 262144, SessionsProvider = ''mem'',
      sessMgr = Some 0, svcMap = [(str ''p:a'', 0), (str ''p:b'', 1)], configOnce = True,
      srv_pm = PMPool_init \<lparr>pm_items = [], pm_picks = [], pm_New = False\<rparr>\<rparr>"

definition example_service :: "nat \<Rightarrow> string \<Rightarrow> service" where
  "example_service k dn =
     (new_service example_server (of_nat (Suc k)) k NewConnectMessage (str ''p'') (str dn) [])\<lparr>sess := Some k, receiving := True\<rparr>"

definition example_broker :: "Ackqueue \<Rightarrow> bytes \<Rightarrow> broker" where
  "example_broker q bs =
     \<lparr>server = example_server, services = [example_service 0 ''a'', example_service 1 ''b''],
      conns = [fresh_conn\<lparr>incoming := bs\<rparr>, fresh_conn],
      sess_pkg = \<lparr>sess_providers = [(''mem'', 0)], sess_objects = [\<lparr>st = [(str ''a'', 0), (str ''b'', 1)],
        sess_store = [(session0 (str ''a''))\<lparr>Pub1ack := Some q\<rparr>, (session0 (str ''b''))\<lparr>Pub1ack := Some q\<rparr>]\<rparr>]\<rparr>,
      MsgChan = [], pushing = True, gsvcid = 2, gPacketId = 0, callbacks = [], tw_calls = [], bufioWriter2kPool = [],
      bufioWriter4kPool = [], bw_picks = []\<rparr>"

lemmas example_defs = example_broker_def example_service_def example_server_def new_service_def fresh_conn_def PMPool_init_def

lemma example_listening: "listening (example_broker q bs) 0 0" "arrived (example_broker q bs) 0 = bs"
  by (simp_all add: listening_def ready_def reader_ok_def writable_def service_isDone_def arrived_def stream_of_def example_defs)

lemma example_live: "newAckqueue 16 ''Pub1ack'' [] = Some q \<Longrightarrow> k < 2 \<Longrightarrow> live (example_broker q bs) k k []"
proof -
  assume q: "newAckqueue 16 ''Pub1ack'' [] = Some q" and k: "k < 2"
  have "aq_rep (q, 0) []" by (rule aq_rep_new [OF q]) simp_all
  then have "pub_queue (example_broker q bs) k q []" by (auto simp: aq_rep_def pub_queue_def)
  moreover have k': "k = 0 \<or> k = 1" using k by auto
  then have "ready (example_broker q bs) k k" "\<not> closeLock (services (example_broker q bs) ! k)"
      "pm_New (svc_pm (services (example_broker q bs) ! k))"
    by (auto simp: ready_def writable_def example_defs)
  moreover have "session_of (example_broker q bs) k ((session0 (if k = 0 then str ''a'' else str ''b''))\<lparr>Pub1ack := Some q\<rparr>)"
    using k' by (cases "k = 0") (simp_all add: session_of_def sess_at_def example_defs)
  moreover have "Pub1ack ((session0 (if k = 0 then str ''a'' else str ''b''))\<lparr>Pub1ack := Some q\<rparr>) = Some q" by simp
  ultimately show ?thesis unfolding live_def by blast
qed

text \<open>The bytes of a PUBLISH with QoS 1 from \<open>a\<close> to the topic \<open>/p/b\<close>, and of the PUBACK for it.\<close>

definition example_upload :: PublishMessage where
  "example_upload =
     \<lparr>remlen = 0, mtypeflags = Own [0x32], packetId = Own [0, 9], dbuf = slice_of [], dirty = True, topic = str ''/p/b'', payload = [7, 8]\<rparr>"

lemma example_upload_ok: "message_ok (MPublish example_upload)"
proof -
  have q: "qos_of 0x32 = 1" by code_simp
  show ?thesis
    by (simp add: example_upload_def sendable_def flags_ok_def MessageType_Valid_iff ValidQos_def publish_len_def publish_id_bytes_def
        q ValidTopic_def str_def)
qed

lemma example_upload_bytes:
  "packet_bytes (message_wire (MPublish example_upload)) (PPublish 0x32 (Some 9) (str ''/p/b'') [7, 8])"
  "length (message_wire (MPublish example_upload)) = 12"
proof -
  have id: "PacketId example_upload = 9" by code_simp
  have q: "qos_of 0x32 = 1" by code_simp
  note example_upload_ok
  moreover have "content (MPublish example_upload) = PPublish 0x32 (Some 9) (str ''/p/b'') [7, 8]"
    using id q by (simp add: example_upload_def)
  ultimately show "packet_bytes (message_wire (MPublish example_upload)) (PPublish 0x32 (Some 9) (str ''/p/b'') [7, 8])"
    unfolding packet_bytes_def by blast
  show "length (message_wire (MPublish example_upload)) = 12" by code_simp
qed

section \<open>Properties\<close>



lemma live_MsgChan: "live (w\<lparr>MsgChan := mc\<rparr>) s c ms = live w s c ms"
  by (simp add: live_def ready_def session_of_def pub_queue_def pub_entry_def)

lemma push_round:
  assumes "MsgChan w = u # us" and "go_split 47 (topic (Msg u)) = ps @ [pk, dn]"
    and "map_of (svcMap (server w)) (pk @ str '':'' @ dn) = Some s" and "live w s c ms" and "pm_ok (srv_pm (server w))"
    and "ValidTopic (topic (Msg u))" and "pushable (download_topic pk dn) (payload (Msg u))"
    and "i = fst (next_packetId (gPacketId w))" and "i \<notin> Pktid ` set ms"
  shows "\<exists>w' ws a y cm p q. PushMsg cp now w = (Done (), w')
     \<and> packet_bytes ws (PPublish 0x32 (Some i) (download_topic pk dn) (payload (Msg u)))
     \<and> conns w' = (conns w)[c := wrote (conns w ! c) ws]
     \<and> live w' s c (ms @ [a]) \<and> Pktid a = i \<and> State a = RESERVED \<and> timestamp a = now
     \<and> services w' = (services w)[s := (services w ! s)\<lparr>svc_pm := p, Timers := (Timers (services w ! s))(i \<mapsto> length (tw_calls w))\<rparr>]
     \<and> tw_calls w' = tw_calls w @ [TwAdd (svc_ackTimeout (services w ! s)) s (cp cm y)]
     \<and> content (MPublish y) = PPublish 0x32 (Some i) (download_topic pk dn) (payload (Msg u))
     \<and> MsgChan w' = us \<and> server w' = (server w)\<lparr>srv_pm := q\<rparr> \<and> pm_ok q \<and> pushing w' = pushing w"
proof -
  let ?w = "w\<lparr>MsgChan := us\<rparr>"
  have l: "live ?w s c ms" using assms(4) by (simp add: live_MsgChan)
  have v: "ValidTopic (download_topic pk dn)" by (rule download_topic_valid [OF assms(6)]) (simp_all add: assms(2))
  have p: "pm_ok (srv_pm (server ?w))" and i: "i = fst (next_packetId (gPacketId ?w))" using assms(5,8) by simp_all
  obtain w' ws a p q cm y where w': "push_to cp s pk dn (Msg u) now ?w = (Done (), w')"
     "packet_bytes ws (PPublish 0x32 (Some i) (download_topic pk dn) (payload (Msg u)))" "conns w' = (conns w)[c := wrote (conns w ! c) ws]"
     "live w' s c (ms @ [a])" "Pktid a = i" "State a = RESERVED" "timestamp a = now"
     "services w' = (services w)[s := (services w ! s)\<lparr>svc_pm := p, Timers := (Timers (services w ! s))(i \<mapsto> length (tw_calls w))\<rparr>]"
     "content (MPublish y) = PPublish 0x32 (Some i) (download_topic pk dn) (payload (Msg u))"
     "tw_calls w' = tw_calls w @ [TwAdd (svc_ackTimeout (services w ! s)) s (cp cm y)]"
     "server w' = (server w)\<lparr>srv_pm := q\<rparr>" "pm_ok q" "MsgChan w' = us" "pushing w' = pushing w"
    using push_to_ok [OF l p v assms(7) i assms(9), of cp now] by (simp del: content.simps) metis
  then show ?thesis unfolding PushMsg_ok [OF assms(1-3)] by blast
qed

text \<open>
  C9: a message of \<open>MsgChan\<close> reaches the device that the last two segments of its topic name, if that is connected: the
  goroutine of \<open>PushMsg\<close> writes a PUBLISH with QoS 1, a new identifier, the topic \<open>/sys/<product>/<device>/thing/download\<close>
  and the same payload to the connection of the device.  The message then waits, as the last one, for the PUBACK
  of the device, a timer is set for it, and the goroutine and the service are ready for the next message.
\<close>

theorem push_delivered:
  assumes "MsgChan w = u # us" and "go_split 47 (topic (Msg u)) = ps @ [pk, dn]"
    and "map_of (svcMap (server w)) (pk @ str '':'' @ dn) = Some s" and "live w s c ms" and "pm_ok (srv_pm (server w))"
    and "ValidTopic (topic (Msg u))" and "pushable (download_topic pk dn) (payload (Msg u))"
    and "fst (next_packetId (gPacketId w)) \<notin> Pktid ` set ms"
  shows "\<exists>w' ws i a cm y. PushMsg cp now w = (Done (), w')
     \<and> packet_bytes ws (PPublish 0x32 (Some i) (download_topic pk dn) (payload (Msg u)))
     \<and> outgoing (conns w' ! c) = outgoing (conns w ! c) @ ws
     \<and> live w' s c (ms @ [a]) \<and> Pktid a = i \<and> State a = RESERVED \<and> timestamp a = now
     \<and> Timers (services w' ! s) = (Timers (services w ! s))(i \<mapsto> length (tw_calls w))
     \<and> tw_calls w' = tw_calls w @ [TwAdd (svc_ackTimeout (services w ! s)) s (cp cm y)]
     \<and> MsgChan w' = us \<and> pm_ok (srv_pm (server w')) \<and> pushing w' = pushing w"
proof -
  have c: "c < length (conns w)" "s < length (services w)" using assms(4) by (simp_all add: live_def ready_def)
  define i where "i = fst (next_packetId (gPacketId w))"
  from push_round [OF assms(1-7) i_def, of cp now] assms(8) obtain w' ws a y cm p q where w': "PushMsg cp now w = (Done (), w')"
     "packet_bytes ws (PPublish 0x32 (Some i) (download_topic pk dn) (payload (Msg u)))" "conns w' = (conns w)[c := wrote (conns w ! c) ws]"
     "live w' s c (ms @ [a])" "Pktid a = i" "State a = RESERVED" "timestamp a = now"
     "services w' = (services w)[s := (services w ! s)\<lparr>svc_pm := p, Timers := (Timers (services w ! s))(i \<mapsto> length (tw_calls w))\<rparr>]"
     "tw_calls w' = tw_calls w @ [TwAdd (svc_ackTimeout (services w ! s)) s (cp cm y)]"
     "MsgChan w' = us" "server w' = (server w)\<lparr>srv_pm := q\<rparr>" "pm_ok q" "pushing w' = pushing w"
    unfolding i_def by blast
  moreover have "outgoing (conns w' ! c) = outgoing (conns w ! c) @ ws" using w'(3) c by simp
  moreover have "Timers (services w' ! s) = (Timers (services w ! s))(i \<mapsto> length (tw_calls w))" using w'(8) c by simp
  moreover have "pm_ok (srv_pm (server w'))" using w'(11,12) by simp
  ultimately show ?thesis by blast
qed

theorem push_delivered_witness:
  "\<exists>q w' ws i a cm y. newAckqueue 16 ''Pub1ack'' [] = Some q
     \<and> PushMsg (\<lambda>c m. m) 0 ((example_broker q [])\<lparr>MsgChan := [\<lparr>Msg = example_upload, up_DeviceName = [], up_ProductKey = []\<rparr>]\<rparr>) = (Done (), w')
     \<and> packet_bytes ws (PPublish 0x32 (Some i) (str ''/sys/p/b/thing/download'') [7, 8]) \<and> outgoing (conns w' ! 1) = ws
     \<and> live w' 1 1 [a] \<and> Pktid a = i \<and> Timers (services w' ! 1) i = Some 0 \<and> tw_calls w' = [TwAdd 5 1 ((\<lambda>c m. m) cm y)]"
proof -
  obtain q where q: "newAckqueue 16 ''Pub1ack'' [] = Some q" using new_queue by blast
  let ?u = "\<lparr>Msg = example_upload, up_DeviceName = [], up_ProductKey = []\<rparr>"
  let ?w = "(example_broker q [])\<lparr>MsgChan := [?u]\<rparr>"
  have l: "live ?w 1 1 []" using example_live [OF q] by (simp add: live_MsgChan)
  have t: "go_split 47 (topic (Msg ?u)) = [[]] @ [str ''p'', str ''b'']" by code_simp
  have d: "download_topic (str ''p'') (str ''b'') = str ''/sys/p/b/thing/download''" by (simp add: download_topic_def str_def)
  have p: "payload (Msg ?u) = [7, 8]" "ValidTopic (topic (Msg ?u))" by (simp_all add: example_upload_def ValidTopic_def str_def)
  have pu: "pushable (download_topic (str ''p'') (str ''b'')) (payload (Msg ?u))" using p d by (simp add: pushable_def str_def)
  have m: "map_of (svcMap (server ?w)) (str ''p'' @ str '':'' @ str ''b'') = Some 1" by (simp add: example_defs str_def)
  have k: "pm_ok (srv_pm (server ?w))" by (simp add: example_defs pm_ok_def)
  have e: "MsgChan ?w = [?u]" "outgoing (conns ?w ! 1) = []" "Timers (services ?w ! 1) = Map.empty" "tw_calls ?w = []"
    "svc_ackTimeout (services ?w ! 1) = 5" by (simp_all add: example_defs)
  from push_delivered [OF e(1) t m l k p(2) pu, of "\<lambda>c m. m" 0] obtain w' ws i a cm y where
    "PushMsg (\<lambda>c m. m) 0 ?w = (Done (), w')" "packet_bytes ws (PPublish 0x32 (Some i) (str ''/sys/p/b/thing/download'') [7, 8])"
    "outgoing (conns w' ! 1) = ws" "live w' 1 1 [a]" "Pktid a = i" "Timers (services w' ! 1) i = Some 0" "tw_calls w' = [TwAdd 5 1 ((\<lambda>c m. m) cm y)]"
    unfolding e p(1) d by auto
  with q show ?thesis by blast
qed

text \<open>
  C4: composition of both: device \<open>s\<close> uploads a message on connection \<open>c\<close> while device \<open>d\<close>, which the topic names, is
  connected on another connection.  One round of the goroutine of \<open>s\<close> and one of \<open>PushMsg\<close> later, \<open>s\<close> has received the
  PUBACK for its message, and \<open>d\<close> a PUBLISH with the payload of the message.
\<close>

theorem upload_reaches_device:
  assumes "listening w s c" and "arrived w s = ws @ rest" and "packet_bytes ws (PPublish b (Some i) t pl)" and "qos_of b = 1"
    and "t \<noteq> str heartbeat_topic" and "int (length ws) \<le> MaxBufferSize (server w)" and "MsgChan w = []"
    and "go_split 47 t = ps @ [pk, dn]" and "map_of (svcMap (server w)) (pk @ str '':'' @ dn) = Some d" and "live w d cd ms"
    and "cd \<noteq> c" and "pm_ok (srv_pm (server w))" and "pushable (download_topic pk dn) pl"
    and "fst (next_packetId (gPacketId w)) \<notin> Pktid ` set ms"
  shows "\<exists>w1 w2 ack msg j a. receiverData s w = (Done (), w1) \<and> PushMsg cp now w1 = (Done (), w2)
     \<and> packet_bytes ack (PAck PUBACK i) \<and> outgoing (conns w2 ! c) = outgoing (conns w ! c) @ ack
     \<and> packet_bytes msg (PPublish 0x32 (Some j) (download_topic pk dn) pl) \<and> outgoing (conns w2 ! cd) = outgoing (conns w ! cd) @ msg
     \<and> live w2 d cd (ms @ [a]) \<and> Pktid a = j"
proof -
  obtain w1 w2 m where 1: "receiverData s w = (Done (), w2\<lparr>MsgChan := [\<lparr>Msg = m, up_DeviceName = productKey (services w ! s),
             up_ProductKey = deviceName (services w ! s)\<rparr>]\<rparr>)"
     "topic m = t" "payload m = pl" "ValidTopic t" "read_on s rest w w1" "replies c (PAck PUBACK i) w1 w2"
    using upload_round [OF assms(1-6)] assms(7) by auto
  let ?u = "\<lparr>Msg = m, up_DeviceName = productKey (services w ! s), up_ProductKey = deviceName (services w ! s)\<rparr>"
  let ?w = "w2\<lparr>MsgChan := [?u]\<rparr>"
  obtain ack where ack: "packet_bytes ack (PAck PUBACK i)" "writes c ack w1 w2" and g: "gPacketId w2 = gPacketId w1"
    using 1(6) by (auto simp: replies_def)
  note f1 = read_on_fields [OF 1(5)] and f2 = writes_fields [OF ack(2)]
  define j where "j = fst (next_packetId (gPacketId ?w))"
  have l: "live ?w d cd ms" using live_writes [OF ack(2) live_read_on [OF 1(5) assms(10)]] by (simp add: live_MsgChan)
  obtain w3 msg a where w3: "PushMsg cp now ?w = (Done (), w3)" "packet_bytes msg (PPublish 0x32 (Some j) (download_topic pk dn) pl)"
      "conns w3 = (conns ?w)[cd := wrote (conns ?w ! cd) msg]" "live w3 d cd (ms @ [a])" "Pktid a = j"
    using push_round [where w = ?w and u = ?u and us = "[]" and ps = ps and pk = pk and dn = dn and s = d and c = cd and ms = ms
        and i = j and cp = cp and now = now] l 1(2-4) assms(8,9,12-14) g by (simp add: f1 f2 j_def) blast
  have c: "c < length (conns w1)" using read_on_listening(1) [OF 1(5) assms(1)] by (simp add: listening_def ready_def)
  have cd: "cd < length (conns w2)" using l by (simp add: live_def ready_def)
  have "outgoing (conns w3 ! c) = outgoing (conns w ! c) @ ack"
    using w3(3) c assms(11) f1(9) [of c] by (simp add: f2(9))
  moreover have "outgoing (conns w3 ! cd) = outgoing (conns w ! cd) @ msg"
    using w3(3) cd assms(11) f1(9) [of cd] by (simp add: f2(9))
  ultimately show ?thesis using 1(1) ack(1) w3 by blast
qed

theorem upload_reaches_device_witness:
  "\<exists>q w1 w2 ack msg j a. newAckqueue 16 ''Pub1ack'' [] = Some q
     \<and> receiverData 0 (example_broker q (message_wire (MPublish example_upload))) = (Done (), w1) \<and> PushMsg (\<lambda>c m. m) 0 w1 = (Done (), w2)
     \<and> packet_bytes ack (PAck PUBACK 9) \<and> outgoing (conns w2 ! 0) = ack
     \<and> packet_bytes msg (PPublish 0x32 (Some j) (str ''/sys/p/b/thing/download'') [7, 8]) \<and> outgoing (conns w2 ! 1) = msg
     \<and> live w2 1 1 [a] \<and> Pktid a = j"
proof -
  obtain q where q: "newAckqueue 16 ''Pub1ack'' [] = Some q" using new_queue by blast
  let ?w = "example_broker q (message_wire (MPublish example_upload))"
  have d: "download_topic (str ''p'') (str ''b'') = str ''/sys/p/b/thing/download''" by (simp add: download_topic_def str_def)
  have t: "go_split 47 (str ''/p/b'') = [[]] @ [str ''p'', str ''b'']" by code_simp
  have qs: "qos_of 0x32 = 1" by code_simp
  have l: "live ?w 1 1 []" using example_live [OF q] by simp
  have hb: "str ''/p/b'' \<noteq> str heartbeat_topic" by (simp add: str_def)
  have ar: "arrived ?w 0 = message_wire (MPublish example_upload) @ []" by (simp add: example_listening del: message_wire.simps)
  have m: "map_of (svcMap (server ?w)) (str ''p'' @ str '':'' @ str ''b'') = Some 1" by (simp add: example_defs str_def)
  have e: "MsgChan ?w = []" "outgoing (conns ?w ! 0) = []" "outgoing (conns ?w ! 1) = []" "MaxBufferSize (server ?w) = 262144"
    "pm_ok (srv_pm (server ?w))" by (simp_all add: example_defs pm_ok_def del: message_wire.simps)
  have pu: "pushable (download_topic (str ''p'') (str ''b'')) [7, 8]" using d by (simp add: pushable_def str_def)
  have sz: "int (length (message_wire (MPublish example_upload))) \<le> MaxBufferSize (server ?w)"
    unfolding e(4) example_upload_bytes(2) by simp
  from upload_reaches_device [OF example_listening(1) ar example_upload_bytes(1) qs hb sz e(1) t m l _ e(5) pu, of "\<lambda>c m. m" 0] q
  show ?thesis unfolding e(2,3) d by auto
qed







lemma sub_body_length: "length qs = length ts \<Longrightarrow> length ts \<le> length (sub_body ts qs)"
  by (induction ts qs rule: sub_body.induct) simp_all

lemma subscribe_arrives:
  assumes "packet_bytes ws (PSubscribe i rs)"
  shows "\<exists>m k. framed SUBSCRIBE ws \<and> message_New SUBSCRIBE = Inr (MSubscribe NewSubscribeMessage)
           \<and> message_Decode (MSubscribe NewSubscribeMessage) (slice_of ws) = Some (MSubscribe m, k, None)
           \<and> PacketId m = i \<and> sub_topics m = map fst rs \<and> sub_qos m = map snd rs \<and> int (length rs) + 2 \<le> maxRemainingLength"
proof -
  obtain m0 where m0: "message_ok m0" "content m0 = PSubscribe i rs" "ws = message_wire m0" using assms by (auto simp: packet_bytes_def)
  then obtain x where x: "m0 = MSubscribe x" by (cases m0) simp_all
  let ?b = "type_byte SUBSCRIBE"
  have wf: "subscribe_wf x" "sendable ?b (subscribe_msglen x) x" "sub_topics x \<noteq> []" "\<forall>t \<in> set (sub_topics x). length t \<le> 65535"
    using m0(1) x by simp_all
  have f: "PacketId x = i" "sub_topics x = map fst rs" "sub_qos x = map snd rs"
    using m0(2) x wf(1) by (auto simp: subscribe_wf_def)
  let ?src = "slice_of (subscribe_wire ?b x)"
  let ?d = "(decoded NewSubscribeMessage ?src (subscribe_msglen x))\<lparr>packetId := InDbuf (length (header_bytes ?b (subscribe_msglen x))) 2,
      sub_topics := sub_topics x, sub_qos := sub_qos x, dirty := False\<rparr>"
  have "subscribe_Decode NewSubscribeMessage ?src = Some (?d, int (length (subscribe_wire ?b x)), None)"
    using subscribe_Decode_ok [OF wf(2) New_flag_byte(8) refl wf(1,4,3), of ?src "[]"] by (simp add: New_empty)
  moreover have "PacketId ?d = i"
    unfolding f(1) [symmetric] by (rule PacketId_be) (simp add: decoded_def assign_dbuf_def subscribe_wire_def)
  moreover have "framed SUBSCRIBE ws" using mq.wire_law [OF m0(1)] m0(3) x by (auto simp: framed_def)
  moreover have "length (sub_topics x) \<le> length (sub_body (sub_topics x) (sub_qos x))"
    using sub_body_length wf(1) by (simp add: subscribe_wf_def)
  then have "int (length rs) + 2 \<le> maxRemainingLength"
    using wf(2) subscribe_msglen_body [OF wf(1)] f(2) by (simp add: sendable_def)
  ultimately show ?thesis using f(2,3) m0(3) x by (simp add: message_New_def)
qed

text \<open>
  C32: a SUBSCRIBE is answered: when its bytes have arrived, the next round of the goroutine sends a SUBACK with its
  identifier that grants, topic by topic, the QoS that was asked for.  No subscription is entered anywhere: the
  sessions and the rest of the broker stay as they are.
\<close>

theorem subscribe_answered:
  assumes "listening w s c" and "arrived w s = ws @ rest" and "packet_bytes ws (PSubscribe i rs)"
    and "\<forall>(t, q) \<in> set rs. q \<le> 2" and "int (length ws) \<le> MaxBufferSize (server w)"
  shows "\<exists>w' ack. receiverData s w = (Done (), w') \<and> packet_bytes ack (PSuback i (map snd rs))
     \<and> outgoing (conns w' ! c) = outgoing (conns w ! c) @ ack \<and> sess_pkg w' = sess_pkg w \<and> server w' = server w
     \<and> MsgChan w' = MsgChan w \<and> listening w' s c \<and> arrived w' s = rest"
proof -
  obtain m k where m: "framed SUBSCRIBE ws" "message_New SUBSCRIBE = Inr (MSubscribe NewSubscribeMessage)"
      "message_Decode (MSubscribe NewSubscribeMessage) (slice_of ws) = Some (MSubscribe m, k, None)"
      "PacketId m = i" "sub_topics m = map fst rs" "sub_qos m = map snd rs" "int (length rs) + 2 \<le> maxRemainingLength"
    using subscribe_arrives [OF assms(3)] by blast
  have "return_code_ok q" if "q \<le> 2" for q :: byte
  proof -
    have "unat q \<le> 2" using that by (simp add: word_le_nat_alt)
    then have "unat q = unat (0 :: byte) \<or> unat q = unat (1 :: byte) \<or> unat q = unat (2 :: byte)" by auto
    then have "q = 0 \<or> q = 1 \<or> q = 2" by (blast intro: unsigned_word_eqI)
    then show ?thesis by (auto simp: return_code_ok_def)
  qed
  then have codes: "\<forall>q \<in> set (sub_qos m). return_code_ok q" using assms(4) m(6) by fastforce
  have "\<exists>w1 w2. receiverData s w = (Done (), w2) \<and> read_on s rest w w1 \<and> replies c (PSuback i (map snd rs)) w1 w2 \<and> listening w2 s c"
  proof (rule receive_and_handle [OF assms(1,2) m(1) assms(5) m(2,3)])
    fix w1 assume 1: "read_on s rest w w1" "listening w1 s c"
    then have "ready w1 s c" by (simp add: listening_def)
    from processSubscribe_ok [OF this _ codes] m(4-7) obtain w2 where
      w2: "processIncoming s (MSubscribe m) w1 = (Done None, w2)" "replies c (PSuback i (map snd rs)) w1 w2" by auto
    with listening_writes(1) [OF _ 1(2)] show "\<exists>w2. processIncoming s (MSubscribe m) w1 = (Done None, w2)
        \<and> replies c (PSuback i (map snd rs)) w1 w2 \<and> listening w2 s c" by (auto simp: replies_def)
  qed
  then obtain w1 w2 ack where w2: "receiverData s w = (Done (), w2)" "read_on s rest w w1" "packet_bytes ack (PSuback i (map snd rs))"
      "writes c ack w1 w2" "listening w2 s c" by (auto simp: replies_def)
  note l = read_on_listening [OF w2(2) assms(1)] and f1 = read_on_fields [OF w2(2)] and f2 = writes_fields [OF w2(4)]
  have "c < length (conns w1)" using l(1) by (simp add: listening_def ready_def)
  then have "outgoing (conns w2 ! c) = outgoing (conns w ! c) @ ack" using f1(9) [of c] by (simp add: f2(9))
  moreover have "sess_pkg w2 = sess_pkg w" "server w2 = server w" "MsgChan w2 = MsgChan w" by (simp_all add: f1 f2)
  ultimately show ?thesis using w2(1,3,5) l(2) listening_writes(2) [OF w2(4) l(1)] by auto
qed

definition example_subscribe :: SubscribeMessage where
  "example_subscribe =
     \<lparr>remlen = 0, mtypeflags = Own [0x82], packetId = Own [0, 3], dbuf = slice_of [], dirty = True,
      sub_topics = [[97], [98]], sub_qos = [1, 0]\<rparr>"

theorem subscribe_answered_witness:
  "\<exists>q w' ack. newAckqueue 16 ''Pub1ack'' [] = Some q
     \<and> receiverData 0 (example_broker q (message_wire (MSubscribe example_subscribe))) = (Done (), w')
     \<and> packet_bytes ack (PSuback 3 [1, 0]) \<and> outgoing (conns w' ! 0) = ack"
proof -
  obtain q where q: "newAckqueue 16 ''Pub1ack'' [] = Some q" using new_queue by blast
  let ?ws = "message_wire (MSubscribe example_subscribe)"
  let ?w = "example_broker q ?ws"
  have "type_byte SUBSCRIBE = 0x82" by (simp add: type_byte_def DefaultFlags_def)
  then have "message_ok (MSubscribe example_subscribe)"
    by (simp add: example_subscribe_def sendable_def flags_ok_def MessageType_Valid_iff subscribe_msglen_def subscribe_wf_def DefaultFlags_def)
  moreover have "content (MSubscribe example_subscribe) = PSubscribe 3 [([97], 1), ([98], 0)]" by code_simp
  ultimately have p: "packet_bytes ?ws (PSubscribe 3 [([97], 1), ([98], 0)])" unfolding packet_bytes_def by blast
  have ar: "arrived ?w 0 = ?ws @ []" by (simp add: example_listening del: message_wire.simps)
  have "length ?ws = 12" by code_simp
  then have sz: "int (length ?ws) \<le> MaxBufferSize (server ?w)" by (simp add: example_defs del: message_wire.simps)
  have "outgoing (conns ?w ! 0) = []" by (simp add: example_defs)
  with subscribe_answered [OF example_listening(1) ar p _ sz] q show ?thesis by auto
qed

text \<open>
  C31: the heartbeat interval is bounded: when a device publishes a number to the topic of the heartbeat, of whatever
  size, the next read deadline of its connection is five seconds more than that number brought into the range from
  one second to two hours.  The message is acknowledged and not passed on.
\<close>

theorem heartbeat_bounded:
  assumes "listening w s c" and "arrived w s = ws @ rest" and "packet_bytes ws (PPublish b (Some i) (str heartbeat_topic) pl)" and "qos_of b = 1"
    and "Atoi pl = Inr h" and "int (length ws) \<le> MaxBufferSize (server w)" and "keepAliveCH (services w ! s) = Some False"
  shows "\<exists>w' ack. receiverData s w = (Done (), w') \<and> packet_bytes ack (PAck PUBACK i)
     \<and> outgoing (conns w' ! c) = outgoing (conns w ! c) @ ack \<and> MsgChan w' = MsgChan w
     \<and> r_d (services w' ! s) = max 1 (min 7200 h) + 5 \<and> listening w' s c \<and> arrived w' s = rest"
proof -
  obtain m k where m: "framed PUBLISH ws" "message_New PUBLISH = Inr (MPublish NewPublishMessage)"
      "message_Decode (MPublish NewPublishMessage) (slice_of ws) = Some (MPublish m, k, None)"
      "flag_byte m b" "topic m = str heartbeat_topic" "payload m = pl" "i = PacketId m"
    using publish_arrives [OF assms(3)] assms(4) by auto
  have q: "QoS m = Some 1" using QoS_flag_byte [OF m(4)] assms(4) by simp
  have cl: "int32 (clamp_heartbeat h + 5) = max 1 (min 7200 h) + 5" by (simp add: clamp_heartbeat_def int32_def signed_take_bit_int_eq_self)
  have s: "s < length (services w)" using assms(1) by (simp add: listening_def ready_def)
  let ?v = "\<lambda>w. w\<lparr>services := (services w)[s := (services w ! s)\<lparr>r_d := max 1 (min 7200 h) + 5\<rparr>]\<rparr>"
  have "\<exists>w1 w2. receiverData s w = (Done (), w2) \<and> read_on s rest w w1 \<and> replies c (PAck PUBACK i) (?v w1) w2 \<and> listening w2 s c"
  proof (rule receive_and_handle [OF assms(1,2) m(1) assms(6) m(2,3)])
    fix w1 assume 1: "read_on s rest w w1" "listening w1 s c"
    have "ready w1 s c" "\<not> service_isDone (services w1 ! s)" using 1(2) by (simp_all add: listening_def)
    moreover have "keepAliveCH (services w1 ! s) = Some False" using 1(1) s assms(7) by (auto simp: read_on_def Let_def)
    ultimately obtain w2 where w2: "replies c (PAck PUBACK i) (?v w1) w2" "processIncoming s (MPublish m) w1 = (Done None, w2)"
      using processPublish_heartbeat [OF _ q m(5), unfolded m(6), OF _ assms(5)] unfolding cl m(7) by blast
    have "listening (?v w1) s c" using 1(2) by (auto simp: listening_def ready_def service_isDone_def)
    with w2 listening_writes(1) show "\<exists>w2. processIncoming s (MPublish m) w1 = (Done None, w2)
        \<and> replies c (PAck PUBACK i) (?v w1) w2 \<and> listening w2 s c" by (auto simp: replies_def)
  qed
  then obtain w1 w2 ack where w2: "receiverData s w = (Done (), w2)" "read_on s rest w w1" "packet_bytes ack (PAck PUBACK i)"
      "writes c ack (?v w1) w2" "listening w2 s c" by (auto simp: replies_def)
  note l = read_on_listening [OF w2(2) assms(1)] and f1 = read_on_fields [OF w2(2)] and f2 = writes_fields [OF w2(4)]
  have 1: "c < length (conns w1)" "s < length (services w1)" using l(1) by (simp_all add: listening_def ready_def)
  then have "outgoing (conns w2 ! c) = outgoing (conns w ! c) @ ack" "r_d (services w2 ! s) = max 1 (min 7200 h) + 5" "MsgChan w2 = MsgChan w"
    using f1(1) f1(9) [of c] by (simp_all add: f2)
  moreover have "listening (?v w1) s c" "arrived (?v w1) s = rest"
    using l 1 by (auto simp: listening_def ready_def service_isDone_def arrived_def)
  ultimately show ?thesis using w2(1,3,5) listening_writes(2) [OF w2(4)] by auto
qed

definition example_heartbeat :: PublishMessage where
  "example_heartbeat =
     \<lparr>remlen = 0, mtypeflags = Own [0x32], packetId = Own [0, 9], dbuf = slice_of [], dirty = True, topic = str heartbeat_topic,
      payload = str ''99999''\<rparr>"

theorem heartbeat_bounded_witness:
  "\<exists>q w' ack. newAckqueue 16 ''Pub1ack'' [] = Some q
     \<and> receiverData 0 (example_broker q (message_wire (MPublish example_heartbeat))) = (Done (), w')
     \<and> packet_bytes ack (PAck PUBACK 9) \<and> outgoing (conns w' ! 0) = ack \<and> r_d (services w' ! 0) = 7205"
proof -
  obtain q where q: "newAckqueue 16 ''Pub1ack'' [] = Some q" using new_queue by blast
  let ?ws = "message_wire (MPublish example_heartbeat)"
  let ?w = "example_broker q ?ws"
  have id: "PacketId example_heartbeat = 9" by code_simp
  have qs: "qos_of 0x32 = 1" by code_simp
  have "message_ok (MPublish example_heartbeat)"
    by (simp add: example_heartbeat_def sendable_def flags_ok_def MessageType_Valid_iff ValidQos_def publish_len_def publish_id_bytes_def
        qs ValidTopic_def str_def)
  moreover have "content (MPublish example_heartbeat) = PPublish 0x32 (Some 9) (str heartbeat_topic) (str ''99999'')"
    using id qs by (simp add: example_heartbeat_def)
  ultimately have p: "packet_bytes ?ws (PPublish 0x32 (Some 9) (str heartbeat_topic) (str ''99999''))" unfolding packet_bytes_def by blast
  have ar: "arrived ?w 0 = ?ws @ []" by (simp add: example_listening del: message_wire.simps)
  have at: "Atoi (str ''99999'') = Inr 99999" by code_simp
  have "length ?ws = 40" by code_simp
  then have sz: "int (length ?ws) \<le> MaxBufferSize (server ?w)" by (simp add: example_defs del: message_wire.simps)
  have e: "outgoing (conns ?w ! 0) = []" "keepAliveCH (services ?w ! 0) = Some False" by (simp_all add: example_defs)
  from heartbeat_bounded [OF example_listening(1) ar p qs at sz e(2)] q e(1) show ?thesis by auto
qed

end
