(* ===== verification/Config.thy ===== *)
theory Config
  imports Broker_Server
begin

text \<open>
  \<open>src/config/config.go\<close> and the part of \<open>src/service/xsfserver.go\<close> that builds the server from it.  The package
  \<open>viper\<close>, outside the repository, is a parameter: the file that it reads (or the error) and its typed getters.
\<close>

section \<open>Configuration\<close>

record Configuration =
  cf_KeepAlive :: int
  cf_ConnectTimeout :: int
  cf_TimeoutRetries :: int
  cf_MaxBufferSize :: int
  cf_SessionsProvider :: string
  RootCertPath :: string
  TLsPublicCertPath :: string
  TLsPrivateKeyPath :: string
  WssPublicCertPath :: string
  WssPrivateKeyPath :: string
  NetCard :: string
  PublicNetCard :: string
  Prof :: bool
  cf_AckTimeout :: int
  Interval :: int
  BucketNum :: int

definition or_int :: "int \<Rightarrow> int \<Rightarrow> int" where
  "or_int v d = (if v = 0 then d else v)"

definition or_str :: "string \<Rightarrow> string \<Rightarrow> string" where
  "or_str v d = (if v = [] then d else v)"

text \<open>
  \<open>GetInt\<close>, \<open>GetString\<close> and \<open>GetBool\<close> are the getters after \<open>ReadInConfig\<close> returned \<open>err\<close>.  The test \<open>err == nil\<close> after
  the line for the buffer size always holds, the tests \<open>err != nil\<close> for the network cards never do.
\<close>

definition NewOptions ::
    "error option \<Rightarrow> (string \<Rightarrow> int) \<Rightarrow> (string \<Rightarrow> string) \<Rightarrow> (string \<Rightarrow> bool) \<Rightarrow> error + Configuration" where
  "NewOptions err GetInt GetString GetBool =
     (case err of
        Some e \<Rightarrow> Inl (Errorf ''NewOptions | read config failed: %v'' [error_arg err])
      | None \<Rightarrow>
          Inr \<lparr>cf_KeepAlive = or_int (GetInt ''mqtt.keepalive'') 300,
               cf_ConnectTimeout = or_int (GetInt ''mqtt.connectTimeout'') 2,
               cf_TimeoutRetries = or_int (GetInt ''mqtt.retries'') 3,
               cf_MaxBufferSize = (if err = None then 1024 * 256 else GetInt ''mqtt.maxBufferSize''),
               cf_SessionsProvider = or_str (GetString ''mqtt.sessionProvider'') ''mem'',
               RootCertPath = or_str (GetString ''cert.caPath'') ''/opt/cert/ca.crt'',
               TLsPublicCertPath = or_str (GetString ''cert.serverCrtPath'') ''/opt/cert/server.crt'',
               TLsPrivateKeyPath = or_str (GetString ''cert.serverKeyPath'') ''/opt/cert/server.key'',
               WssPublicCertPath = or_str (GetString ''cert.wssCrtPath'') ''/opt/cert/wss.crt'',
               WssPrivateKeyPath = or_str (GetString ''cert.wssKeyPath'') ''/opt/cert/wss.key'',
               NetCard = (if err \<noteq> None then ''eth0'' else GetString ''server.netCard''),
               PublicNetCard = (if err \<noteq> None then ''eth0'' else GetString ''server.publicNetCard''),
               Prof = GetBool ''server.Prof'',
               cf_AckTimeout = or_int (GetInt ''mqtt.ackTimeout'') 5,
               Interval = or_int (GetInt ''timeWheel.interval'') 200,
               BucketNum = or_int (GetInt ''timeWheel.bucketNum'') 360\<rparr>)"

section \<open>The broker at start\<close>

text \<open>
  \<open>Init\<close>, for the parts that are modelled, in a program in which the package of sessions has registered its provider;
  \<open>ps\<close> are the picks of the pool of messages.
\<close>

definition MqttXSFServer_Init :: "Configuration \<Rightarrow> nat list \<Rightarrow> broker option" where
  "MqttXSFServer_Init conf ps =
     do { pkg \<leftarrow> sessions_init \<lparr>sess_providers = [], sess_objects = []\<rparr>;
          Some \<lparr>server = \<lparr>KeepAlive = cf_KeepAlive conf, ConnectTimeout = cf_ConnectTimeout conf,
                          AckTimeout = cf_AckTimeout conf, TimeoutRetries = cf_TimeoutRetries conf,
                          MaxBufferSize = cf_MaxBufferSize conf, SessionsProvider = cf_SessionsProvider conf,
                          sessMgr = None, svcMap = [], configOnce = False,
                          srv_pm = PMPool_init \<lparr>pm_items = [], pm_picks = ps, pm_New = False\<rparr>\<rparr>,
                services = [], conns = [], sess_pkg = pkg, MsgChan = [], pushing = True, gsvcid = 0, gPacketId = 0,
                callbacks = [], tw_calls = [], bufioWriter2kPool = [], bufioWriter4kPool = [], bw_picks = []\<rparr> }"

end
