(* ===== verification/Broker_Stop.thy ===== *)
theory Broker_Stop
  imports Broker_Props Config
begin

text \<open>
  The steps by which a service ends, \<open>deleteMapAndLogout\<close>, \<open>newStopConnect\<close> and \<open>exceptionDisconnect\<close>: what they change
  for a device that is connected, and the read that brings the goroutine of a service there.
\<close>

section \<open>Reading at the end of the stream\<close>

text \<open>The goroutine of \<open>s\<close> has cut everything that has arrived into packets, and the next read fails with \<open>e\<close>.\<close>

definition at_end :: "broker \<Rightarrow> nat \<Rightarrow> error \<Rightarrow> bool" where
  "at_end w s e \<longleftrightarrow>
     s < length (services w) \<and> r_conn (services w ! s) < length (conns w) \<and> held (services w ! s) = [] \<and> held_err (services w ! s) = None
     \<and> conn_Read (conns w ! r_conn (services w ! s)) defaultReadSize = ([], Some e, conns w ! r_conn (services w ! s))"

lemma at_end_read:
  assumes "at_end w s e"
  shows "on_reader s getPeekMessageSize w = (Done (Inl e), w)"
proof -
  let ?v = "services w ! s"
  let ?c = "conns w ! r_conn ?v"
  have e: "s < length (services w)" "r_conn ?v < length (conns w)" "held ?v = []" "held_err ?v = None"
      "conn_Read ?c defaultReadSize = ([], Some e, ?c)"
    using assms by (auto simp: at_end_def)
  have "br_fill 100 ?c [] = (?c, [], Some e)" using e(5) by (simp add: numeral_eq_Suc)
  then have "br_Peek 2 (?c, [], None) = (([], Some e), (?c, [], None))" by (simp add: br_Peek.simps)
  then have g: "getPeekMessageSize (?c, [], None) = (Inl e, (?c, [], None))"
    by (simp add: getPeekMessageSize_def peek_header.simps [of 2])
  have v: "?v\<lparr>held := [], held_err := None\<rparr> = ?v" using e(3,4) by (cases ?v) simp
  show ?thesis using e g by (simp add: v on_reader_def get_svc_def on_conn_def upd_svc_def act_simps)
qed

lemma at_end_round:
  assumes "at_end w s e"
  shows "receive_round s w = andThen (exceptionDisconnect s (Some e)) (\<lambda>_. yield False) w"
  using at_end_read [OF assms] by (simp add: receive_round_def act_simps Let_def)

text \<open>However the round ends, when it does not go on the goroutine is over.\<close>

lemma receiverData_over:
  assumes "receive_round s w = (r, w')" and "r \<noteq> Done True" and "s < length (services w')"
  shows "receiverData s w = (Done (), w'\<lparr>services := (services w')[s := (services w' ! s)\<lparr>receiving := False\<rparr>]\<rparr>)"
  using assms by (simp add: receiverData_def upd_svc_def)

section \<open>Releasing a service\<close>

definition provider_of :: "broker \<Rightarrow> memProvider" where
  "provider_of w = sess_objects (sess_pkg w) ! the (sessMgr (server w))"

definition session_name :: "Session \<Rightarrow> bytes" where
  "session_name ss = (case Cmsg ss of Some c \<Rightarrow> clientId c | None \<Rightarrow> session_id ss)"

lemma del_session_ok:
  assumes "session_of w s ss"
  shows "\<exists>pkg. del_session s w = (Done (), w\<lparr>sess_pkg := pkg\<rparr>)
     \<and> st (provider_of (w\<lparr>sess_pkg := pkg\<rparr>)) = AList.delete (session_name ss) (st (provider_of w))
     \<and> sess_at (w\<lparr>sess_pkg := pkg\<rparr>) = sess_at w \<and> length (sess_objects pkg) = length (sess_objects (sess_pkg w))"
proof -
  obtain p k where p: "s < length (services w)" "sess (services w ! s) = Some p" "sess_at w p = Some ss" "sessMgr (server w) = Some k"
      "k < length (sess_objects (sess_pkg w))"
    using assms by (auto simp: session_of_def sess_at_def split: option.splits if_splits)
  let ?P = "sess_objects (sess_pkg w) ! k"
  let ?pkg = "(sess_pkg w)\<lparr>sess_objects := (sess_objects (sess_pkg w))[k := ?P\<lparr>st := AList.delete (session_name ss) (st ?P)\<rparr>]\<rparr>"
  have "del_session s w = (Done (), w\<lparr>sess_pkg := ?pkg\<rparr>)"
    using p by (simp add: del_session_def get_svc_def act_simps Session_ID_def session_name_def sessions_Del_def on_sess_provider_def memProvider_Del_def)
  moreover have "sess_at (w\<lparr>sess_pkg := ?pkg\<rparr>) = sess_at w" using p(4,5) by (simp add: sess_at_def fun_eq_iff)
  ultimately show ?thesis using p(4,5) by (intro exI [of _ ?pkg]) (simp add: provider_of_def)
qed

text \<open>\<open>newStopConnect\<close> of a service that still runs.\<close>

lemma newStopConnect_ok:
  assumes v: "svc_done (services w ! s) = Some False" "keepAliveCH (services w ! s) = Some False" "svc_conn (services w ! s) = Some c"
      "\<not> closeLock (services w ! s)" "c < length (conns w)" and ss: "session_of w s ss" "Session_Stop ss = Some ss'"
  shows "\<exists>w'. newStopConnect s w = (Done (), w') \<and> server w' = server w \<and> conns w' = (conns w)[c := conn_Close (conns w ! c)]
     \<and> services w' = (services w)[s := (services w ! s)\<lparr>svc_done := Some True, keepAliveCH := Some True, svc_conn := None, sess := None\<rparr>]
     \<and> st (provider_of w') = st (provider_of w) \<and> length (sess_objects (sess_pkg w')) = length (sess_objects (sess_pkg w))"
proof -
  let ?v = "services w ! s"
  have s: "s < length (services w)" using ss(1) by (simp add: session_of_def)
  let ?w1 = "w\<lparr>services := (services w)[s := ?v\<lparr>svc_done := Some True\<rparr>]\<rparr>"
  let ?w2 = "?w1\<lparr>conns := (conns w)[c := conn_Close (conns w ! c)]\<rparr>"
  let ?w3 = "?w2\<lparr>services := (services w)[s := ?v\<lparr>svc_done := Some True, keepAliveCH := Some True, svc_conn := None, closeLock := True\<rparr>]\<rparr>"
  have s3: "session_of ?w3 s ss" using ss(1) s by (simp add: session_of_def)
  let ?f = "\<lambda>ss g. do { ss \<leftarrow> Session_Stop ss; Some (((), ss), g) }"
  have 4: "on_session s ?f ?w3 = (Done (), put_session s ss' (?w3\<lparr>gPacketId := gPacketId ?w3\<rparr>))"
    by (rule on_session_ok [OF s3]) (simp add: ss(2))
  let ?w4 = "put_session s ss' (?w3\<lparr>gPacketId := gPacketId ?w3\<rparr>)"
  let ?w5 = "?w4\<lparr>services := (services w)[s := ?v\<lparr>svc_done := Some True, keepAliveCH := Some True, svc_conn := None, sess := None, closeLock := False\<rparr>]\<rparr>"
  have "newStopConnect s w = (Done (), ?w5)"
    unfolding newStopConnect_def using s v 4
    by (simp add: act_simps get_svc_def upd_svc_def on_conn_def)
  moreover have "?v\<lparr>svc_done := Some True, keepAliveCH := Some True, svc_conn := None, sess := None, closeLock := False\<rparr>
      = ?v\<lparr>svc_done := Some True, keepAliveCH := Some True, svc_conn := None, sess := None\<rparr>" using v(4) by (cases ?v) simp
  moreover have "st (provider_of ?w5) = st (provider_of w)"
    using ss(1) s by (auto simp: provider_of_def put_session_def put_sess_def session_of_def sess_at_def nth_update_if split: option.splits if_splits)
  moreover have "length (sess_objects (sess_pkg ?w5)) = length (sess_objects (sess_pkg w))"
    by (simp add: put_session_def put_sess_def split: option.split)
  ultimately show ?thesis using s by (intro exI [of _ ?w5]) simp
qed

text \<open>A device that is connected by the service \<open>s\<close> on the connection \<open>c\<close>, with the session \<open>ss\<close>.\<close>

definition connected :: "broker \<Rightarrow> nat \<Rightarrow> nat \<Rightarrow> Session \<Rightarrow> bool" where
  "connected w s c ss \<longleftrightarrow>
     session_of w s ss \<and> map_of (svcMap (server w)) (service_key (services w ! s)) = Some s
     \<and> svc_done (services w ! s) = Some False \<and> keepAliveCH (services w ! s) = Some False \<and> svc_conn (services w ! s) = Some c
     \<and> \<not> closeLock (services w ! s) \<and> c < length (conns w)"

text \<open>A service as it is left: taken out of the table, its session deleted and stopped, its connection closed.\<close>

definition take_down :: "nat \<Rightarrow> string \<Rightarrow> (unit, broker) act" where
  "take_down s r = andThen (set_reason s r) (\<lambda>_. andThen (deleteMapAndLogout s) (\<lambda>_. drop_service s))"

abbreviation down :: "service \<Rightarrow> string \<Rightarrow> service" where
  "down v r \<equiv> v\<lparr>reason := r, svc_done := Some True, keepAliveCH := Some True, svc_conn := None, sess := None\<rparr>"

lemma take_down_ok:
  assumes "connected w s c ss" and "Session_Stop ss = Some ss'"
  shows "\<exists>w'. take_down s r w = (Done (), w') \<and> conns w' = (conns w)[c := conn_Close (conns w ! c)]
     \<and> server w' = (server w)\<lparr>svcMap := AList.delete (service_key (services w ! s)) (svcMap (server w))\<rparr>
     \<and> services w' = (services w)[s := down (services w ! s) r]
     \<and> st (provider_of w') = AList.delete (session_name ss) (st (provider_of w))
     \<and> length (sess_objects (sess_pkg w')) = length (sess_objects (sess_pkg w))"
proof -
  let ?v = "services w ! s"
  have c: "session_of w s ss" "svc_done ?v = Some False" "keepAliveCH ?v = Some False" "svc_conn ?v = Some c" "\<not> closeLock ?v"
      "c < length (conns w)" using assms(1) by (auto simp: connected_def)
  have s: "s < length (services w)" using c(1) by (simp add: session_of_def)
  let ?srv = "(server w)\<lparr>svcMap := AList.delete (service_key ?v) (svcMap (server w))\<rparr>"
  let ?w1 = "w\<lparr>services := (services w)[s := ?v\<lparr>reason := r\<rparr>], server := ?srv\<rparr>"
  have at: "sess_at ?w1 = sess_at w" by (simp add: sess_at_def fun_eq_iff cong: option.case_cong if_cong)
  have s1: "session_of ?w1 s ss" using c(1) s at by (simp add: session_of_def)
  obtain pkg where pkg: "del_session s ?w1 = (Done (), ?w1\<lparr>sess_pkg := pkg\<rparr>)"
      "st (provider_of (?w1\<lparr>sess_pkg := pkg\<rparr>)) = AList.delete (session_name ss) (st (provider_of ?w1))"
      "sess_at (?w1\<lparr>sess_pkg := pkg\<rparr>) = sess_at ?w1" "length (sess_objects pkg) = length (sess_objects (sess_pkg ?w1))"
    using del_session_ok [OF s1] by blast
  let ?w2 = "?w1\<lparr>sess_pkg := pkg\<rparr>"
  have s2: "session_of ?w2 s ss" using s1 s by (auto simp: session_of_def pkg(3))
  obtain w' where w': "newStopConnect s ?w2 = (Done (), w')" "server w' = server ?w2" "conns w' = (conns ?w2)[c := conn_Close (conns ?w2 ! c)]"
     "services w' = (services ?w2)[s := (services ?w2 ! s)\<lparr>svc_done := Some True, keepAliveCH := Some True, svc_conn := None, sess := None\<rparr>]"
     "st (provider_of w') = st (provider_of ?w2)" "length (sess_objects (sess_pkg w')) = length (sess_objects (sess_pkg ?w2))"
    using newStopConnect_ok [of ?w2 s c, OF _ _ _ _ _ s2 assms(2)] s c by auto
  have "deleteMapAndLogout s (w\<lparr>services := (services w)[s := ?v\<lparr>reason := r\<rparr>]\<rparr>) = (Done None, ?w1)"
    using s by (simp add: deleteMapAndLogout_def get_svc_def act_simps Logout_def service_key_def)
  then have "take_down s r w = (Done (), w')"
    using s pkg(1) w'(1) by (simp add: take_down_def act_simps upd_svc_def drop_service_def)
  then show ?thesis using w' pkg(2,4) s by (intro exI [of _ w']) (simp add: provider_of_def)
qed

text \<open>An error other than the end of the stream: the panic on the nil result of \<open>Logout\<close> stops \<open>exceptionDisconnect\<close> half-way.\<close>

lemma exceptionDisconnect_error:
  assumes "s < length (services w)" and "t < length (services w)" and "map_of (svcMap (server w)) (service_key (services w ! s)) = Some t"
    and "e \<noteq> io_EOF"
  shows "\<exists>r. exceptionDisconnect s (Some e) w = (Panicked, w\<lparr>services := (services w)[t := (services w ! t)\<lparr>reason := r\<rparr>],
      server := (server w)\<lparr>svcMap := AList.delete (service_key (services w ! t)) (svcMap (server w))\<rparr>\<rparr>)"
proof -
  define r where "r = (if go_contains (error_text e) (str ''connection reset by peer'')
     then ''LogReasonValConnectionResetByPeer'' else ''LogReasonValKeepaliveTimeout'')"
  have "deleteMapAndLogout t (w\<lparr>services := (services w)[t := (services w ! t)\<lparr>reason := r\<rparr>]\<rparr>) = (Done None,
      w\<lparr>services := (services w)[t := (services w ! t)\<lparr>reason := r\<rparr>],
        server := (server w)\<lparr>svcMap := AList.delete (service_key (services w ! t)) (svcMap (server w))\<rparr>\<rparr>)"
    using assms(2) by (simp add: deleteMapAndLogout_def get_svc_def act_simps Logout_def service_key_def)
  then show ?thesis
    using assms by (intro exI [of _ r]) (simp add: exceptionDisconnect_def get_svc_def act_simps upd_svc_def r_def [symmetric] del: error_text.simps)
qed

section \<open>A device that connects again\<close>

text \<open>A new service for the key can take the place of the one that has it, if any, on a connection other than \<open>c\<close>.\<close>

definition replaceable :: "broker \<Rightarrow> bytes \<Rightarrow> nat \<Rightarrow> bool" where
  "replaceable w key c \<longleftrightarrow>
     (case map_of (svcMap (server w)) key of
        None \<Rightarrow> True
      | Some s \<Rightarrow> service_key (services w ! s) = key \<and> (\<exists>c' ss. connected w s c' ss \<and> Session_Stop ss \<noteq> None \<and> c' \<noteq> c))"

lemma delete_none: "map_of xs k = None \<Longrightarrow> AList.delete k xs = xs"
  by (induction xs) (auto split: if_splits)

lemma tick_off_ok:
  assumes "replaceable w key c"
  shows "\<exists>w'. tick_off key w = (Done (), w') \<and> server w' = (server w)\<lparr>svcMap := AList.delete key (svcMap (server w))\<rparr>
     \<and> length (services w') = length (services w) \<and> length (conns w') = length (conns w) \<and> conns w' ! c = conns w ! c
     \<and> length (sess_objects (sess_pkg w')) = length (sess_objects (sess_pkg w))
     \<and> (\<forall>j. map_of (svcMap (server w)) key \<noteq> Some j \<longrightarrow> services w' ! j = services w ! j)
     \<and> (\<forall>j d. map_of (svcMap (server w)) key = Some j \<and> svc_conn (services w ! j) = Some d
           \<longrightarrow> services w' ! j = down (services w ! j) ''LogReasonValTickOffDevice'' \<and> closed (conns w' ! d))"
proof (cases "map_of (svcMap (server w)) key")
  case None
  then show ?thesis by (intro exI [of _ w]) (simp add: tick_off_def act_simps delete_none)
next
  case (Some s)
  then obtain c' ss ss' where c: "connected w s c' ss" "Session_Stop ss = Some ss'" "c' \<noteq> c" "service_key (services w ! s) = key"
    using assms by (auto simp: replaceable_def)
  have s: "s < length (services w)" "svc_conn (services w ! s) = Some c'" "c' < length (conns w)"
    using c(1) by (auto simp: connected_def session_of_def)
  have "tick_off key w = take_down s ''LogReasonValTickOffDevice'' w"
    using Some by (simp add: tick_off_def take_down_def act_simps)
  with take_down_ok [OF c(1,2), of "''LogReasonValTickOffDevice''"] c(3,4) s Some show ?thesis
    by (auto simp: conn_Close_def)
qed

end
