(* ===== verification/Broker_Connect.thy ===== *)
theory Broker_Connect
  imports Broker_Stop
begin

text \<open>
  A new connection: \<open>handleConnection\<close> turns the CONNECT of a device into a service with a session, to which messages
  can be pushed and which listens on the connection.
\<close>

section \<open>The CONNECT packet\<close>

lemma connect_arrives:
  assumes "packet_bytes ws (PConnect f v ka ci wl (Some un) (Some pw))"
  shows "\<exists>x req k. ws = message_wire (MConnect x) \<and> framed CONNECT ws
     \<and> connect_Decode NewConnectMessage (slice_of ws) = Some (req, k, None) \<and> carries req x
     \<and> clientId req = ci \<and> clientId x = ci \<and> username req = un \<and> password req = pw \<and> keepAlive req = ka
     \<and> (WillFlag x \<longrightarrow> wl = Some (willTopic x, willMessage x)) \<and> pw \<noteq> []
     \<and> content (MConnect x) = PConnect f v ka ci wl (Some un) (Some pw)"
proof -
  obtain m where m: "message_ok m" "content m = PConnect f v ka ci wl (Some un) (Some pw)" "ws = message_wire m"
    using assms by (auto simp: packet_bytes_def)
  then obtain x where x: "m = MConnect x" by (cases m) simp_all
  let ?b = "type_byte CONNECT"
  have ok: "sendable ?b (connect_msglen x) x" "connect_ok x" using m(1) x by simp_all
  have fl: "UsernameFlag x" "PasswordFlag x" "username x = un" "password x = pw" "clientId x = ci" "keepAlive x = ka"
    using m(2) x by (auto split: if_splits)
  let ?src = "slice_of (connect_wire ?b x)"
  let ?req = "(connect_fields x (decoded NewConnectMessage ?src (connect_msglen x)))\<lparr>dirty := False\<rparr>"
  have ws: "ws = connect_wire ?b x" using m(3) x by simp
  have d: "connect_Decode NewConnectMessage ?src = Some (?req, int (length (connect_wire ?b x)), None)"
    using connect_Decode_ok [OF ok(1) New_flag_byte(1) refl ok(2), of ?src "[]"] by simp
  have "carries ?req x"
    by (rule carries_received) (use m(1) x in \<open>simp_all add: connect_fields_def decoded_def assign_dbuf_def\<close>)
  moreover have "framed CONNECT ws" using mq.wire_law [OF m(1)] m(3) x by (auto simp: framed_def)
  moreover have "pw \<noteq> []" using ok(2) fl by (auto simp: connect_ok_def)
  moreover have "WillFlag x \<longrightarrow> wl = Some (willTopic x, willMessage x)" using m(2) x by auto
  ultimately show ?thesis using d fl ws m(2,3) x
    by (intro exI [of _ x] exI [of _ ?req] exI [of _ "int (length (connect_wire ?b x))"]) (simp add: connect_fields_def)
qed

text \<open>Reading uses up the portions in which the network delivers.\<close>

lemma conn_Read_chunks: "conn_Read c sz = (b, e, c') \<Longrightarrow> set (chunks c') \<subseteq> set (chunks c)"
  by (cases "chunks c") (auto simp: conn_Read_def Let_def split: if_splits)

lemma read_body_chunks: "read_body c buf n = (r, c') \<Longrightarrow> set (chunks c') \<subseteq> set (chunks c)"
proof (induction c buf n rule: read_body.induct)
  case (1 c buf n)
  obtain b e c1 where 2: "conn_Read c n = (b, e, c1)" by (cases "conn_Read c n")
  show ?case
  proof (cases "n = 0 \<or> e \<noteq> None")
    case True
    with conn_Read_chunks [OF 2] "1.prems" 2 show ?thesis by (auto simp: read_body.simps [of c buf n] split: if_splits)
  next
    case False
    with "1.prems" 2 have "read_body c1 (buf @ b) (n - length b) = (r, c')" by (simp add: read_body.simps [of c buf n])
    with "1.IH" [OF _ 2 [symmetric] refl] False have "set (chunks c') \<subseteq> set (chunks c1)" by simp
    with conn_Read_chunks [OF 2] show ?thesis by (rule subset_trans [rotated])
  qed
qed

lemma read_header_chunks: "read_header c buf = (r, c') \<Longrightarrow> set (chunks c') \<subseteq> set (chunks c)"
proof (induction c buf rule: read_header.induct)
  case (1 c buf)
  obtain b e c1 where 2: "conn_Read c 1 = (b, e, c1)" by (cases "conn_Read c 1")
  note eq = read_header.simps [of c buf, unfolded 2]
  show ?case
  proof (cases "5 < length buf \<or> e \<noteq> None")
    case True
    with conn_Read_chunks [OF 2] "1.prems" show ?thesis by (auto simp: eq split: if_splits)
  next
    case False
    note 3 = conn_Read_chunks [OF 2]
    consider (none) "b = []" "read_header c1 buf = (r, c')" | (stop) "c' = c1" | (go) "b \<noteq> []" "\<not> (1 < length (buf @ b) \<and> hd b < 0x80)" "read_header c1 (buf @ b) = (r, c')"
      using False "1.prems" by (auto simp: eq Let_def split: if_splits)
    then show ?thesis
    proof cases
      case none
      with False "1.IH"(1) [OF _ 2 [symmetric] refl] have "set (chunks c') \<subseteq> set (chunks c1)" by simp
      with 3 show ?thesis by (rule subset_trans [rotated])
    next
      case stop
      with 3 show ?thesis by simp
    next
      case go
      with False "1.IH"(2) [OF _ 2 [symmetric] refl _ _ refl] have "set (chunks c') \<subseteq> set (chunks c1)" by simp
      with 3 show ?thesis by (rule subset_trans [rotated])
    qed
  qed
qed

lemma getMessageBuffer_chunks: "getMessageBuffer (Some c) = (Inr ws, Some c') \<Longrightarrow> set (chunks c') \<subseteq> set (chunks c)"
  by (auto simp: getMessageBuffer_def Let_def split: prod.splits sum.splits dest!: read_header_chunks read_body_chunks)

lemma read_connect_ok:
  assumes "c < length (conns w)" and "\<not> closed (conns w ! c)" and "incoming (conns w ! c) = ws @ rest" and "framed t ws"
    and "connect_Decode NewConnectMessage (slice_of ws) = Some (req, k, None)" and "0 \<notin> set (chunks (conns w ! c))"
  shows "\<exists>ks. 0 \<notin> set ks \<and> read_connect c w = (Done (Inr (Some (req, None))),
           w\<lparr>conns := (conns w)[c := (conns w ! c)\<lparr>incoming := rest, chunks := ks\<rparr>]\<rparr>)"
proof -
  obtain c' where c': "getMessageBuffer (Some (conns w ! c)) = (Inr ws, Some c')" "read_upto (conns w ! c) rest c'"
    using getMessageBuffer_framed [OF assms(2,4,3)] by blast
  then obtain ks where "c' = (conns w ! c)\<lparr>incoming := rest, chunks := ks\<rparr>" by (auto simp: read_upto_def)
  moreover from this getMessageBuffer_chunks [OF c'(1)] assms(6) have "0 \<notin> set ks" by auto
  ultimately show ?thesis using c'(1) assms(1,5)
    by (auto simp: read_connect_def on_conn_def getConnectMessage_def)
qed

lemma writeMessage_wire:
  assumes "message_good m" and "writable c"
  shows "\<exists>m2. writeMessage (Some c) m g = Some ((None, m2, Some (wrote c (message_wire m2))), snd (sent m g))
           \<and> message_ok m2 \<and> content m2 = fst (sent m g)"
proof -
  obtain n m1 where 1: "message_Len m = Some (n, m1)" using mq.len_law [OF assms(1)] by blast
  obtain m2 where 2: "message_Encode m1 (make_bytes n) g = Some ((m2, slice_of (message_wire m2), n, None), snd (sent m g))"
    "message_ok m2" "content m2 = fst (sent m g)" "n = int (length (message_wire m2))"
    using mq.enc_law [OF assms(1) 1, of g] by blast
  then have "writeMessage (Some c) m g = Some ((None, m2, Some (wrote c (message_wire m2))), snd (sent m g))"
    using 1 assms(2) by (simp add: writeMessage_def writeMessageBuffer_def conn_Write_def writable_def del: message_wire.simps)
  with 2(2,3) show ?thesis by blast
qed

section \<open>A session for the device\<close>

lemma Session_Init_Pub1ack:
  assumes "Session_Init ss req ks = Some (ss', req', None)"
  shows "\<exists>q. newAckqueue defaultQueueSize ''Pub1ack'' ks = Some q \<and> Pub1ack ss' = Some q"
  using assms by (auto simp: Session_Init_def Let_def split: if_splits Option.bind_splits)

lemma new_pub_queue:
  assumes "newAckqueue defaultQueueSize ''Pub1ack'' ks = Some q"
  shows "pub_queue w s q []"
  using aq_rep_new [OF assms, of undefined] by (simp add: aq_rep_def pub_queue_def)

text \<open>
  \<open>getSession\<close> gives a service without a session a new one.
\<close>

lemma getSession_ok:
  assumes s: "s < length (services w)" "sess (services w ! s) = None" and k: "sessMgr (server w) = Some k"
      "k < length (sess_objects (sess_pkg w))"
    and c: "carries req x" "clientId req \<noteq> []" "WillFlag x \<longrightarrow> ValidTopic (willTopic x)"
  shows "\<exists>w' req' ss q p. getSession s req resp rnd ks w = (Done (req', SetSessionPresent resp False, None), w')
           \<and> services w' = (services w)[s := (services w ! s)\<lparr>sess := Some p\<rparr>] \<and> conns w' = conns w \<and> server w' = server w
           \<and> gPacketId w' = gPacketId w \<and> MsgChan w' = MsgChan w \<and> callbacks w' = callbacks w
           \<and> session_of w' s ss \<and> Pub1ack ss = Some q \<and> newAckqueue defaultQueueSize ''Pub1ack'' ks = Some q
           \<and> session_id ss = clientId x \<and> (\<exists>cm. Cmsg ss = Some cm \<and> content (MConnect cm) = content (MConnect x))
           \<and> queues_empty ss"
proof -
  define P where "P = sess_objects (sess_pkg w) ! k"
  define p where "p = length (sess_store P)"
  define P1 where "P1 = P\<lparr>st := AList.update (clientId req) p (st P), sess_store := sess_store P @ [session0 (clientId req)]\<rparr>"
  define pkg where "pkg = (sess_pkg w)\<lparr>sess_objects := (sess_objects (sess_pkg w))[k := P1]\<rparr>"
  define w1 where "w1 = w\<lparr>sess_pkg := pkg, services := (services w)[s := (services w ! s)\<lparr>sess := Some p\<rparr>]\<rparr>"
  have new: "sessions_New k (sess_pkg w) (clientId req) rnd = Some (pkg, p, None)"
    using c(2) k(2) by (simp add: sessions_New_def on_sess_provider_def memProvider_New_def P_def p_def P1_def pkg_def Let_def)
  obtain ss req' cm where i: "Session_Init (session0 (clientId req)) req ks = Some (ss, req', None)"
      "session_id ss = clientId x" "Cmsg ss = Some cm" "content (MConnect cm) = content (MConnect x)" "queues_empty ss"
    using Session_Init_ok [OF c(1) _ c(3), of "session0 (clientId req)" ks] by (auto simp: session0_def)
  obtain q where q: "newAckqueue defaultQueueSize ''Pub1ack'' ks = Some q" "Pub1ack ss = Some q"
    using Session_Init_Pub1ack [OF i(1)] by blast
  have at: "sess_at w1 p = Some (session0 (clientId req))"
    using k by (simp add: sess_at_def w1_def pkg_def P1_def p_def)
  have s1: "session_of w1 s (session0 (clientId req))" using at s by (simp add: session_of_def w1_def)
  define w2 where "w2 = put_session s ss w1"
  have init: "on_session s (\<lambda>ss g. map_option (\<lambda>(ss, req, err). (((req, err), ss), g)) (Session_Init ss req ks)) w1
      = (Done (req', None), w2)"
    using on_session_ok [OF s1, of "\<lambda>ss g. map_option (\<lambda>(ss, req, err). (((req, err), ss), g)) (Session_Init ss req ks)"
        "(req', None)" ss "gPacketId w1"] i(1) by (simp add: w2_def)
  have u: "upd_svc s (\<lambda>v. v\<lparr>sess := Some p\<rparr>) (w\<lparr>sess_pkg := pkg\<rparr>) = (Done (), w1)" using s by (simp add: upd_svc_def w1_def)
  have g: "get_svc s w = (Done (services w ! s), w)" using s by (simp add: get_svc_def)
  have "getSession s req resp rnd ks w = (Done (req', SetSessionPresent resp False, None), w2)"
    unfolding getSession_def using c(2) s(2) k(1) new u init g by (simp add: act_simps Let_def)
  moreover have "session_of w2 s ss" unfolding w2_def by (rule session_of_put [OF s1])
  ultimately show ?thesis using i q by (intro exI [of _ w2] exI [of _ req'] exI [of _ ss] exI [of _ q] exI [of _ p])
      (simp add: w2_def w1_def del: content.simps)
qed

section \<open>The answer\<close>

lemma server_write_ok:
  assumes "c < length (conns w)" and "writable (conns w ! c)" and "message_good m" and "\<not> needs_id m"
  shows "\<exists>ws. packet_bytes ws (content m) \<and>
    server_write c m w = (Done None, w\<lparr>conns := (conns w)[c := wrote (conns w ! c) ws]\<rparr>)"
proof -
  have "sent m (gPacketId w) = (content m, gPacketId w)" using assms(4) by (simp add: sent_def)
  then obtain m2 where "writeMessage (Some (conns w ! c)) m (gPacketId w) = Some ((None, m2, Some (wrote (conns w ! c) (message_wire m2))), gPacketId w)"
      "message_ok m2" "content m2 = content m"
    using writeMessage_wire [OF assms(3,2), of "gPacketId w"] by auto
  then show ?thesis using assms(1) by (intro exI [of _ "message_wire m2"]) (auto simp: server_write_def packet_bytes_def)
qed

lemma accepted_connack:
  "message_good (MConnack (SetReturnCode (SetSessionPresent NewConnackMessage False) ConnectionAccepted))"
  "content (MConnack (SetReturnCode (SetSessionPresent NewConnackMessage False) ConnectionAccepted)) = PConnack False ConnectionAccepted"
  "\<not> needs_id (MConnack m)"
  by code_simp+

text \<open>
  The device \<open>dn\<close> of the product \<open>pk\<close>, whose CONNECT was \<open>p\<close>, is served by \<open>s\<close> on the connection \<open>c\<close>: it is connected, its
  session holds the CONNECT, nothing waits for its acknowledgement, and the goroutine of the service listens.
\<close>

definition serves :: "broker \<Rightarrow> nat \<Rightarrow> nat \<Rightarrow> bytes \<Rightarrow> bytes \<Rightarrow> packet \<Rightarrow> bool" where
  "serves w s c pk dn p \<longleftrightarrow>
     (\<exists>ss cm. connected w s c ss \<and> Cmsg ss = Some cm \<and> content (MConnect cm) = p \<and> queues_empty ss)
     \<and> productKey (services w ! s) = pk \<and> deviceName (services w ! s) = dn \<and> receiving (services w ! s)
     \<and> live w s c [] \<and> listening w s c"

text \<open>What \<open>accept_service\<close> does for a service that was just allocated.\<close>

lemma accept_service_ok:
  assumes s: "s < length (services w)" "sess (services w ! s) = None" "svc_conn (services w ! s) = Some c"
      "svc_done (services w ! s) = Some False" "keepAliveCH (services w ! s) = Some False" "\<not> closeLock (services w ! s)"
      "pm_New (svc_pm (services w ! s))"
    and k: "sessMgr (server w) = Some k" "k < length (sess_objects (sess_pkg w))"
    and c: "carries req x" "clientId req \<noteq> []" "WillFlag x \<longrightarrow> ValidTopic (willTopic x)"
    and n: "c < length (conns w)" "writable (conns w ! c)" "0 \<notin> set (chunks (conns w ! c))"
  defines "v \<equiv> services w ! s"
  shows "\<exists>w' ws. accept_service c s (service_key v) req NewConnackMessage rnd ks w = (Done (Some s, None), w')
           \<and> packet_bytes ws (PConnack False ConnectionAccepted) \<and> conns w' = (conns w)[c := wrote (conns w ! c) ws]
           \<and> server w' = (server w)\<lparr>svcMap := AList.update (service_key v) s (svcMap (server w))\<rparr>
           \<and> serves w' s c (productKey v) (deviceName v) (content (MConnect x)) \<and> arrived w' s = incoming (conns w ! c)
           \<and> length (services w') = length (services w) \<and> (\<forall>j. j \<noteq> s \<longrightarrow> services w' ! j = services w ! j)"
proof -
  let ?key = "service_key v"
  let ?resp = "SetReturnCode (SetSessionPresent NewConnackMessage False) ConnectionAccepted"
  obtain w1 req' ss q p cm where w1: "getSession s req NewConnackMessage rnd ks w = (Done (req', SetSessionPresent NewConnackMessage False, None), w1)"
      "services w1 = (services w)[s := v\<lparr>sess := Some p\<rparr>]" "conns w1 = conns w" "server w1 = server w"
      "session_of w1 s ss" "Pub1ack ss = Some q" "newAckqueue defaultQueueSize ''Pub1ack'' ks = Some q" "session_id ss = clientId x"
      "Cmsg ss = Some cm" "content (MConnect cm) = content (MConnect x)" "queues_empty ss"
    using getSession_ok [OF s(1,2) k c, of NewConnackMessage rnd ks] unfolding v_def by blast
  obtain ws where ws: "packet_bytes ws (PConnack False ConnectionAccepted)"
      "server_write c (MConnack ?resp) w1 = (Done None, w1\<lparr>conns := (conns w)[c := wrote (conns w ! c) ws]\<rparr>)"
    using server_write_ok [of c w1 "MConnack ?resp"] n accepted_connack w1(3) by auto
  let ?w2 = "w1\<lparr>conns := (conns w)[c := wrote (conns w ! c) ws]\<rparr>"
  let ?v = "(services w1 ! s)\<lparr>inStat := increment (inStat (services w1 ! s)) (fst (connect_Len req')),
      outStat := increment (outStat (services w1 ! s)) (fst (connack_Len ?resp))\<rparr>"
  let ?w3 = "?w2\<lparr>services := (services w1)[s := ?v]\<rparr>"
  let ?v4 = "?v\<lparr>r_conn := c, r_d := svc_keepAlive ?v + 5, held := [], held_err := None, receiving := True\<rparr>"
  let ?w4 = "?w2\<lparr>services := (services w1)[s := ?v4]\<rparr>"
  let ?w5 = "?w4\<lparr>server := (server w)\<lparr>svcMap := AList.update ?key s (svcMap (server w))\<rparr>\<rparr>"
  have l: "s < length (services w1)" "services w1 ! s = v\<lparr>sess := Some p\<rparr>" using s(1) w1(2) by simp_all
  note s' = s(3-7) [folded v_def]
  have "receiver_start s ?w3 = (Done (), ?w4)"
    using l s'(1) n by (simp add: receiver_start_def get_svc_def on_conn_def upd_svc_def act_simps writable_def)
  moreover have "upd_svc s (\<lambda>v. v\<lparr>inStat := increment (inStat v) (fst (connect_Len req')),
      outStat := increment (outStat v) (fst (connack_Len ?resp))\<rparr>) ?w2 = (Done (), ?w3)"
    using l by (simp add: upd_svc_def)
  moreover have "storeMap ?key s ?w4 = (Done (), ?w5)" using w1(4) by (simp add: storeMap_def act_simps)
  ultimately have "accept_service c s ?key req NewConnackMessage rnd ks w = (Done (Some s, None), ?w5)"
    unfolding accept_service_def using w1(1) ws(2) by (simp add: act_simps Let_def)
  moreover have at: "sess_at ?w5 = sess_at w1" using w1(4)
    by (simp add: sess_at_def fun_eq_iff cong: option.case_cong if_cong)
  have so: "session_of ?w5 s ss" using w1(5) l at by (simp add: session_of_def)
  have rd: "ready ?w5 s c" using l s'(1) n by (simp add: ready_def)
  have "live ?w5 s c []" unfolding live_def
    using rd so w1(6) new_pub_queue [OF w1(7), of ?w5 s] l s'(4,5) by (auto simp: ready_def)
  moreover have "listening ?w5 s c" using rd l s'(2) n
    by (simp add: listening_def reader_ok_def service_isDone_def writable_def)
  moreover have "connected ?w5 s c ss" unfolding connected_def using so l s' n
    by (simp add: service_key_def update_conv)
  moreover have "arrived ?w5 s = incoming (conns w ! c)" using l n by (simp add: arrived_def stream_of_def)
  ultimately show ?thesis using ws(1) w1(2,9-11) l s(1) unfolding serves_def
    by (intro exI [of _ ?w5] exI [of _ ws]) (simp add: nth_update_if del: content.simps, blast)
qed

section \<open>A new connection\<close>

lemma checkConfiguration_fields:
  assumes "checkConfiguration w = (r, w0)"
  shows "conns w0 = conns w" "services w0 = services w" "sess_pkg w0 = sess_pkg w" "svcMap (server w0) = svcMap (server w)"
  using assms by (auto simp: checkConfiguration_def Let_def split: if_splits prod.splits)

lemma connected_frame:
  assumes "connected w s c ss" and "services w' ! s = services w ! s" and "length (services w) \<le> length (services w')"
    and "length (conns w') = length (conns w)" and "server w' = server w" and "sess_pkg w' = sess_pkg w"
  shows "connected w' s c ss"
proof -
  have "sess_at w' = sess_at w" using assms(5,6) by (simp add: sess_at_def fun_eq_iff cong: option.case_cong if_cong)
  with assms show ?thesis by (auto simp: connected_def session_of_def)
qed

lemma replaceable_frame:
  assumes "replaceable w key c" and "\<forall>j < length (services w). services w' ! j = services w ! j" and "length (services w) \<le> length (services w')"
    and "length (conns w') = length (conns w)" and "server w' = server w" and "sess_pkg w' = sess_pkg w"
  shows "replaceable w' key c"
proof (cases "map_of (svcMap (server w)) key")
  case (Some s)
  then obtain c' ss where c: "connected w s c' ss" "Session_Stop ss \<noteq> None" "c' \<noteq> c" "service_key (services w ! s) = key"
    using assms(1) by (auto simp: replaceable_def)
  have s: "services w' ! s = services w ! s" using assms(2) c(1) by (simp add: connected_def session_of_def)
  with connected_frame [OF c(1) _ assms(3-6)] c Some assms(5) show ?thesis unfolding replaceable_def by auto
qed (simp add: replaceable_def assms(5))

text \<open>A CONNECT whose user name is a device name and a product key.\<close>

lemma connect_request_ok:
  assumes r: "username req = dn @ 38 # pk" "38 \<notin> set dn" "38 \<notin> set pk" "password req \<noteq> []" "keepAlive req \<noteq> 0"
    and k: "sessMgr (server w) = Some k" "k < length (sess_objects (sess_pkg w))"
    and x: "carries req x" "clientId req \<noteq> []" "WillFlag x \<longrightarrow> ValidTopic (willTopic x)"
    and n: "c < length (conns w)" "writable (conns w ! c)" "0 \<notin> set (chunks (conns w ! c))"
    and m: "replaceable w (pk @ str '':'' @ dn) c" "map_of (svcMap (server w)) (pk @ str '':'' @ dn) \<noteq> Some (length (services w))"
  defines "s \<equiv> length (services w)"
  shows "\<exists>w' ws. connect_request c req NewConnackMessage rnd ks ps w = (Done (Some s, None), w')
           \<and> packet_bytes ws (PConnack False ConnectionAccepted) \<and> outgoing (conns w' ! c) = outgoing (conns w ! c) @ ws
           \<and> svcMap (server w') = AList.update (pk @ str '':'' @ dn) s (AList.delete (pk @ str '':'' @ dn) (svcMap (server w)))
           \<and> serves w' s c pk dn (content (MConnect x)) \<and> arrived w' s = incoming (conns w ! c)
           \<and> length (services w') = Suc s \<and> length (conns w') = length (conns w)
           \<and> (\<forall>j d. map_of (svcMap (server w)) (pk @ str '':'' @ dn) = Some j \<and> svc_conn (services w ! j) = Some d
                 \<longrightarrow> services w' ! j = down (services w ! j) ''LogReasonValTickOffDevice'' \<and> closed (conns w' ! d))"
proof -
  let ?key = "pk @ str '':'' @ dn"
  let ?v = "new_service (server w) (gsvcid w + 1) c req pk dn ps"
  let ?w1 = "w\<lparr>gsvcid := gsvcid w + 1, services := services w @ [?v]\<rparr>"
  have sp: "go_split 38 (username req) = [dn, pk]" using r by (simp add: go_split_append go_split_none)
  have key: "go_join [pk, str '':'', dn] [] = ?key" by simp
  have kv: "service_key (?v\<lparr>loginValue := []\<rparr>) = ?key" by (simp add: service_key_def new_service_def)
  have a: "add_service c req pk dn ps w = (Done s, ?w1)" by (simp add: add_service_def Let_def s_def)
  have "replaceable ?w1 ?key c" by (rule replaceable_frame [OF m(1)]) (simp_all add: nth_append)
  from tick_off_ok [OF this] obtain w2 where w2: "tick_off ?key ?w1 = (Done (), w2)"
      "server w2 = (server w)\<lparr>svcMap := AList.delete ?key (svcMap (server w))\<rparr>" "length (services w2) = Suc s"
      "length (conns w2) = length (conns w)" "conns w2 ! c = conns w ! c" "length (sess_objects (sess_pkg w2)) = length (sess_objects (sess_pkg w))"
      "\<forall>j. map_of (svcMap (server w)) ?key \<noteq> Some j \<longrightarrow> services w2 ! j = services ?w1 ! j"
      "\<forall>j d. map_of (svcMap (server w)) ?key = Some j \<and> svc_conn (services ?w1 ! j) = Some d
           \<longrightarrow> services w2 ! j = down (services ?w1 ! j) ''LogReasonValTickOffDevice'' \<and> closed (conns w2 ! d)"
    by (auto simp: s_def)
  have vs: "services w2 ! s = ?v" using w2(7) m(2) by (simp add: s_def)
  let ?w3 = "w2\<lparr>services := (services w2)[s := ?v\<lparr>loginValue := []\<rparr>]\<rparr>"
  have u: "upd_svc s (\<lambda>v. v\<lparr>loginValue := []\<rparr>) w2 = (Done (), ?w3)" using w2(3) vs by (simp add: upd_svc_def)
  have "connect_request c req NewConnackMessage rnd ks ps w = accept_service c s ?key req NewConnackMessage rnd ks ?w3"
    unfolding connect_request_def using sp key a w2(1) u r(4,5) by (simp add: act_simps Let_def Login_def del: go_join.simps)
  moreover have v3: "services ?w3 ! s = ?v\<lparr>loginValue := []\<rparr>" "s < length (services ?w3)" using w2(3) by simp_all
  ultimately obtain w' ws where w': "connect_request c req NewConnackMessage rnd ks ps w = (Done (Some s, None), w')"
      "packet_bytes ws (PConnack False ConnectionAccepted)" "conns w' = (conns w2)[c := wrote (conns w2 ! c) ws]"
      "server w' = (server w2)\<lparr>svcMap := AList.update ?key s (svcMap (server w2))\<rparr>"
      "serves w' s c pk dn (content (MConnect x))" "arrived w' s = incoming (conns w ! c)"
      "\<forall>j. j \<noteq> s \<longrightarrow> services w' ! j = services ?w3 ! j" "length (services w') = length (services ?w3)"
    using accept_service_ok [of s ?w3 c k req x rnd ks] k x n w2(2,4-6)
    unfolding v3 kv by (auto simp: new_service_def PMPool_init_def simp del: content.simps)
  have "services w' ! j = down (services w ! j) ''LogReasonValTickOffDevice'' \<and> closed (conns w' ! d)"
    if j: "map_of (svcMap (server w)) ?key = Some j" "svc_conn (services w ! j) = Some d" for j d
  proof -
    from j m(1) obtain ss where "connected w j d ss" "d \<noteq> c" by (auto simp: replaceable_def connected_def)
    then have "j < length (services w)" "d \<noteq> c" by (auto simp: connected_def session_of_def)
    with w2(8) w'(3,7) j show ?thesis by (auto simp: s_def nth_append)
  qed
  then show ?thesis using w' w2(2-5) n(1) by (intro exI [of _ w'] exI [of _ ws]) simp
qed

lemma connect_ok:
  assumes p: "packet_bytes ws (PConnect f v ka ci wl (Some (dn @ 38 # pk)) (Some pw))" "38 \<notin> set dn" "38 \<notin> set pk"
      "ka \<noteq> 0" "ci \<noteq> []" "\<forall>t b. wl = Some (t, b) \<longrightarrow> ValidTopic t"
    and n: "c < length (conns w)" "writable (conns w ! c)" "incoming (conns w ! c) = ws @ rest" "0 \<notin> set (chunks (conns w ! c))"
    and k: "checkConfiguration w = (Done None, w0)" "sessMgr (server w0) = Some k" "k < length (sess_objects (sess_pkg w0))"
    and m: "replaceable w0 (pk @ str '':'' @ dn) c"
  shows "\<exists>w' ack. handleConnection (Some c) rnd ks ps w = (Done (Some (length (services w)), None), w')
           \<and> packet_bytes ack (PConnack False ConnectionAccepted) \<and> outgoing (conns w' ! c) = outgoing (conns w ! c) @ ack
           \<and> svcMap (server w') = AList.update (pk @ str '':'' @ dn) (length (services w)) (AList.delete (pk @ str '':'' @ dn) (svcMap (server w)))
           \<and> serves w' (length (services w)) c pk dn (PConnect f v ka ci wl (Some (dn @ 38 # pk)) (Some pw))
           \<and> arrived w' (length (services w)) = rest
           \<and> length (services w') = Suc (length (services w)) \<and> length (conns w') = length (conns w)
           \<and> (\<forall>j d. map_of (svcMap (server w)) (pk @ str '':'' @ dn) = Some j \<and> svc_conn (services w ! j) = Some d
                 \<longrightarrow> services w' ! j = down (services w ! j) ''LogReasonValTickOffDevice'' \<and> closed (conns w' ! d))"
proof -
  let ?key = "pk @ str '':'' @ dn"
  let ?s = "length (services w)"
  obtain x req j where x: "framed CONNECT ws" "connect_Decode NewConnectMessage (slice_of ws) = Some (req, j, None)"
      "carries req x" "clientId req = ci" "clientId x = ci" "username req = dn @ 38 # pk" "password req = pw" "keepAlive req = ka"
      "WillFlag x \<longrightarrow> wl = Some (willTopic x, willMessage x)" "pw \<noteq> []"
      "content (MConnect x) = PConnect f v ka ci wl (Some (dn @ 38 # pk)) (Some pw)"
    using connect_arrives [OF p(1)] by blast
  note 0 = checkConfiguration_fields [OF k(1)]
  have op: "\<not> closed (conns w ! c)" using n(2) by (simp add: writable_def)
  obtain js where js: "0 \<notin> set js" "read_connect c w0 = (Done (Inr (Some (req, None))),
      w0\<lparr>conns := (conns w0)[c := (conns w0 ! c)\<lparr>incoming := rest, chunks := js\<rparr>]\<rparr>)"
    using read_connect_ok [of c w0 ws rest CONNECT req j] n(1,3,4) op x(1,2) 0 by auto
  let ?w1 = "w0\<lparr>conns := (conns w0)[c := (conns w0 ! c)\<lparr>incoming := rest, chunks := js\<rparr>]\<rparr>"
  have rp: "replaceable ?w1 ?key c" by (rule replaceable_frame [OF m]) simp_all
  have "map_of (svcMap (server w0)) ?key \<noteq> Some (length (services w0))"
    using m by (auto simp: replaceable_def connected_def session_of_def)
  moreover have "WillFlag x \<longrightarrow> ValidTopic (willTopic x)" using x(9) p(6) by simp
  ultimately obtain w' ack where w': "connect_request c req NewConnackMessage rnd ks ps ?w1 = (Done (Some ?s, None), w')"
      "packet_bytes ack (PConnack False ConnectionAccepted)" "outgoing (conns w' ! c) = outgoing (conns ?w1 ! c) @ ack"
      "svcMap (server w') = AList.update ?key ?s (AList.delete ?key (svcMap (server w)))"
      "serves w' ?s c pk dn (content (MConnect x))" "arrived w' ?s = incoming (conns ?w1 ! c)"
      "length (services w') = Suc ?s" "length (conns w') = length (conns ?w1)"
      "\<forall>j d. map_of (svcMap (server w)) ?key = Some j \<and> svc_conn (services w ! j) = Some d
           \<longrightarrow> services w' ! j = down (services w ! j) ''LogReasonValTickOffDevice'' \<and> closed (conns w' ! d)"
    using connect_request_ok [of req dn pk ?w1 k x c rnd ks ps] x(3-8,10) js(1) p(2-5) n(1,2) k(2,3) rp 0
    by (auto simp: writable_def simp del: content.simps)
  have "handle_connect c rnd ks ps w0 = (Done (Some ?s, None), w')"
    unfolding handle_connect_def using js(2) w'(1) by (simp add: act_simps Let_def)
  then have "handleConnection (Some c) rnd ks ps w = (Done (Some ?s, None), w')"
    unfolding handleConnection_def using k(1) by (simp add: act_simps)
  then show ?thesis using w' n(1) 0 unfolding x(11)
    by (intro exI [of _ w'] exI [of _ ack]) (simp del: content.simps, metis)
qed

text \<open>
  C5: a CONNECT that arrives on a connection is answered by a CONNACK with code 0, and from then on a new service serves the
  device: the table of services maps its key to it, a new session holds the CONNECT, messages can be pushed to it, and its
  goroutine goes on with the bytes that follow the CONNECT.  If the device was connected before, its old connection is
  closed and the old service stopped.  The CONNECT has a client identifier and a keep-alive, and its user name is the
  name of the device and the product key.
\<close>

theorem connect_accepted:
  assumes "packet_bytes ws (PConnect f v ka ci wl (Some (dn @ 38 # pk)) (Some pw))" and "38 \<notin> set dn" and "38 \<notin> set pk"
    and "ka \<noteq> 0" and "ci \<noteq> []" and "\<forall>t b. wl = Some (t, b) \<longrightarrow> ValidTopic t"
    and "c < length (conns w)" and "writable (conns w ! c)" and "incoming (conns w ! c) = ws @ rest"
    and "0 \<notin> set (chunks (conns w ! c))" and "checkConfiguration w = (Done None, w0)" and "sessMgr (server w0) = Some k"
    and "k < length (sess_objects (sess_pkg w0))" and "replaceable w0 (pk @ str '':'' @ dn) c"
  shows "\<exists>w' ack. handleConnection (Some c) rnd ks ps w = (Done (Some (length (services w)), None), w')
           \<and> packet_bytes ack (PConnack False ConnectionAccepted) \<and> outgoing (conns w' ! c) = outgoing (conns w ! c) @ ack
           \<and> svcMap (server w') = AList.update (pk @ str '':'' @ dn) (length (services w)) (AList.delete (pk @ str '':'' @ dn) (svcMap (server w)))
           \<and> serves w' (length (services w)) c pk dn (PConnect f v ka ci wl (Some (dn @ 38 # pk)) (Some pw))
           \<and> arrived w' (length (services w)) = rest
           \<and> (\<forall>j d. map_of (svcMap (server w)) (pk @ str '':'' @ dn) = Some j \<and> svc_conn (services w ! j) = Some d
                 \<longrightarrow> services w' ! j = down (services w ! j) ''LogReasonValTickOffDevice'' \<and> closed (conns w' ! d))"
  using connect_ok [OF assms, of rnd ks ps] by blast

text \<open>The CONNECT of the device \<open>d\<close> of the product \<open>p\<close>, and a broker that was started with the default options.\<close>

definition example_device :: ConnectMessage where
  "example_device =
     NewConnectMessage\<lparr>connectFlags := 0xC2, version := 4, keepAlive := 10, clientId := [99], willTopic := [], willMessage := [],
       username := str ''d&p'', password := [1], dirty := True\<rparr>"

lemma example_device_bytes:
  "packet_bytes (message_wire (MConnect example_device)) (PConnect 0xC2 4 10 [99] None (Some (str ''d'' @ 38 # str ''p'')) (Some [1]))"
proof -
  have v: "validClientId [99]" by code_simp
  have f: "flag_byte example_device (type_byte CONNECT)" by (simp add: example_device_def New_flag_byte)
  have "connect_ok example_device"
    by (simp add: v connect_ok_def check_connect_flags_def example_device_def connect_flag_defs WillQos_def SupportedVersions_def str_def)
  moreover have "0 \<le> connect_msglen example_device" "connect_msglen example_device \<le> maxRemainingLength"
    by (simp_all add: connect_msglen_def example_device_def connect_flag_defs SupportedVersions_def str_def)
  ultimately have "message_ok (MConnect example_device)" using f
    by (simp add: sendable_def MessageType_Valid_iff flags_ok_def type_byte_def DefaultFlags_def) (simp add: example_device_def)
  moreover have "content (MConnect example_device) = PConnect 0xC2 4 10 [99] None (Some (str ''d'' @ 38 # str ''p'')) (Some [1])"
    by code_simp
  ultimately show ?thesis unfolding packet_bytes_def by blast
qed

definition example_start :: "conn list \<Rightarrow> broker option" where
  "example_start cs =
     (case NewOptions None (\<lambda>_. 0) (\<lambda>_. []) (\<lambda>_. False) of
        Inl _ \<Rightarrow> None
      | Inr conf \<Rightarrow> map_option (\<lambda>w. w\<lparr>conns := cs\<rparr>) (MqttXSFServer_Init conf []))"

lemma example_start_ok:
  "\<exists>w w0. example_start cs = Some w \<and> conns w = cs \<and> services w = [] \<and> svcMap (server w) = []
     \<and> checkConfiguration w = (Done None, w0) \<and> sessMgr (server w0) = Some 0 \<and> length (sess_objects (sess_pkg w0)) = 1
     \<and> conns w0 = cs \<and> services w0 = [] \<and> svcMap (server w0) = []"
  by (simp add: example_start_def NewOptions_def MqttXSFServer_Init_def sessions_init_def sessions_Register_def or_str_def
      checkConfiguration_def Let_def sessions_NewManager_def)

lemma example_key: "str ''p'' @ str '':'' @ str ''d'' = str ''p:d''" "38 \<notin> set (str ''d'')" "38 \<notin> set (str ''p'')"
  by (simp_all add: str_def)

theorem connect_accepted_witness:
  "\<exists>w w' ack. example_start [fresh_conn\<lparr>incoming := message_wire (MConnect example_device) @ [0xC0, 0]\<rparr>] = Some w
     \<and> handleConnection (Some 0) None [] [] w = (Done (Some 0, None), w')
     \<and> packet_bytes ack (PConnack False ConnectionAccepted) \<and> outgoing (conns w' ! 0) = ack \<and> svcMap (server w') = [(str ''p:d'', 0)]
     \<and> serves w' 0 0 (str ''p'') (str ''d'') (PConnect 0xC2 4 10 [99] None (Some (str ''d'' @ 38 # str ''p'')) (Some [1]))
     \<and> arrived w' 0 = [0xC0, 0]"
proof -
  let ?cn = "fresh_conn\<lparr>incoming := message_wire (MConnect example_device) @ [0xC0, 0]\<rparr>"
  obtain w w0 where w: "example_start [?cn] = Some w" "conns w = [?cn]" "services w = []" "svcMap (server w) = []"
     "checkConfiguration w = (Done None, w0)" "sessMgr (server w0) = Some 0" "length (sess_objects (sess_pkg w0)) = 1"
     "svcMap (server w0) = []"
    using example_start_ok by blast
  have "\<exists>w' ack. handleConnection (Some 0) None [] [] w = (Done (Some (length (services w)), None), w')
     \<and> packet_bytes ack (PConnack False ConnectionAccepted) \<and> outgoing (conns w' ! 0) = outgoing (conns w ! 0) @ ack
     \<and> svcMap (server w') = AList.update (str ''p:d'') (length (services w)) (AList.delete (str ''p:d'') (svcMap (server w)))
     \<and> serves w' (length (services w)) 0 (str ''p'') (str ''d'') (PConnect 0xC2 4 10 [99] None (Some (str ''d'' @ 38 # str ''p'')) (Some [1]))
     \<and> arrived w' (length (services w)) = [0xC0, 0]"
    using connect_accepted [OF example_device_bytes example_key(2,3), of 0 w "[0xC0, 0]" w0 0 None "[]" "[]"] w example_key(1)
    by (simp add: fresh_conn_def writable_def replaceable_def del: content.simps message_wire.simps)
  then show ?thesis using w(1-4) by (auto simp: fresh_conn_def simp del: content.simps message_wire.simps)
qed

end
