(* ===== verification/Broker_Disconnect.thy ===== *)
theory Broker_Disconnect
  imports Broker_Connect
begin

text \<open>
  The end of a connection: what is released when the device closes the connection, and what is not when it ends
  in another way.
\<close>

section \<open>An example\<close>

text \<open>The device \<open>d\<close> of the product \<open>p\<close> is connected on connection 0; \<open>q\<close> is the queue of its session, six times.\<close>

definition example_session :: "Ackqueue \<Rightarrow> Session" where
  "example_session q =
     (session0 [99])\<lparr>Pub1ack := Some q, Pub2in := Some q, Pub2out := Some q, Suback_queue := Some q, Unsuback_queue := Some q,
       Pingack := Some q, Cmsg := Some (NewConnectMessage\<lparr>clientId := [99]\<rparr>)\<rparr>"

definition example_connected :: "Ackqueue \<Rightarrow> conn list \<Rightarrow> broker" where
  "example_connected q cs =
     (example_broker q [])\<lparr>server := example_server\<lparr>svcMap := [(str ''p:d'', 0)]\<rparr>, services := [example_service 0 ''d''], conns := cs,
       sess_pkg := \<lparr>sess_providers = [(''mem'', 0)], sess_objects = [\<lparr>st = [([99], 0)], sess_store = [example_session q]\<rparr>]\<rparr>\<rparr>"

lemma example_connected_ok:
  assumes "newAckqueue 16 ''Pub1ack'' [] = Some q" and "0 < length cs"
  shows "connected (example_connected q cs) 0 0 (example_session q)" "Session_Stop (example_session q) \<noteq> None"
proof -
  show "connected (example_connected q cs) 0 0 (example_session q)" using assms(2)
    by (simp add: connected_def session_of_def sess_at_def example_connected_def example_defs service_key_def str_def)
  have "\<not> Done_closed q" using assms(1) by (auto simp: newAckqueue_def Let_def split: if_splits)
  then show "Session_Stop (example_session q) \<noteq> None"
    by (simp add: Session_Stop_def example_session_def aq_Stop_def)
qed

section \<open>The device closes the connection\<close>

text \<open>
  C11: when the device closes the connection, its service is taken out of the table of services, its session is deleted from
  the table of sessions, the connection is closed, and the goroutine of the service ends; nothing else is taken out of
  the tables.
\<close>

theorem eof_released:
  assumes "connected w s c ss" and "at_end w s io_EOF" and "Session_Stop ss \<noteq> None"
  shows "\<exists>w'. receiverData s w = (Done (), w')
     \<and> svcMap (server w') = AList.delete (service_key (services w ! s)) (svcMap (server w))
     \<and> st (provider_of w') = AList.delete (session_name ss) (st (provider_of w)) \<and> closed (conns w' ! c)
     \<and> services w' ! s = (down (services w ! s) ''LogReasonValDeviceDisconnect'')\<lparr>receiving := False\<rparr>"
proof -
  obtain ss' where ss': "Session_Stop ss = Some ss'" using assms(3) by auto
  have c: "s < length (services w)" "c < length (conns w)" "map_of (svcMap (server w)) (service_key (services w ! s)) = Some s"
    using assms(1) by (auto simp: connected_def session_of_def)
  obtain w' where w': "take_down s ''LogReasonValDeviceDisconnect'' w = (Done (), w')" "conns w' = (conns w)[c := conn_Close (conns w ! c)]"
     "server w' = (server w)\<lparr>svcMap := AList.delete (service_key (services w ! s)) (svcMap (server w))\<rparr>"
     "services w' = (services w)[s := down (services w ! s) ''LogReasonValDeviceDisconnect'']"
     "st (provider_of w') = AList.delete (session_name ss) (st (provider_of w))"
    using take_down_ok [OF assms(1) ss'] by blast
  have "exceptionDisconnect s (Some io_EOF) w = (Done (), w')"
    using w'(1) c by (simp add: exceptionDisconnect_def get_svc_def act_simps take_down_def)
  then have "receive_round s w = (Done False, w')" using at_end_round [OF assms(2)] by (simp add: act_simps)
  then have "receiverData s w = (Done (), w'\<lparr>services := (services w')[s := (services w' ! s)\<lparr>receiving := False\<rparr>]\<rparr>)"
    by (rule receiverData_over) (use w'(4) c in simp_all)
  then show ?thesis using w' c by (simp add: conn_Close_def provider_of_def)
qed

theorem eof_released_witness:
  "\<exists>q w'. newAckqueue 16 ''Pub1ack'' [] = Some q \<and> receiverData 0 (example_connected q [fresh_conn]) = (Done (), w')
     \<and> svcMap (server w') = [] \<and> st (provider_of w') = [] \<and> closed (conns w' ! 0)"
proof -
  obtain q where q: "newAckqueue 16 ''Pub1ack'' [] = Some q" using new_queue by blast
  let ?w = "example_connected q [fresh_conn]"
  have "at_end ?w 0 io_EOF" by (simp add: at_end_def example_connected_def example_defs conn_Read_def)
  moreover have "connected ?w 0 0 (example_session q)" "Session_Stop (example_session q) \<noteq> None"
    using example_connected_ok [OF q, of "[fresh_conn]"] by simp_all
  ultimately show ?thesis using eof_released [of ?w 0 0 "example_session q"] q
    by (fastforce simp: example_connected_def example_defs provider_of_def session_name_def example_session_def service_key_def str_def)
qed

section \<open>Other ends\<close>

text \<open>The goroutine ends by the panic of \<open>exceptionDisconnect\<close> on an error that is not the end of the stream.\<close>

lemma round_error:
  assumes "receive_round s w = andThen (exceptionDisconnect s (Some e)) f w1" and "e \<noteq> io_EOF"
    and "s < length (services w1)" and "t < length (services w1)" and "map_of (svcMap (server w1)) (service_key (services w1 ! s)) = Some t"
  shows "\<exists>w' r. receiverData s w = (Done (), w') \<and> conns w' = conns w1 \<and> sess_pkg w' = sess_pkg w1
     \<and> server w' = (server w1)\<lparr>svcMap := AList.delete (service_key (services w1 ! t)) (svcMap (server w1))\<rparr>
     \<and> services w' = (let vs = (services w1)[t := (services w1 ! t)\<lparr>reason := r\<rparr>] in vs[s := (vs ! s)\<lparr>receiving := False\<rparr>])"
proof -
  obtain r where r: "exceptionDisconnect s (Some e) w1 = (Panicked, w1\<lparr>services := (services w1)[t := (services w1 ! t)\<lparr>reason := r\<rparr>],
      server := (server w1)\<lparr>svcMap := AList.delete (service_key (services w1 ! t)) (svcMap (server w1))\<rparr>\<rparr>)" (is "_ = (_, ?w2)")
    using exceptionDisconnect_error [OF assms(3-5,2)] by blast
  then have "receive_round s w = (Panicked, ?w2)" using assms(1) by (simp add: act_simps)
  from receiverData_over [OF this] assms(3) have
    "receiverData s w = (Done (), ?w2\<lparr>services := (services ?w2)[s := (services ?w2 ! s)\<lparr>receiving := False\<rparr>]\<rparr>)" by simp
  then show ?thesis by (intro exI [of _ r] exI, intro conjI, assumption) (simp_all add: Let_def)
qed

lemma disconnect_arrives:
  assumes "packet_bytes ws (PPlain DISCONNECT)"
  shows "\<exists>t m0 h k. framed t ws \<and> message_New t = Inr m0 \<and> message_Decode m0 (slice_of ws) = Some (MDisconnect h, k, None)"
proof -
  obtain t m0 m k where m: "framed t ws" "message_New t = Inr m0" "message_Decode m0 (slice_of ws) = Some (m, k, None)" "content m = PPlain DISCONNECT"
    using packet_bytes_read [OF assms] by blast
  from m(4) obtain h where "m = MDisconnect h" by (cases m) auto
  with m(1-3) show ?thesis by blast
qed

text \<open>
  C16: a DISCONNECT, the way in which a device ends a connection by the protocol, takes the service out of the table and ends its
  goroutine, but \<open>exceptionDisconnect\<close> panics before it releases the rest: the session stays in the table of sessions, and
  the connection stays open.
\<close>

theorem disconnect_leaks:
  assumes "connected w s c ss" and "listening w s c" and "arrived w s = ws @ rest" and "packet_bytes ws (PPlain DISCONNECT)"
    and "int (length ws) \<le> MaxBufferSize (server w)" and "Cmsg ss \<noteq> None"
  shows "\<exists>w'. receiverData s w = (Done (), w') \<and> map_of (svcMap (server w')) (service_key (services w ! s)) = None
     \<and> \<not> receiving (services w' ! s) \<and> st (provider_of w') = st (provider_of w) \<and> \<not> closed (conns w' ! c)
     \<and> svc_conn (services w' ! s) = Some c \<and> sess (services w' ! s) = sess (services w ! s)"
proof -
  obtain t m0 h k where m: "framed t ws" "message_New t = Inr m0" "message_Decode m0 (slice_of ws) = Some (MDisconnect h, k, None)"
    using disconnect_arrives [OF assms(4)] by blast
  obtain w1 where w1: "read_on s rest w w1" "receive_round s w = andThen (processIncoming s (MDisconnect h)) (after_packet s) w1"
    using receive_packet [OF assms(2,3) m(1) assms(5) m(2,3)] by blast
  have c: "session_of w s ss" "svc_conn (services w ! s) = Some c" "map_of (svcMap (server w)) (service_key (services w ! s)) = Some s"
    using assms(1) by (auto simp: connected_def)
  have s: "s < length (services w)" "r_conn (services w ! s) = c" "\<not> closed (conns w ! c)" "c < length (conns w)"
    using assms(2) by (auto simp: listening_def ready_def writable_def)
  obtain b i ks where b: "w1 = w\<lparr>services := (services w)[s := (services w ! s)\<lparr>held := b, held_err := None\<rparr>],
      conns := (conns w)[c := (conns w ! c)\<lparr>incoming := i, chunks := ks\<rparr>]\<rparr>"
    using w1(1) s(2) by (auto simp: read_on_def Let_def)
  have s1: "session_of w1 s ss" using c(1) s(1) by (simp add: session_of_def b)
  obtain cm where cm: "Cmsg ss = Some cm" using assms(6) by blast
  let ?f = "\<lambda>ss g. do { c \<leftarrow> Cmsg ss; Some (((), ss\<lparr>Cmsg := Some (SetWillFlag c False)\<rparr>), g) }"
  let ?w2 = "put_session s (ss\<lparr>Cmsg := Some (SetWillFlag cm False)\<rparr>) (w1\<lparr>gPacketId := gPacketId w1\<rparr>)"
  have 2: "on_session s ?f w1 = (Done (), ?w2)" by (rule on_session_ok [OF s1]) (simp add: cm)
  have f2: "services ?w2 = services w1" "server ?w2 = server w" "conns ?w2 = conns w1" by (simp_all add: b)
  have "st (provider_of ?w2) = st (provider_of w)"
    using s1 by (auto simp: provider_of_def put_session_def put_sess_def b nth_update_if split: option.splits)
  moreover have "receive_round s w = andThen (exceptionDisconnect s (Some errDisconnect)) (\<lambda>_. yield False) ?w2"
    unfolding w1(2) by (simp add: processIncoming_def Let_def act_simps 2 after_packet_def [abs_def])
  from round_error [OF this, of s] obtain w' r where "receiverData s w = (Done (), w')" "conns w' = conns w1" "sess_pkg w' = sess_pkg ?w2"
      "server w' = (server w)\<lparr>svcMap := AList.delete (service_key (services w1 ! s)) (svcMap (server w))\<rparr>"
      "services w' = (services w1)[s := (services w1 ! s)\<lparr>reason := r, receiving := False\<rparr>]"
    using c(3) s(1) f2 by (auto simp: b service_key_def Let_def)
  ultimately show ?thesis using s c by (intro exI [of _ w']) (simp add: b provider_of_def f2 service_key_def delete_conv)
qed

lemma example_disconnect: "packet_bytes [0xE0, 0] (PPlain DISCONNECT)" "framed DISCONNECT [0xE0, 0]"
proof -
  have "dirty NewDisconnectMessage" by code_simp
  then have m: "message_ok (MDisconnect NewDisconnectMessage)"
    by (simp add: sendable_def New_flag_byte MessageType_Valid_iff flags_ok_def type_byte_def DefaultFlags_def)
  moreover have w: "message_wire (MDisconnect NewDisconnectMessage) = [0xE0, 0]" by code_simp
  ultimately show "packet_bytes [0xE0, 0] (PPlain DISCONNECT)"
    unfolding packet_bytes_def by (intro exI [of _ "MDisconnect NewDisconnectMessage"]) simp
  show "framed DISCONNECT [0xE0, 0]" using mq.wire_law [OF m] w by (auto simp: framed_def)
qed

lemma example_connected_listens:
  "listening (example_connected q [fresh_conn\<lparr>incoming := bs\<rparr>]) 0 0" "arrived (example_connected q [fresh_conn\<lparr>incoming := bs\<rparr>]) 0 = bs"
  by (simp_all add: listening_def ready_def reader_ok_def writable_def service_isDone_def arrived_def stream_of_def
      example_connected_def example_defs)

theorem disconnect_leaks_witness:
  "\<exists>q w'. newAckqueue 16 ''Pub1ack'' [] = Some q
     \<and> receiverData 0 (example_connected q [fresh_conn\<lparr>incoming := [0xE0, 0]\<rparr>]) = (Done (), w')
     \<and> map_of (svcMap (server w')) (str ''p:d'') = None \<and> \<not> receiving (services w' ! 0) \<and> st (provider_of w') = [([99], 0)]
     \<and> \<not> closed (conns w' ! 0) \<and> sess (services w' ! 0) = Some 0"
proof -
  obtain q where q: "newAckqueue 16 ''Pub1ack'' [] = Some q" using new_queue by blast
  let ?w = "example_connected q [fresh_conn\<lparr>incoming := [0xE0, 0]\<rparr>]"
  have c: "connected ?w 0 0 (example_session q)" by (rule example_connected_ok(1) [OF q]) simp
  have k: "service_key (services ?w ! 0) = str ''p:d''" by (simp add: example_connected_def example_defs service_key_def str_def)
  have f: "sess (services ?w ! 0) = Some 0" "st (provider_of ?w) = [([99], 0)]" "MaxBufferSize (server ?w) = 262144"
    by (simp_all add: example_connected_def example_defs provider_of_def)
  from disconnect_leaks [OF c example_connected_listens(1) _ example_disconnect(1), of "[]"] q k f show ?thesis
    by (auto simp: example_connected_listens(2) example_session_def)
qed

text \<open>
  C17: a packet longer than the limit ends the goroutine, but \<open>exceptionDisconnect\<close> is called with a nil error and panics at
  once: the service stays in the table and the connection open, with nobody left to read from it.
\<close>

theorem oversized_kept:
  assumes "connected w s c ss" and "listening w s c" and "arrived w s = ws @ rest" and "framed t ws"
    and "MaxBufferSize (server w) < int (length ws)"
  shows "\<exists>w'. receiverData s w = (Done (), w') \<and> \<not> receiving (services w' ! s) \<and> connected w' s c ss \<and> \<not> closed (conns w' ! c)"
proof -
  have ok: "reader_ok (reader_of w s)" and s: "s < length (services w)" "r_conn (services w ! s) = c" "\<not> closed (conns w ! c)" "c < length (conns w)"
    using assms(2) by (auto simp: listening_def ready_def writable_def)
  obtain r1 where r1: "getPeekMessageSize (reader_of w s) = (Inr (t, int (length ws)), r1)" "reader_ok r1" "same_conn (reader_of w s) r1"
    using getPeekMessageSize_framed [OF ok _ assms(4), of rest] assms(3) by (auto simp: arrived_def)
  obtain w1 where w1: "on_reader s getPeekMessageSize w = (Done (Inr (t, int (length ws))), w1)" "read_on s (stream_of r1) w w1"
    using on_reader_ok [where f = getPeekMessageSize, OF assms(2) r1] by auto
  obtain b i ks where b: "w1 = w\<lparr>services := (services w)[s := (services w ! s)\<lparr>held := b, held_err := None\<rparr>],
      conns := (conns w)[c := (conns w ! c)\<lparr>incoming := i, chunks := ks\<rparr>]\<rparr>"
    using w1(2) s(2) by (auto simp: read_on_def Let_def)
  have "exceptionDisconnect s None w1 = (Panicked, w1)"
    using assms(1) s(1) by (simp add: exceptionDisconnect_def get_svc_def act_simps b connected_def service_key_def)
  then have "receive_round s w = (Panicked, w1)"
    unfolding receive_round_def using w1(1) assms(5) by (simp add: Let_def act_simps b)
  from receiverData_over [OF this] s(1) have
    "receiverData s w = (Done (), w1\<lparr>services := (services w1)[s := (services w1 ! s)\<lparr>receiving := False\<rparr>]\<rparr>)" by (simp add: b)
  then show ?thesis using assms(1) s by (simp add: b connected_def session_of_def service_key_def)
qed

theorem oversized_kept_witness:
  "\<exists>q w'. newAckqueue 16 ''Pub1ack'' [] = Some q
     \<and> receiverData 0 ((example_connected q [fresh_conn\<lparr>incoming := [0xE0, 0]\<rparr>])\<lparr>server := example_server\<lparr>MaxBufferSize := 1, svcMap := [(str ''p:d'', 0)]\<rparr>\<rparr>)
         = (Done (), w')
     \<and> \<not> receiving (services w' ! 0) \<and> connected w' 0 0 (example_session q) \<and> \<not> closed (conns w' ! 0)"
proof -
  obtain q where q: "newAckqueue 16 ''Pub1ack'' [] = Some q" using new_queue by blast
  let ?w = "(example_connected q [fresh_conn\<lparr>incoming := [0xE0, 0]\<rparr>])\<lparr>server := example_server\<lparr>MaxBufferSize := 1, svcMap := [(str ''p:d'', 0)]\<rparr>\<rparr>"
  have c: "connected ?w 0 0 (example_session q)"
    by (simp add: connected_def session_of_def sess_at_def example_connected_def example_defs service_key_def str_def)
  have l: "listening ?w 0 0" "arrived ?w 0 = [0xE0, 0] @ []"
    by (simp_all add: listening_def ready_def reader_ok_def writable_def service_isDone_def arrived_def stream_of_def
      example_connected_def example_defs)
  show ?thesis using oversized_kept [OF c l example_disconnect(2)] q by simp
qed

section \<open>A device that connects again\<close>

lemma live_frame:
  assumes "live w s c []" and "services w' ! s = (services w ! s)\<lparr>reason := r\<rparr>" and "length (services w') = length (services w)"
    and "conns w' = conns w" and "sess_at w' = sess_at w"
  shows "live w' s c []"
  using assms by (auto simp: live_def ready_def session_of_def pub_queue_def)

text \<open>
  C10: a device connects again while its old connection is still open.  The new connection is accepted and the old one is closed.
  The goroutine of the old service, which then fails to read, looks up the service of the device by its key, finds the new one
  and takes it out of the table: the new connection is open and served, but no message is passed on to the device any more.
\<close>

theorem reconnect_taken_offline:
  assumes "packet_bytes ws (PConnect f v ka ci wl (Some (dn @ 38 # pk)) (Some pw))" and "38 \<notin> set dn" and "38 \<notin> set pk"
    and "ka \<noteq> 0" and "ci \<noteq> []" and "\<forall>t b. wl = Some (t, b) \<longrightarrow> ValidTopic t"
    and "c < length (conns w)" and "writable (conns w ! c)" and "incoming (conns w ! c) = ws @ rest" and "0 \<notin> set (chunks (conns w ! c))"
    and "configOnce (server w)" and "connected w s d ss" and "d \<noteq> c" and "Session_Stop ss \<noteq> None"
    and "productKey (services w ! s) = pk" and "deviceName (services w ! s) = dn"
    and "r_conn (services w ! s) = d" and "held (services w ! s) = []" and "held_err (services w ! s) = None"
  shows "\<exists>w1 w2. handleConnection (Some c) rnd ks ps w = (Done (Some (length (services w)), None), w1)
     \<and> map_of (svcMap (server w1)) (pk @ str '':'' @ dn) = Some (length (services w)) \<and> closed (conns w1 ! d)
     \<and> receiverData s w1 = (Done (), w2) \<and> map_of (svcMap (server w2)) (pk @ str '':'' @ dn) = None
     \<and> live w2 (length (services w)) c [] \<and> listening w2 (length (services w)) c \<and> receiving (services w2 ! length (services w))"
proof -
  let ?key = "pk @ str '':'' @ dn"
  let ?t = "length (services w)"
  obtain k where k: "sessMgr (server w) = Some k" "k < length (sess_objects (sess_pkg w))"
    using assms(12) by (auto simp: connected_def session_of_def sess_at_def split: option.splits if_splits)
  have key: "service_key (services w ! s) = ?key" using assms(15,16) by (simp add: service_key_def)
  have s: "s < length (services w)" "map_of (svcMap (server w)) ?key = Some s" "svc_conn (services w ! s) = Some d" "d < length (conns w)"
    using assms(12) key by (auto simp: connected_def session_of_def)
  have rp: "replaceable w ?key c" using s(2) key assms(12-14) by (auto simp: replaceable_def)
  have cf: "checkConfiguration w = (Done None, w)" using assms(11) by (simp add: checkConfiguration_def)
  obtain w1 where w1: "handleConnection (Some c) rnd ks ps w = (Done (Some ?t, None), w1)"
      "svcMap (server w1) = AList.update ?key ?t (AList.delete ?key (svcMap (server w)))"
      "serves w1 ?t c pk dn (PConnect f v ka ci wl (Some (dn @ 38 # pk)) (Some pw))"
      "length (services w1) = Suc ?t" "length (conns w1) = length (conns w)"
      "services w1 ! s = down (services w ! s) ''LogReasonValTickOffDevice''" "closed (conns w1 ! d)"
    using connect_ok [OF assms(1-10) cf k rp, of rnd ks ps] s(2,3) by blast
  have "at_end w1 s net_ErrClosed"
    using w1(4-7) s assms(17-19) by (simp add: at_end_def conn_Read_def)
  note r = at_end_round [OF this]
  have m: "map_of (svcMap (server w1)) ?key = Some ?t" by (simp add: w1(2) update_conv)
  have k1: "service_key (services w1 ! s) = ?key" using w1(6) key by (simp add: service_key_def)
  have t: "live w1 ?t c []" "listening w1 ?t c" "receiving (services w1 ! ?t)" "service_key (services w1 ! ?t) = ?key"
    using w1(3) by (auto simp: serves_def service_key_def)
  obtain w2 r where w2: "receiverData s w1 = (Done (), w2)" "conns w2 = conns w1" "sess_pkg w2 = sess_pkg w1"
      "server w2 = (server w1)\<lparr>svcMap := AList.delete ?key (svcMap (server w1))\<rparr>"
      "services w2 = (let vs = (services w1)[?t := (services w1 ! ?t)\<lparr>reason := r\<rparr>] in vs[s := (vs ! s)\<lparr>receiving := False\<rparr>])"
    using round_error [OF r, of ?t] m s(1) w1(4) k1 t(4) by auto
  have "sess_at w2 = sess_at w1" using w2(3,4) by (simp add: sess_at_def fun_eq_iff cong: option.case_cong if_cong)
  moreover have v: "services w2 ! ?t = (services w1 ! ?t)\<lparr>reason := r\<rparr>" "length (services w2) = length (services w1)"
    using w2(5) s(1) w1(4) by (simp_all add: Let_def)
  ultimately have "live w2 ?t c []" using live_frame [OF t(1)] w2(2) by blast
  moreover have "listening w2 ?t c" using t(2) v w2(2) by (auto simp: listening_def ready_def service_isDone_def)
  ultimately show ?thesis using w1(1,7) w2(1,4) m v(1) t(3) by (intro exI [of _ w1] exI [of _ w2]) (simp add: delete_conv)
qed

theorem reconnect_taken_offline_witness:
  "\<exists>q w1 w2. newAckqueue 16 ''Pub1ack'' [] = Some q
     \<and> handleConnection (Some 1) None [] [] (example_connected q [fresh_conn, fresh_conn\<lparr>incoming := message_wire (MConnect example_device)\<rparr>])
         = (Done (Some 1, None), w1)
     \<and> map_of (svcMap (server w1)) (str ''p:d'') = Some 1 \<and> closed (conns w1 ! 0)
     \<and> receiverData 0 w1 = (Done (), w2) \<and> map_of (svcMap (server w2)) (str ''p:d'') = None
     \<and> live w2 1 1 [] \<and> listening w2 1 1 \<and> receiving (services w2 ! 1)"
proof -
  obtain q where q: "newAckqueue 16 ''Pub1ack'' [] = Some q" using new_queue by blast
  let ?cs = "[fresh_conn, fresh_conn\<lparr>incoming := message_wire (MConnect example_device)\<rparr>]"
  let ?w = "example_connected q ?cs"
  have c: "connected ?w 0 0 (example_session q)" "Session_Stop (example_session q) \<noteq> None"
    using example_connected_ok [OF q, of ?cs] by simp_all
  have f: "length (services ?w) = 1" "configOnce (server ?w)" "conns ?w = ?cs" "productKey (services ?w ! 0) = str ''p''"
      "deviceName (services ?w ! 0) = str ''d''" "r_conn (services ?w ! 0) = 0" "held (services ?w ! 0) = []" "held_err (services ?w ! 0) = None"
    by (simp_all add: example_connected_def example_defs)
  have n: "1 < length (conns ?w)" "writable (conns ?w ! 1)" "incoming (conns ?w ! 1) = message_wire (MConnect example_device) @ []"
      "0 \<notin> set (chunks (conns ?w ! 1))" unfolding f(3) by (simp_all add: fresh_conn_def writable_def del: message_wire.simps)
  have h: "(10 :: uint16) \<noteq> 0" "[99 :: byte] \<noteq> []" "\<forall>t b. (None :: (bytes \<times> bytes) option) = Some (t, b) \<longrightarrow> ValidTopic t" "(0 :: nat) \<noteq> 1" by simp_all
  from reconnect_taken_offline [OF example_device_bytes example_key(2,3) h(1-3) n f(2) c(1) h(4) c(2) f(4-8), of None "[]" "[]"] q
  show ?thesis unfolding f(1) example_key(1) by blast
qed

end
