(* ===== verification/Ring_Service.thy ===== *)
theory Ring_Service
  imports Ring_Safe Broker_Disconnect
begin

unbundle bit_operations_syntax

text \<open>
  The goroutines of a service over two ring buffers: \<open>receiver\<close>, \<open>sender\<close> and the functions on messages of
  \<open>src/service/sendrecv.go\<close>, \<open>stopConnect\<close> of \<open>src/service/service.go\<close>, and the state of connectivity of
  \<open>src/service/connection.go\<close> that the goroutines keep.
\<close>

section \<open>The state of connectivity\<close>

type_synonym conn_state = int

abbreviation (input) Idle :: conn_state where "Idle \<equiv> 0"
abbreviation (input) Connecting :: conn_state where "Connecting \<equiv> 1"
abbreviation (input) Ready :: conn_state where "Ready \<equiv> 2"
abbreviation (input) TransientFailure :: conn_state where "TransientFailure \<equiv> 3"
abbreviation (input) Shutdown :: conn_state where "Shutdown \<equiv> 4"

definition State_String :: "conn_state \<Rightarrow> string" where
  "State_String s =
     (if s = Idle then ''IDLE'' else if s = Connecting then ''CONNECTING'' else if s = Ready then ''READY''
      else if s = TransientFailure then ''TRANSIENT_FAILURE'' else if s = Shutdown then ''SHUTDOWN'' else ''Invalid-State'')"

text \<open>Channels are numbered in the order in which they are made; \<open>closed_chans\<close> are those that were closed.\<close>

record connectivityStateManager =
  cs_state :: conn_state
  notifyChan :: "nat option"
  chans :: nat
  closed_chans :: "nat list"

definition updateState :: "connectivityStateManager \<Rightarrow> conn_state \<Rightarrow> connectivityStateManager" where
  "updateState csm s =
     (if cs_state csm = Shutdown then csm
      else if cs_state csm = s then csm
      else
        (let csm = csm\<lparr>cs_state := s\<rparr>
         in case notifyChan csm of
              None \<Rightarrow> csm
            | Some ch \<Rightarrow> csm\<lparr>closed_chans := ch # closed_chans csm, notifyChan := None\<rparr>))"

definition getState :: "connectivityStateManager \<Rightarrow> conn_state" where
  "getState csm = cs_state csm"

definition getNotifyChan :: "connectivityStateManager \<Rightarrow> nat \<times> connectivityStateManager" where
  "getNotifyChan csm =
     (let csm = (case notifyChan csm of
                   None \<Rightarrow> csm\<lparr>notifyChan := Some (chans csm), chans := Suc (chans csm)\<rparr>
                 | Some _ \<Rightarrow> csm)
      in (the (notifyChan csm), csm))"

section \<open>The service\<close>

text \<open>
  The fields of a service that only these functions use, for the service at the same place of the broker.  A wait group is
  its counter; \<open>wmu\<close> says whether the mutex is held.
\<close>

record ring_service =
  rs_in :: "ringbuf option"
  rs_out :: "ringbuf option"
  intmp :: bytes
  outtmp :: bytes
  wmu :: bool
  csMgr :: connectivityStateManager
  wgStarted :: nat
  wgStopped :: nat

record ring_broker =
  bk :: broker
  ring_services :: "ring_service list"

abbreviation ErrBufferNotReady :: error where "ErrBufferNotReady \<equiv> ErrNew ''service: buffer is not ready''"

definition on_bk :: "('r, broker) act \<Rightarrow> ('r, ring_broker) act" where
  "on_bk m W = (case m (bk W) of (r, w) \<Rightarrow> (r, W\<lparr>bk := w\<rparr>))"

definition on_rs :: "nat \<Rightarrow> ('r, ring_service) act \<Rightarrow> ('r, ring_broker) act" where
  "on_rs s m W =
     (if s < length (ring_services W) then
        (case m (ring_services W ! s) of (r, v) \<Rightarrow> (r, W\<lparr>ring_services := (ring_services W)[s := v]\<rparr>))
      else (Panicked, W))"

text \<open>An operation on \<open>this.in\<close> or \<open>this.out\<close>; a nil buffer panics.\<close>

definition on_in :: "('r, ringbuf) act \<Rightarrow> ('r, ring_service) act" where
  "on_in m v = (case rs_in v of None \<Rightarrow> (Panicked, v) | Some b \<Rightarrow> (case m b of (r, b) \<Rightarrow> (r, v\<lparr>rs_in := Some b\<rparr>)))"

definition on_out :: "('r, ringbuf) act \<Rightarrow> ('r, ring_service) act" where
  "on_out m v = (case rs_out v of None \<Rightarrow> (Panicked, v) | Some b \<Rightarrow> (case m b of (r, b) \<Rightarrow> (r, v\<lparr>rs_out := Some b\<rparr>)))"

section \<open>Messages in the incoming buffer\<close>

text \<open>
  The loop of \<open>peekMessageSize\<close>, with the passes that are left; \<open>cnt\<close> goes from 2 to 5.  \<open>ReadWait\<close> returns as many bytes as it
  was asked for, or an error.
\<close>

fun peek_size_loop :: "nat \<Rightarrow> nat \<Rightarrow> (error + bytes, ringbuf) act" where
  "peek_size_loop 0 cnt =
     yield (Inl (Errorf ''sendrecv/peekMessageSize: 4th byte of remaining length has continuation bit set'' []))"
| "peek_size_loop (Suc k) cnt =
     andThen (ReadWait (int cnt)) (\<lambda>(b, err).
     case err of
       Some e \<Rightarrow> yield (Inl e)
     | None \<Rightarrow> (if 0x80 \<le> b ! (cnt - 1) then peek_size_loop k (cnt + 1) else yield (Inr b)))"

definition peekMessageSize :: "(error + (MessageType \<times> int), ring_service) act" where
  "peekMessageSize =
     andThen (gets rs_in) (\<lambda>i.
     if i = None then yield (Inl ErrBufferNotReady)
     else
       andThen (on_in (peek_size_loop 4 2)) (\<lambda>r.
       case r of
         Inl e \<Rightarrow> yield (Inl e)
       | Inr b \<Rightarrow>
           (let (rl, m) = Uvarint (slice_of (tl b)) in yield (Inr (drop_bit 4 (hd b), int (unat rl) + 1 + m)))))"

text \<open>
  The slice that \<open>ReadWait\<close> returns, with the bytes in its capacity: those of the ring behind it, or, for a copy in \<open>tmp\<close>, those
  that the array of \<open>tmp\<close> happens to have, \<open>spare\<close>.
\<close>

definition ReadWait_slice :: "bytes \<Rightarrow> int \<Rightarrow> (gslice \<times> error option, ringbuf) act" where
  "ReadWait_slice spare n =
     andThen (ReadWait n) (\<lambda>(p, err).
     andThen (gets (\<lambda>b. (seq_get (cseq b) AND rb_mask b, rb_size b, rb_buf b))) (\<lambda>(cindex, sz, buf).
     yield (\<lparr>sl_len = length p,
             sl_arr = (if err \<noteq> None then [] else if sz < cindex + n then p @ spare else drop (nat cindex) buf)\<rparr>, err)))"

text \<open>
  A new message of a type, decoded.  The message that the code returns shares its bytes with the slice, so that the model's holds
  as long as the slice is not written to.
\<close>

definition decode_new :: "MessageType \<Rightarrow> gslice \<Rightarrow> (message option \<times> int \<times> error option, ring_service) act" where
  "decode_new mtype b =
     (case message_New mtype of
        Inl e \<Rightarrow> yield (None, 0, Some e)
      | Inr m0 \<Rightarrow> andThen (lift_opt (message_Decode m0 b)) (\<lambda>(m, n, err). yield (Some m, n, err)))"

text \<open>A pass that finds too few bytes, without an error that ends it, is repeated for ever.\<close>

definition peekMessage :: "bytes \<Rightarrow> MessageType \<Rightarrow> int \<Rightarrow> (message option \<times> int \<times> error option, ring_service) act" where
  "peekMessage spare mtype n =
     andThen (gets rs_in) (\<lambda>i.
     if i = None then yield (None, 0, Some ErrBufferNotReady)
     else
       andThen (on_in (ReadWait_slice spare n)) (\<lambda>(b, err).
       if err \<noteq> None \<and> err \<noteq> Some ErrBufferInsufficientData then yield (None, 0, err)
       else if go_len b < n then blocked
       else decode_new mtype b))"

text \<open>
  The loop of \<open>readMessage\<close>: every \<open>Read\<close> may fill the rest of \<open>intmp\<close>, which can be longer than the message.  A pass that reads
  nothing, without an error, is repeated for ever.
\<close>

function read_msg_loop :: "int \<Rightarrow> nat \<Rightarrow> bytes \<Rightarrow> ringbuf \<Rightarrow> error option outcome \<times> bytes \<times> ringbuf" where
  "read_msg_loop tot l tmp b =
     (if int l < tot then
        (case rb_Read (length tmp - l) b of
           (Done (bs, err), b) \<Rightarrow>
             (let tmp = take l tmp @ bs @ drop (l + length bs) tmp
              in if err \<noteq> None then (Done err, tmp, b)
                 else if bs = [] then (Stuck, tmp, b)
                 else read_msg_loop tot (l + length bs) tmp b)
         | (Panicked, b) \<Rightarrow> (Panicked, tmp, b)
         | (Stuck, b) \<Rightarrow> (Stuck, tmp, b))
      else (Done None, tmp, b))"
  by pat_completeness auto
termination
  by (relation "measure (\<lambda>(tot, l, tmp, b). nat (tot - int l))") auto

declare read_msg_loop.simps [simp del]

definition readMessage :: "MessageType \<Rightarrow> int \<Rightarrow> (message option \<times> int \<times> error option, ring_service) act" where
  "readMessage mtype tot =
     andThen (gets rs_in) (\<lambda>i.
     if i = None then yield (None, 0, Some ErrBufferNotReady)
     else
       andThen (modify (\<lambda>v. if int (length (intmp v)) < tot then v\<lparr>intmp := replicate (nat tot) 0\<rparr> else v)) (\<lambda>_.
       andThen (\<lambda>v. case rs_in v of
                  None \<Rightarrow> (Panicked, v)
                | Some b \<Rightarrow> (case read_msg_loop tot 0 (intmp v) b of (r, tmp, b) \<Rightarrow> (r, v\<lparr>intmp := tmp, rs_in := Some b\<rparr>))) (\<lambda>err.
       if err \<noteq> None then yield (None, 0, err)
       else
         andThen (gets intmp) (\<lambda>tmp.
         andThen (lift_opt (slice_range (slice_of tmp) 0 tot)) (\<lambda>b.
         decode_new mtype b)))))"

section \<open>Messages in the outgoing buffer\<close>

text \<open>The mutex \<open>wmu\<close> around an operation; it is given back at every return, also at a panic.\<close>

definition with_wmu :: "nat \<Rightarrow> ('r, ring_broker) act \<Rightarrow> ('r, ring_broker) act" where
  "with_wmu s m =
     andThen (on_rs s (\<lambda>v. if wmu v then (Stuck, v) else (Done (), v\<lparr>wmu := True\<rparr>))) (\<lambda>_ W.
     case m W of
       (Stuck, W) \<Rightarrow> (Stuck, W)
     | (r, W) \<Rightarrow> (r, snd (on_rs s (modify (\<lambda>v. v\<lparr>wmu := False\<rparr>)) W)))"

text \<open>\<open>Encode\<close> into a slice, with the counter of packet identifiers.\<close>

definition encode_msg :: "message \<Rightarrow> gslice \<Rightarrow> (message \<times> gslice \<times> int \<times> error option, ring_broker) act" where
  "encode_msg msg dst W =
     (case message_Encode msg dst (gPacketId (bk W)) of
        None \<Rightarrow> (Panicked, W)
      | Some (r, g) \<Rightarrow> (Done r, W\<lparr>bk := (bk W)\<lparr>gPacketId := g\<rparr>\<rparr>))"

text \<open>The space wraps around: the message is encoded into \<open>outtmp\<close> and then copied into the ring.\<close>

definition write_wrapped :: "nat \<Rightarrow> message \<Rightarrow> int \<Rightarrow> (message \<times> int \<times> error option, ring_broker) act" where
  "write_wrapped s msg l =
     andThen (on_rs s (modify (\<lambda>v. if int (length (outtmp v)) < l then v\<lparr>outtmp := replicate (nat l) 0\<rparr> else v))) (\<lambda>_.
     andThen (on_rs s (gets outtmp)) (\<lambda>tmp.
     andThen (encode_msg msg (slice_of tmp)) (\<lambda>(msg, dst, n, err).
     andThen (on_rs s (modify (\<lambda>v. v\<lparr>outtmp := sl_arr dst\<rparr>))) (\<lambda>_.
     if err \<noteq> None then yield (msg, 0, err)
     else
       andThen (lift_opt (slice_range dst 0 n)) (\<lambda>p.
       andThen (on_rs s (on_out (rb_Write (slice_bytes p)))) (\<lambda>(m, err). yield (msg, m, err)))))))"

text \<open>The space \<open>buf[lo:hi]\<close> is in one piece: the message is encoded in place.\<close>

definition write_in_place :: "nat \<Rightarrow> message \<Rightarrow> int \<Rightarrow> int \<Rightarrow> (message \<times> int \<times> error option, ring_broker) act" where
  "write_in_place s msg lo hi =
     andThen (on_rs s (on_out (gets rb_buf))) (\<lambda>buf.
     andThen (encode_msg msg \<lparr>sl_len = nat (hi - lo), sl_arr = drop (nat lo) buf\<rparr>) (\<lambda>(msg, dst, n, err).
     andThen (on_rs s (on_out (modify (\<lambda>b. b\<lparr>rb_buf := take (nat lo) buf @ sl_arr dst\<rparr>)))) (\<lambda>_.
     if err \<noteq> None then yield (msg, 0, err)
     else
       andThen (on_rs s (on_out (WriteCommit n))) (\<lambda>(m, err).
       if err \<noteq> None then yield (msg, 0, err) else yield (msg, m, None)))))"

definition ring_writeMessage :: "nat \<Rightarrow> message \<Rightarrow> (message \<times> int \<times> error option, ring_broker) act" where
  "ring_writeMessage s msg =
     andThen (lift_opt (message_Len msg)) (\<lambda>(l, msg).
     andThen (on_rs s (gets rs_out)) (\<lambda>out.
     if out = None then yield (msg, 0, Some ErrBufferNotReady)
     else
       with_wmu s
         (andThen (on_rs s (on_out (WriteWait l))) (\<lambda>(buf, wrap, err).
          if err \<noteq> None then yield (msg, 0, err)
          else
            andThen (lift_opt buf) (\<lambda>(lo, hi).
            andThen (if wrap then write_wrapped s msg l else write_in_place s msg lo hi) (\<lambda>(msg, m, err).
            if err \<noteq> None then yield (msg, m, err)
            else
              andThen (on_bk (upd_svc s (\<lambda>v. v\<lparr>outStat := increment (outStat v) m\<rparr>))) (\<lambda>_.
              yield (msg, m, None))))))))"

section \<open>The goroutines\<close>

text \<open>\<open>Done\<close> of a wait group panics when the counter is 0.\<close>

definition wgStarted_Done :: "(unit, ring_service) act" where
  "wgStarted_Done v = (if wgStarted v = 0 then (Panicked, v) else (Done (), v\<lparr>wgStarted := wgStarted v - 1\<rparr>))"

definition wgStopped_Done :: "(unit, ring_service) act" where
  "wgStopped_Done v = (if wgStopped v = 0 then (Panicked, v) else (Done (), v\<lparr>wgStopped := wgStopped v - 1\<rparr>))"

text \<open>
  The deferred function of a goroutine: \<open>PanicHandler\<close> is called by it and not deferred itself, so that its \<open>recover\<close> returns nil and
  a panic goes on.
\<close>

definition goroutine :: "nat \<Rightarrow> (unit, ring_broker) act \<Rightarrow> (unit, ring_broker) act" where
  "goroutine s m =
     (\<lambda>W. case andThen (on_rs s wgStarted_Done) (\<lambda>_. m) W of
        (Stuck, W) \<Rightarrow> (Stuck, W)
      | (Done _, W) \<Rightarrow> on_rs s wgStopped_Done W
      | (Panicked, W) \<Rightarrow> (Panicked, snd (on_rs s wgStopped_Done W)))"

text \<open>\<open>ReadFrom\<close> and \<open>WriteTo\<close> on the connection at a place and a buffer of the service.\<close>

definition read_from :: "nat \<Rightarrow> nat \<Rightarrow> (int \<times> error option, ring_broker) act" where
  "read_from s c W =
     (if s < length (ring_services W) \<and> c < length (conns (bk W)) then
        (case rs_in (ring_services W ! s) of
           None \<Rightarrow> (Panicked, W)
         | Some b \<Rightarrow>
             (case rb_ReadFrom (conns (bk W) ! c) b of
                (r, c', b) \<Rightarrow> (r, W\<lparr>bk := (bk W)\<lparr>conns := (conns (bk W))[c := c']\<rparr>,
                                  ring_services := (ring_services W)[s := (ring_services W ! s)\<lparr>rs_in := Some b\<rparr>]\<rparr>)))
      else (Panicked, W))"

definition write_to :: "nat \<Rightarrow> nat \<Rightarrow> (int \<times> error option, ring_broker) act" where
  "write_to s c W =
     (if s < length (ring_services W) \<and> c < length (conns (bk W)) then
        (case rs_out (ring_services W ! s) of
           None \<Rightarrow> (Panicked, W)
         | Some b \<Rightarrow>
             (case rb_WriteTo (conns (bk W) ! c) b of
                (r, c', b) \<Rightarrow> (r, W\<lparr>bk := (bk W)\<lparr>conns := (conns (bk W))[c := c']\<rparr>,
                                  ring_services := (ring_services W)[s := (ring_services W ! s)\<lparr>rs_out := Some b\<rparr>]\<rparr>)))
      else (Panicked, W))"

text \<open>
  \<open>ReadFrom\<close> and \<open>WriteTo\<close> return only with an error, so that the loops around them run once.  What the receiver does about an
  error is, line by line, what \<open>exceptionDisconnect\<close> does.
\<close>

definition receiver :: "nat \<Rightarrow> (unit, ring_broker) act" where
  "receiver s =
     goroutine s
       (andThen (on_bk (get_svc s)) (\<lambda>this.
        case svc_conn this of
          None \<Rightarrow> yield ()
        | Some c \<Rightarrow>
            andThen (on_bk (on_conn c (\<lambda>c. (closed c, c)))) (\<lambda>cl.
            if cl then yield ()
            else
              andThen (on_bk (upd_svc s (\<lambda>v. v\<lparr>r_conn := c, r_d := svc_keepAlive v + 5\<rparr>))) (\<lambda>_.
              andThen (read_from s c) (\<lambda>(_, err).
              if err = None then blocked
              else
                andThen (on_bk (exceptionDisconnect s err)) (\<lambda>_.
                on_rs s (modify (\<lambda>v. v\<lparr>csMgr := updateState (csMgr v) (if err \<noteq> Some io_EOF then TransientFailure else Shutdown)\<rparr>))))))))"

definition sender :: "nat \<Rightarrow> (unit, ring_broker) act" where
  "sender s =
     goroutine s
       (andThen (on_bk (get_svc s)) (\<lambda>this.
        case svc_conn this of
          None \<Rightarrow> yield ()
        | Some c \<Rightarrow>
            andThen (write_to s c) (\<lambda>(_, err).
            if err = None then blocked
            else
              on_rs s (modify (\<lambda>v. v\<lparr>csMgr := updateState (csMgr v) (if err \<noteq> Some io_EOF then TransientFailure else Shutdown)\<rparr>)))))"

definition stopConnect :: "nat \<Rightarrow> (unit, ring_broker) act" where
  "stopConnect s =
     PanicHandler
       (andThen (on_bk (get_svc s)) (\<lambda>this.
        andThen (on_bk (case svc_done this of
                          None \<Rightarrow> yield ()
                        | Some True \<Rightarrow> panicking
                        | Some False \<Rightarrow> upd_svc s (\<lambda>v. v\<lparr>svc_done := Some True\<rparr>))) (\<lambda>_.
        andThen (on_bk (case svc_conn this of None \<Rightarrow> yield () | Some c \<Rightarrow> on_conn c (\<lambda>c. ((), conn_Close c)))) (\<lambda>_.
        andThen (on_rs s (on_in rb_Close)) (\<lambda>_.
        andThen (on_rs s (on_out rb_Close)) (\<lambda>_.
        andThen (on_rs s (gets wgStopped)) (\<lambda>n.
        if n \<noteq> 0 then blocked
        else
          andThen (on_bk (case keepAliveCH this of
                            None \<Rightarrow> yield ()
                          | Some True \<Rightarrow> panicking
                          | Some False \<Rightarrow> upd_svc s (\<lambda>v. v\<lparr>keepAliveCH := Some True\<rparr>))) (\<lambda>_.
          andThen (on_bk (upd_svc s (\<lambda>v. v\<lparr>svc_conn := None\<rparr>))) (\<lambda>_.
          on_rs s (modify (\<lambda>v. v\<lparr>rs_in := None, rs_out := None\<rparr>)))))))))))"

end
