(* ===== verification/Ring_Messages.thy ===== *)
theory Ring_Messages
  imports Ring_Service
begin

unbundle bit_operations_syntax

text \<open>
  Messages through the ring buffers: what \<open>writeMessage\<close> puts into the outgoing buffer and what \<open>peekMessageSize\<close>, \<open>peekMessage\<close> and
  \<open>readMessage\<close> take from the incoming one.
\<close>

section \<open>The loops around ReadFrom and WriteTo\<close>

lemma deferred_Close_Done: "deferred_Close x = (Done y, c, b) \<Longrightarrow> fst x = Done y"
  by (auto simp: deferred_Close_def split: if_splits outcome.splits prod.splits)

text \<open>\<open>ReadFrom\<close> and \<open>WriteTo\<close> return only with an error.\<close>

lemma read_from_error: "fst (read_from_loop tot c b) = Done (n, e) \<Longrightarrow> e \<noteq> None"
proof (induction tot c b arbitrary: n e rule: read_from_loop.induct)
  case (1 tot c b)
  show ?case using "1.prems"
    by (subst (asm) read_from_loop.simps)
       (auto simp: Let_def split: if_splits outcome.splits prod.splits option.splits dest: "1.IH" [rotated -1])
qed

lemma write_to_error: "fst (write_to_loop tot c b) = Done (n, e) \<Longrightarrow> e \<noteq> None"
proof (induction tot c b arbitrary: n e rule: write_to_loop.induct)
  case (1 tot c b)
  show ?case using "1.prems"
    by (subst (asm) write_to_loop.simps)
       (auto simp: Let_def split: if_splits outcome.splits prod.splits option.splits dest: "1.IH" [rotated -1])
qed

lemma goroutine_loops_once:
  "rb_ReadFrom c b = (Done (n, e), c', b') \<Longrightarrow> e \<noteq> None" "rb_WriteTo c b = (Done (n, e), c', b') \<Longrightarrow> e \<noteq> None"
  unfolding rb_ReadFrom_def rb_WriteTo_def using read_from_error write_to_error by (blast dest: deferred_Close_Done)+

section \<open>Reading a message\<close>

lemma peek_size_ok:
  assumes "rb_ok b" and "unlocked b" and "unread b = b0 # vs @ body" and "varint_ok vs" and "j < length vs" and "length vs \<le> j + k"
  shows "\<exists>t. peek_size_loop k (j + 2) b = (Done (Inr (b0 # vs)), b\<lparr>rb_tmp := t\<rparr>)"
  using assms
proof (induction k arbitrary: j b)
  case (Suc k)
  have n: "int (j + 2) \<le> int (length (unread b))" using Suc.prems(3,5) by simp
  obtain t where t: "ReadWait (int (j + 2)) b = (Done (take (j + 2) (unread b), None), b\<lparr>rb_tmp := t\<rparr>)"
    using ReadWait_ok [OF Suc.prems(1,2) _ n] by auto
  have p: "take (j + 2) (unread b) = b0 # take (Suc j) vs" using Suc.prems(3,5) by simp
  show ?case
  proof (cases "vs ! j < 0x80")
    case True
    then have "Suc j = length vs" using Suc.prems(4,5)
      by (metis Suc_lessI diff_Suc_1 length_butlast less_Suc_eq_0_disj nth_butlast nth_mem varint_ok_def Suc_less_eq Suc_pred length_greater_0_conv)
    then have "take (Suc j) vs = vs" by simp
    then show ?thesis using t p True Suc.prems(5) by (auto simp: act_simps simp del: of_nat_add)
  next
    case False
    then have "Suc j \<noteq> length vs" using Suc.prems(4) by (metis diff_Suc_1 last_conv_nth varint_ok_def)
    then have "Suc j < length vs" using Suc.prems(5) by simp
    with Suc.IH [of "b\<lparr>rb_tmp := t\<rparr>" "Suc j"] Suc.prems obtain t' where
      "peek_size_loop k (Suc j + 2) (b\<lparr>rb_tmp := t\<rparr>) = (Done (Inr (b0 # vs)), b\<lparr>rb_tmp := t'\<rparr>)" by auto
    then show ?thesis using t p False Suc.prems(5) by (auto simp: act_simps not_less simp del: of_nat_add)
  qed
qed simp

lemma on_in_ok: "rs_in v = Some b \<Longrightarrow> m b = (Done r, b') \<Longrightarrow> on_in m v = (Done r, v\<lparr>rs_in := Some b'\<rparr>)"
  and on_out_ok: "rs_out v = Some b \<Longrightarrow> m b = (Done r, b') \<Longrightarrow> on_out m v = (Done r, v\<lparr>rs_out := Some b'\<rparr>)"
  by (simp_all add: on_in_def on_out_def)

lemma peekMessageSize_ok:
  assumes "rs_in v = Some b" and "rb_ok b" and "unlocked b" and "unread b = ws @ rest" and "framed t ws"
  shows "\<exists>x. peekMessageSize v = (Done (Inr (t, int (length ws))), v\<lparr>rs_in := Some (b\<lparr>rb_tmp := x\<rparr>)\<rparr>)"
proof -
  obtain b0 vs body where w: "ws = b0 # vs @ body" "varint_ok vs" "length vs \<le> 4" "drop_bit 4 b0 = t"
    "Uvarint (slice_of vs) = (word_of_nat (length body), int (length vs))" "unat (word_of_nat (length body) :: uint64) = length body"
    using framed_split [OF assms(5)] .
  have "0 < length vs" using w(2) by (simp add: varint_ok_def)
  moreover have "unread b = b0 # vs @ body @ rest" using assms(4) w(1) by simp
  ultimately obtain x where x: "peek_size_loop 4 2 b = (Done (Inr (b0 # vs)), b\<lparr>rb_tmp := x\<rparr>)"
    using peek_size_ok [OF assms(2,3) _ w(2), of b0 "body @ rest" 0 4, unfolded add_0_left] w(3) by blast
  obtain rl :: uint64 where rl: "Uvarint (slice_of vs) = (rl, int (length vs))" "unat rl = length body" using w(5,6) by blast
  have "uint rl = int (length body)" by (simp flip: rl(2))
  with on_in_ok [where m = "peek_size_loop 4 2", OF assms(1) x] w(1,4) rl(1) assms(1) show ?thesis
    by (auto simp: peekMessageSize_def act_simps)
qed

text \<open>The slice begins with the bytes asked for, whatever lies behind them.\<close>

lemma ReadWait_slice_ok:
  assumes "rb_ok b" and "unlocked b" and "n \<le> length (unread b)"
  shows "\<exists>x t. ReadWait_slice spare (int n) b = (Done (\<lparr>sl_len = n, sl_arr = take n (unread b) @ x\<rparr>, None), b\<lparr>rb_tmp := t\<rparr>)"
proof -
  note f = rb_ok_facts [OF assms(1)]
  obtain t where t: "ReadWait (int n) b = (Done (take n (unread b), None), b\<lparr>rb_tmp := t\<rparr>)"
    using ReadWait_ok [OF assms(1,2) of_nat_0_le_iff, of n, unfolded of_nat_le_iff nat_int, OF assms(3)] by blast
  let ?c = "cursor (cseq b)" and ?z = "length (rb_buf b)"
  have z: "0 < ?z" "n \<le> ?z" using f(2-5) assms(3) by auto
  have "drop (nat (?c mod int ?z)) (rb_buf b) = take n (unread b) @ drop n (drop (nat (?c mod int ?z)) (rb_buf b))"
    if "\<not> int ?z < ?c mod int ?z + int n"
  proof -
    have "0 \<le> ?c mod int ?z" using z(1) by simp
    then have "nat (?c mod int ?z) + n \<le> ?z" using that by linarith
    then have "take n (drop (nat (?c mod int ?z)) (rb_buf b)) = take n (unread b)"
      using stretch(1) [OF z, of ?c] take_unread [of n b] assms(3) by simp
    then show ?thesis by (metis append_take_drop_id)
  qed
  then show ?thesis using t f(1,2) assms(3)
    by (auto simp: ReadWait_slice_def act_simps seq_get_def)
qed

lemma publish_decodes_slack:
  assumes "message_ok (MPublish m)"
  shows "\<exists>m' k. message_Decode (MPublish NewPublishMessage) \<lparr>sl_len = length (message_wire (MPublish m)), sl_arr = message_wire (MPublish m) @ x\<rparr>
     = Some (MPublish m', k, None) \<and> content (MPublish m') = content (MPublish m)"
proof -
  let ?b = "mtypeflags_bytes m ! 0"
  let ?src = "\<lparr>sl_len = length (publish_wire ?b m), sl_arr = publish_wire ?b m @ x\<rparr>"
  have t: "drop_bit 4 (type_byte PUBLISH) = PUBLISH" by (rule type_byte_type) (simp add: MessageType_Valid_iff)
  have "publish_Decode NewPublishMessage ?src = Some (publish_received ?b m NewPublishMessage ?src, int (length (publish_wire ?b m)), None)"
    using publish_Decode_ok [OF _ New_flag_byte(3), of ?b m ?src x] assms t by (simp add: wf_slice_def)
  with publish_received_fields [of ?src ?b m x NewPublishMessage] show ?thesis by auto
qed

lemma peekMessage_ok:
  assumes "rs_in v = Some b" and "rb_ok b" and "unlocked b" and "unread b = message_wire (MPublish m) @ rest" and "message_ok (MPublish m)"
  shows "\<exists>m' k x. peekMessage spare PUBLISH (int (length (message_wire (MPublish m)))) v
      = (Done (Some (MPublish m'), k, None), v\<lparr>rs_in := Some (b\<lparr>rb_tmp := x\<rparr>)\<rparr>) \<and> content (MPublish m') = content (MPublish m)"
proof -
  let ?ws = "message_wire (MPublish m)"
  obtain y x where r: "ReadWait_slice spare (int (length ?ws)) b = (Done (\<lparr>sl_len = length ?ws, sl_arr = ?ws @ y\<rparr>, None), b\<lparr>rb_tmp := x\<rparr>)"
    using ReadWait_slice_ok [OF assms(2,3), of "length ?ws" spare] assms(4) by (auto simp del: message_wire.simps)
  obtain m' k where d: "message_Decode (MPublish NewPublishMessage) \<lparr>sl_len = length ?ws, sl_arr = ?ws @ y\<rparr> = Some (MPublish m', k, None)"
    "content (MPublish m') = content (MPublish m)" using publish_decodes_slack [OF assms(5), of y] by blast
  have "message_New PUBLISH = Inr (MPublish NewPublishMessage)" by (simp add: message_New_def)
  with on_in_ok [where m = "ReadWait_slice spare (int (length ?ws))", OF assms(1) r] d assms(1) show ?thesis
    by (auto simp: peekMessage_def decode_new_def act_simps go_len_def simp del: message_wire.simps content.simps message_Decode.simps)
qed

section \<open>Writing a message\<close>

lemma on_rs_ok:
  "s < length (ring_services W) \<Longrightarrow> m (ring_services W ! s) = (Done r, v) \<Longrightarrow> on_rs s m W = (Done r, W\<lparr>ring_services := (ring_services W)[s := v]\<rparr>)"
  by (simp add: on_rs_def)

lemma ring_open_gate:
  assumes "ring_open b" and "gt \<le> cursor (cseq b)"
  shows "ring_open (b\<lparr>pseq := (pseq b)\<lparr>gate := gt\<rparr>\<rparr>)" and "unread (b\<lparr>pseq := (pseq b)\<lparr>gate := gt\<rparr>\<rparr>) = unread b"
  using assms by (auto simp: ring_open_def rb_ok_def unread_def rb_Len_def seq_get_def)

text \<open>The state after something was put into the outgoing buffer.\<close>

definition put_out :: "nat \<Rightarrow> ringbuf \<Rightarrow> uint64 \<Rightarrow> bytes \<Rightarrow> ring_broker \<Rightarrow> ring_broker" where
  "put_out s b g tmp W =
     W\<lparr>bk := (bk W)\<lparr>gPacketId := g\<rparr>, ring_services := (ring_services W)[s := (ring_services W ! s)\<lparr>outtmp := tmp, rs_out := Some b\<rparr>]\<rparr>"

lemma write_in_place_ok:
  assumes "s < length (ring_services W)" and "rs_out (ring_services W ! s) = Some b" and "ring_open b" and "int (length ws) \<le> ring_room b"
    and "i = nat (cursor (pseq b) mod rb_size b)" and "i + length ws \<le> length (rb_buf b)"
    and "\<And>dst. wf_slice dst \<Longrightarrow> length ws \<le> sl_len dst \<Longrightarrow> message_Encode m1 dst (gPacketId (bk W)) = Some ((m', fill dst ws, int (length ws), None), g)"
  shows "\<exists>b'. write_in_place s m1 (int i) (int i + int (length ws)) W
      = (Done (m', int (length ws), None), put_out s b' g (outtmp (ring_services W ! s)) W) \<and> ring_open b' \<and> unread b' = unread b @ ws"
proof -
  have o: "rb_ok b" "unlocked b" "\<not> rb_done b" "rb_Len b + int (length ws) \<le> rb_size b"
    using assms(3,4) by (auto simp: ring_open_def ring_room_def)
  let ?b1 = "b\<lparr>rb_buf := take i (rb_buf b) @ ws @ drop (i + length ws) (rb_buf b)\<rparr>"
  obtain b' where b': "WriteCommit (int (length ws)) ?b1 = (Done (int (length ws), None), b')" "rb_ok b'" "unlocked b'" "\<not> rb_done b'"
      "unread b' = unread b @ ws"
    using WriteCommit_ok [OF o assms(5,6)] by blast
  have "wf_slice \<lparr>sl_len = length ws, sl_arr = drop i (rb_buf b)\<rparr>" using assms(6) by (simp add: wf_slice_def)
  from assms(7) [OF this] have e: "message_Encode m1 \<lparr>sl_len = length ws, sl_arr = drop i (rb_buf b)\<rparr> (gPacketId (bk W))
      = Some ((m', \<lparr>sl_len = length ws, sl_arr = ws @ drop (i + length ws) (rb_buf b)\<rparr>, int (length ws), None), g)"
    by (simp add: add.commute)
  show ?thesis
    by (rule exI [of _ b'])
       (use assms(1,2) b' e in \<open>simp add: write_in_place_def andThen_def on_rs_def on_out_def gets_def modify_def yield_def encode_msg_def
          put_out_def ring_open_def\<close>)
qed

lemma write_wrapped_ok:
  assumes "s < length (ring_services W)" and "rs_out (ring_services W ! s) = Some b" and "ring_open b" and "int (length ws) \<le> ring_room b"
    and "\<And>dst. wf_slice dst \<Longrightarrow> length ws \<le> sl_len dst \<Longrightarrow> message_Encode m1 dst (gPacketId (bk W)) = Some ((m', fill dst ws, int (length ws), None), g)"
  shows "\<exists>b' tmp. write_wrapped s m1 (int (length ws)) W = (Done (m', int (length ws), None), put_out s b' g tmp W)
     \<and> ring_open b' \<and> unread b' = unread b @ ws"
proof -
  have o: "rb_ok b" "unlocked b" "\<not> rb_done b" "rb_Len b + int (length ws) \<le> rb_size b"
    using assms(3,4) by (auto simp: ring_open_def ring_room_def)
  obtain b' where b': "rb_Write ws b = (Done (int (length ws), None), b')" "rb_ok b'" "unlocked b'" "\<not> rb_done b'" "unread b' = unread b @ ws"
    using rb_Write_ok [OF o] by blast
  define tmp where "tmp = (if length (outtmp (ring_services W ! s)) < length ws then replicate (length ws) 0 else outtmp (ring_services W ! s))"
  have l: "length ws \<le> length tmp" by (simp add: tmp_def)
  have e: "message_Encode m1 (slice_of tmp) (gPacketId (bk W))
      = Some ((m', fill (slice_of tmp) ws, int (length ws), None), g)"
    by (rule assms(5)) (use l in \<open>simp_all add: wf_slice_def slice_of_def\<close>)
  have c: "slice_range (fill (slice_of tmp) ws) 0 (int (length ws)) = Some \<lparr>sl_len = length ws, sl_arr = ws @ drop (length ws) tmp\<rparr>"
    using l by (simp add: slice_range_def go_cap_def slice_of_def)
  let ?v = "ring_services W ! s"
  let ?W1 = "W\<lparr>ring_services := (ring_services W)[s := ?v\<lparr>outtmp := tmp\<rparr>]\<rparr>"
  have 1: "on_rs s (modify (\<lambda>v. if int (length (outtmp v)) < int (length ws) then v\<lparr>outtmp := replicate (nat (int (length ws))) 0\<rparr> else v)) W = (Done (), ?W1)"
    using assms(1) by (simp add: on_rs_def modify_def tmp_def)
  have 2: "on_rs s (gets outtmp) ?W1 = (Done tmp, ?W1)" using assms(1) by (simp add: on_rs_def gets_def)
  have 3: "encode_msg m1 (slice_of tmp) ?W1 = (Done (m', fill (slice_of tmp) ws, int (length ws), None), ?W1\<lparr>bk := (bk W)\<lparr>gPacketId := g\<rparr>\<rparr>)"
    using e by (simp add: encode_msg_def)
  show ?thesis unfolding write_wrapped_def andThen_def 1 prod.case outcome.case 2 3
    by (rule exI [of _ b'], rule exI [of _ "ws @ drop (length ws) tmp"])
       (use assms(1,2) b' c in \<open>simp add: andThen_def on_rs_def on_out_def modify_def yield_def lift_opt_def put_out_def ring_open_def
          slice_bytes_def slice_of_def\<close>)
qed

lemma WriteWait_ok:
  assumes "ring_open b" and "int n \<le> ring_room b"
  defines "lo \<equiv> cursor (pseq b) mod rb_size b"
  shows "\<exists>gt hi. WriteWait (int n) b = (Done (Some (lo, hi), rb_size b < lo + int n, None), b\<lparr>pseq := (pseq b)\<lparr>gate := gt\<rparr>\<rparr>)
     \<and> gt \<le> cursor (cseq b) \<and> (\<not> rb_size b < lo + int n \<longrightarrow> hi = lo + int n)"
proof -
  have o: "rb_ok b" "unlocked b" "\<not> rb_done b" "rb_Len b + int n \<le> rb_size b" using assms(1,2) by (auto simp: ring_open_def ring_room_def)
  note f = rb_ok_facts [OF o(1)]
  obtain gt where gt: "waitForWriteSpace (int n) b = (Done (cursor (pseq b), int n, None), b\<lparr>pseq := (pseq b)\<lparr>gate := gt\<rparr>\<rparr>)" "gt \<le> cursor (cseq b)"
    using waitForWriteSpace_ok [OF o] by blast
  have "0 \<le> lo" "lo < rb_size b" using f(3) by (simp_all add: lo_def)
  then show ?thesis using gt f(1,2)
    by (intro exI [of _ gt] exI [of _ "if rb_size b < lo + int n then int (length (rb_buf b)) else lo + int n"])
       (simp add: WriteWait_def andThen_def gets_def yield_def lo_def)
qed

text \<open>The whole of \<open>writeMessage\<close>, on both ways into the ring.\<close>

lemma ring_writeMessage_ok:
  assumes "s < length (ring_services W)" and "s < length (services (bk W))" and "rs_out (ring_services W ! s) = Some b" and "ring_open b"
    and "\<not> wmu (ring_services W ! s)" and "message_Len m = Some (int (length ws), m1)" and "int (length ws) \<le> ring_room b"
    and "\<And>dst. wf_slice dst \<Longrightarrow> length ws \<le> sl_len dst \<Longrightarrow> message_Encode m1 dst (gPacketId (bk W)) = Some ((m', fill dst ws, int (length ws), None), g)"
  shows "\<exists>b' W'. ring_writeMessage s m W = (Done (m', int (length ws), None), W') \<and> rs_out (ring_services W' ! s) = Some b'
     \<and> ring_open b' \<and> unread b' = unread b @ ws \<and> \<not> wmu (ring_services W' ! s) \<and> gPacketId (bk W') = g"
proof -
  let ?v = "ring_services W ! s" and ?i = "nat (cursor (pseq b) mod rb_size b)"
  let ?lo = "cursor (pseq b) mod rb_size b"
  have o: "rb_ok b" "0 < rb_size b" "rb_size b = int (length (rb_buf b))" using assms(4) rb_ok_facts(2,3) by (auto simp: ring_open_def)
  obtain gt hi where w: "WriteWait (int (length ws)) b = (Done (Some (?lo, hi), rb_size b < ?lo + int (length ws), None), b\<lparr>pseq := (pseq b)\<lparr>gate := gt\<rparr>\<rparr>)"
      "gt \<le> cursor (cseq b)" "\<not> rb_size b < ?lo + int (length ws) \<longrightarrow> hi = ?lo + int (length ws)"
    using WriteWait_ok [OF assms(4,7)] by blast
  let ?b1 = "b\<lparr>pseq := (pseq b)\<lparr>gate := gt\<rparr>\<rparr>"
  define W1 where "W1 = W\<lparr>ring_services := (ring_services W)[s := ?v\<lparr>wmu := True, rs_out := Some ?b1\<rparr>]\<rparr>"
  have b1: "ring_open ?b1" "unread ?b1 = unread b" "int (length ws) \<le> ring_room ?b1"
    using ring_open_gate [OF assms(4) w(2)] assms(7) by (simp_all add: ring_room_def rb_Len_def seq_get_def)
  have W1: "s < length (ring_services W1)" "rs_out (ring_services W1 ! s) = Some ?b1" "bk W1 = bk W" using assms(1) by (simp_all add: W1_def)
  obtain b' tmp where b': "(if rb_size b < ?lo + int (length ws) then write_wrapped s m1 (int (length ws)) else write_in_place s m1 ?lo hi) W1
      = (Done (m', int (length ws), None), put_out s b' g tmp W1)" "ring_open b'" "unread b' = unread b @ ws"
  proof (cases "rb_size b < ?lo + int (length ws)")
    case True
    with write_wrapped_ok [OF W1(1,2) b1(1,3), of m1 m' g] assms(8) W1(3) b1(2) that show thesis by auto
  next
    case False
    have i: "int ?i = ?lo" using o(2) by simp
    then have "int ?i + int (length ws) \<le> int (length (rb_buf b))" using False o(3) by linarith
    then have "?i + length ws \<le> length (rb_buf ?b1)" by (simp only: of_nat_add [symmetric] of_nat_le_iff) simp
    with write_in_place_ok [OF W1(1,2) b1(1,3), of ?i m1 m' g] assms(8) W1(3) b1(2) that i False w(3) show thesis by auto
  qed
  show ?thesis using assms(1-3,5,6) w(1) b'
    by (simp add: ring_writeMessage_def andThen_def lift_opt_def on_rs_def gets_def yield_def with_wmu_def on_out_def on_bk_def upd_svc_def
        modify_def W1_def [symmetric]) (simp add: W1_def put_out_def)
qed

section \<open>From one ring to another\<close>

text \<open>A PUBLISH at the head of the incoming buffer is found, decoded and taken out.\<close>

lemma taken_out:
  assumes v: "rs_in v = Some c" "ring_open c" "unread c = message_wire (MPublish m) @ rest" and m: "message_ok (MPublish m)"
  defines "n \<equiv> int (length (message_wire (MPublish m)))"
  shows "\<exists>v1 p k v2 v3 c3. peekMessageSize v = (Done (Inr (PUBLISH, n)), v1) \<and> peekMessage spare PUBLISH n v1 = (Done (Some p, k, None), v2)
     \<and> content p = content (MPublish m) \<and> on_in (ReadCommit n) v2 = (Done (n, None), v3) \<and> rs_in v3 = Some c3 \<and> unread c3 = rest"
proof -
  let ?ws = "message_wire (MPublish m)"
  have f: "framed PUBLISH ?ws" using message_framed [OF m] by (simp del: message_wire.simps)
  have c: "rb_ok c" "unlocked c" using v(2) by (simp_all add: ring_open_def)
  obtain x where 1: "peekMessageSize v = (Done (Inr (PUBLISH, n)), v\<lparr>rs_in := Some (c\<lparr>rb_tmp := x\<rparr>)\<rparr>)"
    using peekMessageSize_ok [OF v(1) c v(3) f] unfolding n_def by blast
  let ?v1 = "v\<lparr>rs_in := Some (c\<lparr>rb_tmp := x\<rparr>)\<rparr>"
  have c1: "rs_in ?v1 = Some (c\<lparr>rb_tmp := x\<rparr>)" "rb_ok (c\<lparr>rb_tmp := x\<rparr>)" "unlocked (c\<lparr>rb_tmp := x\<rparr>)" "unread (c\<lparr>rb_tmp := x\<rparr>) = ?ws @ rest"
    using c v(3) by (simp_all del: message_wire.simps)
  obtain p k y where 2: "peekMessage spare PUBLISH n ?v1 = (Done (Some (MPublish p), k, None), ?v1\<lparr>rs_in := Some (c\<lparr>rb_tmp := x\<rparr>\<lparr>rb_tmp := y\<rparr>)\<rparr>)"
      "content (MPublish p) = content (MPublish m)"
    using peekMessage_ok [OF c1 m, of spare] unfolding n_def by blast
  let ?c2 = "c\<lparr>rb_tmp := x\<rparr>\<lparr>rb_tmp := y\<rparr>"
  have c2: "rb_ok ?c2" "unlocked ?c2" "length ?ws \<le> length (unread ?c2)" "drop (length ?ws) (unread ?c2) = rest"
    using c v(3) by (simp_all del: message_wire.simps length_unread)
  obtain c3 where 3: "ReadCommit n ?c2 = (Done (n, None), c3)" "unread c3 = rest"
    using ReadCommit_ok [OF c2(1-3)] c2(4) unfolding n_def by metis
  show ?thesis using 1 2 on_in_ok [of "?v1\<lparr>rs_in := Some ?c2\<rparr>" ?c2 "ReadCommit n" _ c3, OF _ 3(1)] 3(2)
    by (intro exI [of _ ?v1] exI [of _ "MPublish p"] exI [of _ k] exI [of _ "?v1\<lparr>rs_in := Some ?c2\<rparr>"] exI [of _ "?v1\<lparr>rs_in := Some c3\<rparr>"] exI [of _ c3])
       (simp del: content.simps)
qed

text \<open>
  C15: a PUBLISH that \<open>writeMessage\<close> puts into the outgoing buffer, in one piece or around the end of the ring, is read back from an
  incoming buffer that its bytes reach: \<open>peekMessageSize\<close> finds its type and length, \<open>peekMessage\<close> decodes the content that was
  sent, and \<open>ReadCommit\<close> takes exactly its bytes out of the buffer.
\<close>

theorem ring_carries_publish:
  assumes "message_good (MPublish m)" and "publish_Len m = Some (n, m1)" and "s < length (ring_services W)" and "s < length (services (bk W))"
    and "rs_out (ring_services W ! s) = Some b" and "ring_open b" and "\<not> wmu (ring_services W ! s)" and "n \<le> ring_room b"
  shows "\<exists>m' ws W' b'. ring_writeMessage s (MPublish m) W = (Done (m', n, None), W') \<and> rs_out (ring_services W' ! s) = Some b'
     \<and> ring_open b' \<and> unread b' = unread b @ ws
     \<and> (\<forall>v c rest spare. rs_in v = Some c \<and> ring_open c \<and> unread c = ws @ rest \<longrightarrow>
          (\<exists>v1 p k v2 v3 c3. peekMessageSize v = (Done (Inr (PUBLISH, n)), v1) \<and> peekMessage spare PUBLISH n v1 = (Done (Some p, k, None), v2)
             \<and> content p = fst (sent (MPublish m) (gPacketId (bk W)))
             \<and> on_in (ReadCommit n) v2 = (Done (n, None), v3) \<and> rs_in v3 = Some c3 \<and> unread c3 = rest))"
proof -
  obtain m2 m' where m': "message_ok (MPublish m')" "content (MPublish m') = fst (sent (MPublish m) (gPacketId (bk W)))"
    "publish_Len m = Some (int (length (message_wire (MPublish m'))), m2)"
    "\<forall>dst. wf_slice dst \<longrightarrow> length (message_wire (MPublish m')) \<le> sl_len dst \<longrightarrow>
      publish_Encode m2 dst (gPacketId (bk W)) =
        Some ((m', fill dst (message_wire (MPublish m')), int (length (message_wire (MPublish m'))), None), snd (sent (MPublish m) (gPacketId (bk W))))"
    using publish_encodes [OF assms(1), of "gPacketId (bk W)"] by blast
  let ?ws = "message_wire (MPublish m')"
  have n: "n = int (length ?ws)" using assms(2) m'(3) by (simp del: message_wire.simps)
  have "message_Len (MPublish m) = Some (int (length ?ws), MPublish m2)" using m'(3) by (simp del: message_wire.simps)
  moreover have "message_Encode (MPublish m2) dst (gPacketId (bk W))
      = Some ((MPublish m', fill dst ?ws, int (length ?ws), None), snd (sent (MPublish m) (gPacketId (bk W))))"
    if "wf_slice dst" "length ?ws \<le> sl_len dst" for dst using m'(4) that by (simp del: message_wire.simps)
  ultimately obtain b' W' where
    w: "ring_writeMessage s (MPublish m) W = (Done (MPublish m', n, None), W')" "rs_out (ring_services W' ! s) = Some b'" "ring_open b'" "unread b' = unread b @ ?ws"
    using ring_writeMessage_ok [OF assms(3-7), of "MPublish m" ?ws "MPublish m2" "MPublish m'"] assms(8) unfolding n by meson
  moreover note taken_out [OF _ _ _ m'(1)]
  ultimately show ?thesis unfolding n m'(2) [symmetric] by blast
qed

text \<open>A service with a new buffer for what goes out and \<open>b\<close> for what comes in.\<close>

definition example_rings :: "ringbuf \<Rightarrow> ringbuf \<Rightarrow> ring_service" where
  "example_rings i b =
     \<lparr>rs_in = Some i, rs_out = Some b, intmp = [], outtmp = [], wmu = False,
      csMgr = \<lparr>cs_state = 0, notifyChan = None, chans = 0, closed_chans = []\<rparr>, wgStarted = 3, wgStopped = 3\<rparr>"

theorem ring_carries_publish_witness:
  "\<exists>q b m' W' b' v1 p k v2. newAckqueue 16 ''Pub1ack'' [] = Some q \<and> newBuffer 0 0 = (Inr b, 1)
     \<and> ring_writeMessage 0 (MPublish example_publish) \<lparr>bk = example_broker q [], ring_services = [example_rings b b]\<rparr> = (Done (m', 12, None), W')
     \<and> rs_out (ring_services W' ! 0) = Some b'
     \<and> peekMessageSize (example_rings b' b) = (Done (Inr (PUBLISH, 12)), v1)
     \<and> peekMessage [] PUBLISH 12 v1 = (Done (Some p, k, None), v2) \<and> content p = PPublish 0x32 (Some 1) [97, 47, 98] [1, 2, 3]"
proof -
  obtain q where q: "newAckqueue 16 ''Pub1ack'' [] = Some q" using new_queue by blast
  obtain b where b: "newBuffer 0 0 = (Inr b, 1)" using example_ring by blast
  have o: "ring_open b" "unread b = []" "rb_size b = 262144" using newBuffer_ok [OF b] by (simp_all add: ring_open_def)
  have room: "12 \<le> ring_room b" using o(3) Len_unread [of b] o(1,2) by (simp add: ring_room_def ring_open_def)
  have "map_option fst (publish_Len example_publish) = Some 12" by code_simp
  then obtain m1 where l: "publish_Len example_publish = Some (12, m1)" by auto
  let ?W = "\<lparr>bk = example_broker q [], ring_services = [example_rings b b]\<rparr>"
  have g: "gPacketId (bk ?W) = 0" "0 < length (services (bk ?W))" by (simp_all add: example_broker_def)
  have e: "0 < length (ring_services ?W)" "rs_out (ring_services ?W ! 0) = Some b" "\<not> wmu (ring_services ?W ! 0)"
    by (simp_all add: example_rings_def)
  have c: "fst (sent (MPublish example_publish) 0) = PPublish 0x32 (Some 1) [97, 47, 98] [1, 2, 3]" using example_sent by (simp add: Let_def split: prod.splits)
  obtain m' ws W' b' where w: "ring_writeMessage 0 (MPublish example_publish) ?W = (Done (m', 12, None), W')"
      "rs_out (ring_services W' ! 0) = Some b'" "ring_open b'" "unread b' = unread b @ ws"
    and r: "\<And>v c rest spare. rs_in v = Some c \<and> ring_open c \<and> unread c = ws @ rest \<Longrightarrow>
       \<exists>v1 p k v2 v3 c3. peekMessageSize v = (Done (Inr (PUBLISH, 12)), v1) \<and> peekMessage spare PUBLISH 12 v1 = (Done (Some p, k, None), v2)
         \<and> content p = fst (sent (MPublish example_publish) (gPacketId (bk ?W)))
         \<and> on_in (ReadCommit 12) v2 = (Done (12, None), v3) \<and> rs_in v3 = Some c3 \<and> unread c3 = rest"
    using ring_carries_publish [OF example_good(1) l e(1) g(2) e(2) o(1) e(3) room] by blast
  from r [of "example_rings b' b" b' "[]" "[]"] w(3,4) o(2) g c q b w(1,2) show ?thesis
    by (simp add: example_rings_def) blast
qed

section \<open>readMessage\<close>

lemma rb_Read_all:
  assumes "ring_open b" and "unread b \<noteq> []" and "length (unread b) \<le> pl" and "cursor (cseq b) mod rb_size b + rb_Len b \<le> rb_size b"
  shows "\<exists>b'. rb_Read pl b = (Done (unread b, None), b') \<and> unread b' = []"
proof -
  have o: "rb_ok b" "unlocked b" using assms(1) by (simp_all add: ring_open_def)
  note f = rb_ok_facts [OF o(1)]
  let ?c = "cursor (cseq b)" and ?p = "cursor (pseq b)" and ?n = "nat (rb_Len b)"
  have "0 < length (unread b)" by (rule length_greater_0_conv [THEN iffD2, OF assms(2)])
  then have l: "0 < rb_Len b" "rb_Len b \<le> int pl" using assms(3) Len_unread [OF o(1)] by linarith+
  have lc: "?p - ?c = rb_Len b" "?c < ?p" using l(1) by (auto simp: rb_Len_def seq_get_def)
  obtain i where i: "?c mod rb_size b = int i" using f(3) by (metis nonneg_int_cases pos_mod_sign)
  have n: "0 < length (rb_buf b)" "?n \<le> length (rb_buf b)" "i + ?n \<le> length (rb_buf b)" using f(2,3,5) l(1) assms(4) i by auto
  have x: "take ?n (drop i (rb_buf b)) = unread b"
    using stretch(1) [OF n(1,2), of ?c] n(3) i f(2) by (simp add: unread_def)
  have "(let cindex = ?c AND rb_mask b
      in if ?c + int pl < ?p then cut_from cindex (rb_buf b)
         else if cindex + (?p - ?c) < rb_size b then cut cindex (cindex + (?p - ?c)) (rb_buf b) else cut_from cindex (rb_buf b)) = Some (unread b)"
    unfolding f(1) i Let_def lc(1) using l lc n(3) x f(2) assms(4) i by (auto simp: cut_def)
  then have "rb_Read pl b = (Done (unread b, None), b\<lparr>cseq := seq_set (cseq b) (?c + int ?n)\<rparr>)"
    using l lc assms(3) o(2) by (simp add: rb_Read_def read_take_def andThen_def gets_def seq_get_def lift_opt_def modify_def yield_def Let_def wake_ok)
  moreover have "unread (b\<lparr>cseq := seq_set (cseq b) (?c + int ?n)\<rparr>) = []" using drop_unread [of ?n b] by simp
  ultimately show ?thesis by blast
qed

text \<open>
  C19: \<open>readMessage\<close> decodes the message at the head of the incoming buffer, but it reads as much as fits into \<open>intmp\<close>, which keeps
  the length of the longest message so far: whatever follows the message in the buffer is taken out as well and lost.
\<close>

theorem readMessage_loses:
  assumes "rs_in v = Some b" and "ring_open b" and "unread b = message_wire (MPublish m) @ rest" and "message_ok (MPublish m)"
    and "length (unread b) \<le> length (intmp v)" and "cursor (cseq b) mod rb_size b + rb_Len b \<le> rb_size b"
  shows "\<exists>p k v' b'. readMessage PUBLISH (int (length (message_wire (MPublish m)))) v = (Done (Some p, k, None), v')
     \<and> content p = content (MPublish m) \<and> rs_in v' = Some b' \<and> unread b' = []"
proof -
  let ?ws = "message_wire (MPublish m)"
  have ws: "0 < length ?ws" using message_framed [OF assms(4)] by (auto simp: framed_def header_bytes_def simp del: message_wire.simps)
  then have ne: "unread b \<noteq> []" using assms(3) by (auto simp del: message_wire.simps)
  obtain b' where r: "rb_Read (length (intmp v)) b = (Done (unread b, None), b')" "unread b' = []"
    using rb_Read_all [OF assms(2) ne assms(5,6)] by blast
  define tmp where "tmp = unread b @ drop (length (unread b)) (intmp v)"
  have le: "length ?ws \<le> length (unread b)" unfolding assms(3) by simp
  have "read_msg_loop (int (length ?ws)) 0 (intmp v) b = read_msg_loop (int (length ?ws)) (length (unread b)) tmp b'"
    using ws r(1) ne by (subst read_msg_loop.simps) (simp add: tmp_def del: message_wire.simps length_unread)
  also have "\<dots> = (Done None, tmp, b')"
    using le by (subst read_msg_loop.simps) (simp del: message_wire.simps length_unread)
  finally have l: "read_msg_loop (int (length ?ws)) 0 (intmp v) b = (Done None, tmp, b')" .
  have "tmp = ?ws @ rest @ drop (length (unread b)) (intmp v)" unfolding tmp_def assms(3) by simp
  then obtain x where x: "slice_range (slice_of tmp) 0 (int (length ?ws)) = Some \<lparr>sl_len = length ?ws, sl_arr = ?ws @ x\<rparr>"
    by (simp add: slice_range_def slice_of_def go_cap_def del: message_wire.simps)
  obtain p k where d: "message_Decode (MPublish NewPublishMessage) \<lparr>sl_len = length ?ws, sl_arr = ?ws @ x\<rparr> = Some (MPublish p, k, None)"
    "content (MPublish p) = content (MPublish m)" using publish_decodes_slack [OF assms(4), of x] by blast
  have "message_New PUBLISH = Inr (MPublish NewPublishMessage)" by (simp add: message_New_def)
  moreover have "\<not> int (length (intmp v)) < int (length ?ws)" using le assms(5) by linarith
  ultimately have "readMessage PUBLISH (int (length ?ws)) v = (Done (Some (MPublish p), k, None), v\<lparr>intmp := tmp, rs_in := Some b'\<rparr>)"
    using assms(1) l x d(1)
    by (simp add: readMessage_def decode_new_def andThen_def gets_def modify_def yield_def lift_opt_def
        del: message_wire.simps content.simps message_Decode.simps)
  with d(2) r(2) show ?thesis by (intro exI [of _ "MPublish p"]) (simp del: content.simps message_wire.simps)
qed

theorem readMessage_loses_witness:
  "\<exists>b b1 p k v' b'. newBuffer 0 0 = (Inr b, 1)
     \<and> rb_Write (message_wire (MPublish example_upload) @ message_wire (MPublish example_upload)) b = (Done (24, None), b1)
     \<and> readMessage PUBLISH 12 ((example_rings b1 b)\<lparr>intmp := replicate 100 0\<rparr>) = (Done (Some p, k, None), v')
     \<and> rs_in v' = Some b' \<and> unread b' = []"
proof -
  let ?ws = "message_wire (MPublish example_upload)"
  obtain b where b: "newBuffer 0 0 = (Inr b, 1)" using example_ring by blast
  have o: "rb_ok b" "unlocked b" "\<not> rb_done b" "unread b = []" "rb_size b = 262144" "cursor (cseq b) = 0" "rb_Len b = 0"
    using newBuffer_ok [OF b] b by (auto simp: newBuffer_def newSequence_def rb_Len_def seq_get_def Let_def split: if_splits)
  obtain b1 where b1: "rb_Write (?ws @ ?ws) b = (Done (24, None), b1)" "ring_open b1" "unread b1 = ?ws @ ?ws" "rb_size b1 = 262144" "cseq b1 = cseq b"
    using rb_Write_ok [OF o(1-3), of "?ws @ ?ws"] o(4,5,7) example_upload_bytes(2)
    by (auto simp: ring_open_def simp del: message_wire.simps)
  have "rb_Len b1 = 24" using Len_unread [of b1] b1(2,3) example_upload_bytes(2) by (simp add: ring_open_def del: message_wire.simps length_unread)
  moreover have "length (unread b1) = 24" unfolding b1(3) using example_upload_bytes(2) by (simp del: message_wire.simps)
  moreover note example_upload_ok
  ultimately show ?thesis
    using readMessage_loses [of "(example_rings b1 b)\<lparr>intmp := replicate 100 0\<rparr>" b1 example_upload ?ws] b b1 o(6) example_upload_bytes(2)
    by (auto simp: example_rings_def simp del: message_wire.simps length_unread message_ok.simps)
qed

end
