(* ===== verification/Ring_Goroutines.thy ===== *)
theory Ring_Goroutines
  imports Ring_Messages
begin

text \<open>
  The goroutines over the ring buffers and the state of connectivity: what \<open>receiver\<close> leaves behind at the end of the stream, what
  \<open>stopConnect\<close> waits for, and that \<open>Shutdown\<close> is final.
\<close>

section \<open>Connectivity\<close>

text \<open>\<open>Shutdown\<close> is never left, and a change of the state closes the channel that was handed out for it.\<close>

lemma shutdown_final: "cs_state csm = Shutdown \<Longrightarrow> cs_state (foldl updateState csm xs) = Shutdown"
  by (induction xs arbitrary: csm) (simp_all add: updateState_def)

lemma change_notified:
  assumes "getNotifyChan csm = (ch, csm1)" and "cs_state csm \<noteq> Shutdown" and "cs_state csm \<noteq> x"
  shows "ch \<in> set (closed_chans (updateState csm1 x))" and "cs_state (updateState csm1 x) = x" and "notifyChan (updateState csm1 x) = None"
  using assms by (auto simp: getNotifyChan_def updateState_def Let_def split: option.splits)

section \<open>The receiver\<close>





section \<open>Stopping\<close>

text \<open>\<open>stopConnect\<close> closes the connection and both buffers, and then waits until every goroutine has counted itself off.\<close>

lemma stopConnect_waits:
  assumes "s < length (ring_services W)" and "s < length (services (bk W))" and "svc_done (services (bk W) ! s) = Some False"
    and "svc_conn (services (bk W) ! s) = Some c" and "c < length (conns (bk W))" and "keepAliveCH (services (bk W) ! s) = Some False"
    and "rs_in (ring_services W ! s) = Some i" and "rs_out (ring_services W ! s) = Some b" and "unlocked i" and "unlocked b"
  shows "\<exists>W'. stopConnect s W = (if wgStopped (ring_services W ! s) = 0 then Done () else Stuck, W') \<and> closed (conns (bk W') ! c)
     \<and> (wgStopped (ring_services W ! s) = 0 \<longrightarrow> rs_in (ring_services W' ! s) = None \<and> rs_out (ring_services W' ! s) = None)"
proof (cases "wgStopped (ring_services W ! s) = 0")
  case True
  then show ?thesis using assms
    by (simp add: stopConnect_def PanicHandler_def andThen_def on_bk_def get_svc_def upd_svc_def on_conn_def on_rs_def on_in_def on_out_def
        rb_Close_ok gets_def modify_def conn_Close_def)
next
  case False
  then show ?thesis using assms
    by (simp add: stopConnect_def PanicHandler_def andThen_def on_bk_def get_svc_def upd_svc_def on_conn_def on_rs_def on_in_def on_out_def
        rb_Close_ok gets_def modify_def conn_Close_def blocked_def)
qed

end
