(* ===== verification/Spec2Isabelle.thy ===== *)
theory Spec2Isabelle
  imports Mem_Topics Ring_Goroutines
begin

text \<open>
  A verification development for the broker xmqtt, an MQTT server written in Go.

  \<^bold>\<open>The program.\<close>  A connection carries MQTT packets: \<open>src/utils/surgemq/message\<close> encodes and decodes
  them, \<open>src/service/misc.go\<close> cuts them out of the byte stream.  \<open>src/topics\<close> holds the subscriptions and the
  retained messages of all clients in two trees of topic levels, \<open>src/sessions\<close> the state of every client:
  its CONNECT message, its topics and six queues of messages that wait for an acknowledgement.  \<open>src/service\<close> is the
  broker: a server accepts connections and runs one service for each, a goroutine of the service reads packets
  and calls their handlers, uploaded messages go through a channel to the goroutine that passes them on to devices, and
  every message sent waits for its acknowledgement with a timer.  An earlier way of running a service, over two ring buffers with
  goroutines of their own, is still in the code.

  \<^bold>\<open>The messages.\<close>  \<open>Go_Prelude\<close> has Go's slices (with their backing arrays, where aliasing matters), panics
  (\<open>None\<close>) and errors; \<open>Go_Varint\<close> is \<open>encoding/binary\<close>'s variable-length integers.  \<open>Message_Basics\<close> is
  \<open>message.go\<close>, \<open>Header\<close> is \<open>header.go\<close>; \<open>Ack_Packets\<close> models PUBACK, PUBREC, PUBREL, PUBCOMP, UNSUBACK, PINGREQ,
  PINGRESP and DISCONNECT, \<open>Connack\<close>, \<open>Suback\<close>, \<open>Publish\<close>, \<open>Subscribe\<close>, \<open>Unsubscribe\<close> and \<open>Connect\<close> the
  packets of those names, each with its setters, \<open>Len\<close>, \<open>Encode\<close> and \<open>Decode\<close> and with the round trip between
  the last two; \<open>Messages\<close> joins them under the interface \<open>Message\<close>.  \<open>Conn_Misc\<close> reads and writes packets
  over a stream that arrives in fragments and shows that every sequence of packets arrives.

  \<^bold>\<open>The topics.\<close>  \<open>Topic_Levels\<close> has \<open>nextTopicLevel\<close> of \<open>memtopics.go\<close> and shows that it splits at the
  separators.  \<open>Sub_Tree\<close> has the tree of subscriptions (\<open>sinsert\<close>, \<open>sremove\<close>, \<open>smatch\<close>, \<open>matchQos\<close>), its
  invariant and its abstraction to a collection of subscriptions with a declarative matching relation;
  \<open>Ret_Tree\<close> the tree of retained messages (\<open>rinsert\<close>, \<open>rremove\<close>, \<open>rmatch\<close>).  \<open>Mem_Topics\<close> is the provider and
  the manager over it (\<open>topics.go\<close>); the locale \<open>subscription_store\<close> states the contract both keep.

  \<^bold>\<open>The sessions.\<close>  \<open>Go_Bits\<close> has the powers of two of \<open>ackqueue.go\<close> on 64-bit words, \<open>Ackqueue\<close> the ring buffer
  that grows, \<open>Ack_Spec\<close> the list it implements: the locale \<open>ack_store\<close> states the simulation.  \<open>Session\<close> is
  \<open>session.go\<close>, \<open>memprovider.go\<close> and \<open>sessions.go\<close>; \<open>Session_Props\<close> shows that a session keeps what its CONNECT
  message said and that the sessions form a table (locale \<open>session_table\<close>).

  \<^bold>\<open>The broker.\<close>  \<open>Go_Effects\<close> has the actions in which the broker is written: state passing with the outcomes \<open>Done\<close>,
  \<open>Panicked\<close> and \<open>Stuck\<close>, a call that waits for ever.  \<open>Broker_State\<close> has the objects (\<open>service\<close>, \<open>Server\<close>, the pools of
  \<open>pool.go\<close> and \<open>readwrite.go\<close>), \<open>Service\<close> is \<open>service.go\<close> with \<open>sendData\<close> of \<open>readwrite.go\<close>, \<open>Process\<close> the
  handlers of \<open>process.go\<close>, \<open>Receive\<close> the reading of \<open>readwrite.go\<close> over \<open>bufio.Reader\<close>, \<open>Broker_Server\<close> is
  \<open>server.go\<close>, \<open>biz.go\<close>, \<open>auth.go\<close> and the goroutine \<open>receiverData\<close>, and \<open>Config\<close> is \<open>config.go\<close> and the server
  that \<open>xsfserver.go\<close> builds.  \<open>Receive_Props\<close>, \<open>Send_Props\<close>, \<open>Broker_Flow\<close>, \<open>Broker_Push\<close> and \<open>Broker_Acked\<close> have the lemmas on
  one packet in, one packet out and the queue of a session; \<open>Broker_Props\<close> follows a message from the device that uploads it to the
  device that receives it and back to the acknowledgement.  \<open>Broker_Stop\<close> has the end of a connection, \<open>Broker_Connect\<close> shows what an
  accepted CONNECT sets up, and \<open>Broker_Disconnect\<close> what each way to end a connection releases and what it leaves behind.

  \<^bold>\<open>The ring buffers.\<close>  \<open>Ring_Buffer\<close> is \<open>buffer.go\<close>, \<open>Ring_Props\<close> shows what its operations do to the bytes between the
  two positions, and \<open>Ring_Stream\<close> that these form a queue (locale \<open>byte_stream\<close>).  \<open>Ring_Steps\<close> has the producer
  and the consumer as interleaved steps on single bytes, and \<open>Close\<close> against a consumer that is about to wait.  \<open>Ring_Safe\<close> shows that
  every operation keeps the buffer well formed on every branch.  \<open>Ring_Service\<close> is \<open>sendrecv.go\<close>, \<open>connection.go\<close> and
  \<open>stopConnect\<close>; \<open>Ring_Messages\<close> follows a message from one ring to another, and \<open>Ring_Goroutines\<close> has the goroutine
  \<open>receiver\<close>, the state of connectivity and the stop.

  \<^bold>\<open>Conventions.\<close>  In the messages, topics and sessions an operation returns the changed object first, then its Go results, and
  \<open>None\<close> is a panic; in the broker and the ring buffers operations are actions.  Objects that are shared by pointers are places in
  lists.  Random draws, the items that \<open>sync.Pool\<close> hands out and clock readings are arguments, as are \<open>copier.Copy\<close>
  and \<open>viper\<close>, packages outside the repository; the timer wheel is the list of the calls made to it.  The network is the bytes that
  arrive, the portions in which they do, the bytes sent, and the errors that end it.  A Go map is an association list with distinct
  keys where it is looped over, else a HOL map.  An operation that holds its object's mutex is one step; a goroutine that loops
  is its round, one step each.  Loops are total functions; \<open>ring_copy_loop\<close> alone is a partial one, and it is shown to return.  No fuel
  is used; \<open>peek_size_loop\<close> counts the four passes that the code allows.  Positions in the ring are unbounded integers, where the code
  has 64-bit counters of bytes.

  \<^bold>\<open>Not modelled.\<close>  The goroutine \<open>processor\<close>, which nothing starts: it hands on messages that share their bytes with the ring
  buffer, whereas the model's messages are values.  The closure \<open>onPub\<close> of \<open>start\<close>, which nothing calls.  The listeners with TLS and web
  sockets, logging and the clients of data bases and queues, which are input and output; the generated protocol buffers; the
  package tests; and \<open>src/utils/surgemq/surgemq\<close>, an older copy that the server does not use.
\<close>

end
